(* ===== verification/Prelude.thy ===== *)
theory Prelude
  imports Main "HOL-Library.Word"
begin

text \<open>
  Shared vocabulary of the development.

  \<^item> The machine types of the Go sources: \<open>byte\<close>, \<open>uint32\<close>, \<open>uint64\<close> as words, \<open>[]byte\<close> as a list of
    bytes, \<open>int32\<close> and \<open>int64\<close> conversions of a mathematical integer as \<open>i32\<close> and \<open>i64\<close> (two's
    complement truncation), \<open>int\<close> lengths as unbounded integers (a Go slice never has \<open>2 ^ 63\<close> elements).
  \<^item> The result type \<open>'e + 'a\<close> of fallible code, \<open>Inl\<close> being the \<open>error\<close> return, with the sequencing
    \<open>rbind\<close> that stands for \<^verbatim>\<open>x, err := f(); if err != nil { return err }\<close>.
  \<^item> Little-endian encodings (package \<open>encoding/binary\<close>), and facts on single bytes.
\<close>

unbundle bit_operations_syntax

type_synonym byte = "8 word"
type_synonym bytes = "byte list"
type_synonym u16 = "16 word"
type_synonym u32 = "32 word"
type_synonym u64 = "64 word"

named_theorems res_simps \<open>equations that unfold a sequencing of fallible steps\<close>

subsection \<open>Fallible steps\<close>

definition rbind :: "'e + 'a \<Rightarrow> ('a \<Rightarrow> 'e + 'b) \<Rightarrow> 'e + 'b" where
  "rbind r f = (case r of Inl e \<Rightarrow> Inl e | Inr x \<Rightarrow> f x)"

lemma rbind_Inl [simp]: "rbind (Inl e) f = Inl e"
  by (simp add: rbind_def)

lemma rbind_Inr [simp]: "rbind (Inr x) f = f x"
  by (simp add: rbind_def)

lemma rbind_eq_Inr [res_simps]: "rbind r f = Inr y \<longleftrightarrow> (\<exists>x. r = Inr x \<and> f x = Inr y)"
  by (cases r) auto

lemma rbind_eq_Inl [res_simps]:
  "rbind r f = Inl e \<longleftrightarrow> r = Inl e \<or> (\<exists>x. r = Inr x \<and> f x = Inl e)"
  by (cases r) auto

lemma rbind_assoc: "rbind (rbind r f) g = rbind r (\<lambda>x. rbind (f x) g)"
  by (cases r) auto

lemma rbind_cong [fundef_cong]:
  "r = r' \<Longrightarrow> (\<And>x. r' = Inr x \<Longrightarrow> f x = f' x) \<Longrightarrow> rbind r f = rbind r' f'"
  by (cases r') auto

definition is_ok :: "'e + 'a \<Rightarrow> bool" where
  "is_ok r = (case r of Inl _ \<Rightarrow> False | Inr _ \<Rightarrow> True)"

lemma is_ok_simps [simp]: "is_ok (Inr x)" "\<not> is_ok (Inl e)"
  by (simp_all add: is_ok_def)

lemma is_ok_iff: "is_ok r \<longleftrightarrow> (\<exists>x. r = Inr x)"
  by (cases r) auto

text \<open>A loop over a slice whose body may fail, collecting the results.\<close>

primrec rmap :: "('a \<Rightarrow> 'e + 'b) \<Rightarrow> 'a list \<Rightarrow> 'e + 'b list" where
  "rmap f [] = Inr []"
| "rmap f (x # xs) = rbind (f x) (\<lambda>y. rbind (rmap f xs) (\<lambda>ys. Inr (y # ys)))"

lemma rmap_Inr_iff: "rmap f xs = Inr ys \<longleftrightarrow> list_all2 (\<lambda>x y. f x = Inr y) xs ys"
  by (induction xs arbitrary: ys) (auto simp: res_simps list_all2_Cons1)

lemma rmap_total: "(\<And>x. x \<in> set xs \<Longrightarrow> f x = Inr (g x)) \<Longrightarrow> rmap f xs = Inr (map g xs)"
  by (induction xs) auto

lemma rmap_rbind:
  "rmap (\<lambda>x. rbind (f x) (\<lambda>y. Inr (g y))) xs = rbind (rmap f xs) (\<lambda>ys. Inr (map g ys))"
proof (induction xs)
  case (Cons x xs)
  then show ?case by (cases "f x"; cases "rmap f xs") auto
qed simp

lemma rmap_map_comp: "rmap f (map g xs) = rmap (f \<circ> g) xs"
  by (induction xs) simp_all

lemma rmap_cong [fundef_cong]:
  "xs = ys \<Longrightarrow> (\<And>x. x \<in> set ys \<Longrightarrow> f x = g x) \<Longrightarrow> rmap f xs = rmap g ys"
  by (induction xs arbitrary: ys) auto

subsection \<open>Lists\<close>

lemma list_update_last: "xs \<noteq> [] \<Longrightarrow> xs[length xs - Suc 0 := x] = butlast xs @ [x]"
  by (cases xs rule: rev_cases) simp_all

subsection \<open>Conversions to sized signed integers\<close>

abbreviation i32 :: "int \<Rightarrow> int" where
  "i32 n \<equiv> signed_take_bit 31 n"

abbreviation i64 :: "int \<Rightarrow> int" where
  "i64 n \<equiv> signed_take_bit 63 n"

lemma i32_id: "- (2 ^ 31) \<le> n \<Longrightarrow> n < 2 ^ 31 \<Longrightarrow> i32 n = n"
  by (simp add: signed_take_bit_int_eq_self)

lemma i64_id: "- (2 ^ 63) \<le> n \<Longrightarrow> n < 2 ^ 63 \<Longrightarrow> i64 n = n"
  by (simp add: signed_take_bit_int_eq_self)

lemma i32_range: "- (2 ^ 31) \<le> i32 n" "i32 n < 2 ^ 31"
  using signed_take_bit_int_greater_eq_minus_exp [of 31 n] signed_take_bit_int_less_exp [of 31 n]
  by simp_all

lemma i64_range: "- (2 ^ 63) \<le> i64 n" "i64 n < 2 ^ 63"
  using signed_take_bit_int_greater_eq_minus_exp [of 63 n] signed_take_bit_int_less_exp [of 63 n]
  by simp_all

lemma i32_of_nat: "k < 2 ^ 31 \<Longrightarrow> i32 (int k) = int k"
  by (rule i32_id) auto

subsection \<open>Little-endian encodings\<close>

fun le_bytes :: "nat \<Rightarrow> nat \<Rightarrow> bytes" where
  "le_bytes 0 n = []"
| "le_bytes (Suc k) n = word_of_nat n # le_bytes k (n div 256)"

fun le_val :: "bytes \<Rightarrow> nat" where
  "le_val [] = 0"
| "le_val (b # bs) = unat b + 256 * le_val bs"

lemma length_le_bytes [simp]: "length (le_bytes k n) = k"
  by (induction k n rule: le_bytes.induct) auto

lemma unat_byte_lt [simp]: "unat (b :: byte) < 256"
  using unsigned_less [of b] by simp

lemma unat_word_of_nat_byte [simp]: "unat (word_of_nat n :: byte) = n mod 256"
  by (simp add: unsigned_of_nat take_bit_eq_mod)

lemma le_val_le_bytes: "le_val (le_bytes k n) = n mod 256 ^ k"
proof (induction k n rule: le_bytes.induct)
  case (2 k n)
  have "n mod 256 + 256 * (n div 256 mod 256 ^ k) = n mod (256 * 256 ^ k)"
    by (simp add: mod_mult2_eq)
  with 2 show ?case by simp
qed simp

lemma le_val_less: "le_val bs < 256 ^ length bs"
proof (induction bs)
  case (Cons b bs)
  have "unat b + 256 * le_val bs < 256 * (1 + le_val bs)"
    using unat_byte_lt [of b] by (simp del: unat_byte_lt)
  also have "\<dots> \<le> 256 * 256 ^ length bs"
    using Cons by (intro mult_le_mono2) simp
  finally show ?case by simp
qed simp

lemma le_bytes_le_val: "le_bytes (length bs) (le_val bs) = bs"
proof (induction bs)
  case (Cons b bs)
  have "(unat b + 256 * le_val bs) div 256 = le_val bs"
    using unat_byte_lt [of b] by (simp del: unat_byte_lt)
  moreover have "(word_of_nat (unat b + 256 * le_val bs) :: byte) = b"
    by (rule word_unat_eq_iff [THEN iffD2])
      (metis mod_less mod_mult_self2 unat_byte_lt unat_word_of_nat_byte)
  ultimately show ?case using Cons by simp
qed simp

lemma le_val_append: "le_val (xs @ ys) = le_val xs + 256 ^ length xs * le_val ys"
  by (induction xs) (auto simp: algebra_simps)

lemma le_val_inj: "length xs = length ys \<Longrightarrow> le_val xs = le_val ys \<Longrightarrow> xs = ys"
  by (metis le_bytes_le_val)

definition PutUint16 :: "u16 \<Rightarrow> bytes" where "PutUint16 v = le_bytes 2 (unat v)"
definition PutUint32 :: "u32 \<Rightarrow> bytes" where "PutUint32 v = le_bytes 4 (unat v)"
definition PutUint64 :: "u64 \<Rightarrow> bytes" where "PutUint64 v = le_bytes 8 (unat v)"
definition Uint16 :: "bytes \<Rightarrow> u16" where "Uint16 bs = word_of_nat (le_val (take 2 bs))"
definition Uint32 :: "bytes \<Rightarrow> u32" where "Uint32 bs = word_of_nat (le_val (take 4 bs))"
definition Uint64 :: "bytes \<Rightarrow> u64" where "Uint64 bs = word_of_nat (le_val (take 8 bs))"

lemma length_PutUint [simp]:
  "length (PutUint16 v) = 2" "length (PutUint32 w) = 4" "length (PutUint64 x) = 8"
  by (simp_all add: PutUint16_def PutUint32_def PutUint64_def)

lemma Uint16_PutUint16 [simp]: "Uint16 (PutUint16 v @ bs) = v"
  using unsigned_less [of v, where 'a = nat]
  by (simp add: Uint16_def PutUint16_def le_val_le_bytes)

lemma Uint32_PutUint32 [simp]: "Uint32 (PutUint32 v @ bs) = v"
  using unsigned_less [of v, where 'a = nat]
  by (simp add: Uint32_def PutUint32_def le_val_le_bytes)

lemma Uint64_PutUint64 [simp]: "Uint64 (PutUint64 v @ bs) = v"
  using unsigned_less [of v, where 'a = nat]
  by (simp add: Uint64_def PutUint64_def le_val_le_bytes)

lemma PutUint32_Uint32: "length bs = 4 \<Longrightarrow> PutUint32 (Uint32 bs) = bs"
  using le_val_less [of bs] le_bytes_le_val [of bs]
  by (simp add: Uint32_def PutUint32_def unsigned_of_nat take_bit_eq_mod)

lemma PutUint64_Uint64: "length bs = 8 \<Longrightarrow> PutUint64 (Uint64 bs) = bs"
  using le_val_less [of bs] le_bytes_le_val [of bs]
  by (simp add: Uint64_def PutUint64_def unsigned_of_nat take_bit_eq_mod)

subsection \<open>Facts on single bytes\<close>

lemma all_bytes:
  assumes "\<And>n. n < 256 \<Longrightarrow> P (word_of_nat n :: byte)"
  shows "P b"
  using assms [of "unat b"] by simp

lemma and_0x80: "(b :: byte) AND 0x80 = (if unat b < 128 then 0 else 0x80)"
proof -
  have *: "b AND 0x80 = (if bit b 7 then 0x80 else 0)"
    by (rule bit_word_eqI) (auto simp: bit_simps numeral_eq_Suc less_Suc_eq)
  have "bit b 7 \<longleftrightarrow> bit (unat b) 7"
    by (simp add: bit_unsigned_iff)
  also have "\<dots> \<longleftrightarrow> \<not> unat b < 128"
  proof (cases "unat b < 128")
    case False
    then have "unat b div 128 = 1"
      using unat_byte_lt [of b] by (intro div_nat_eqI) auto
    with False show ?thesis by (simp add: bit_iff_odd)
  qed (simp add: bit_iff_odd)
  finally have "bit b 7 \<longleftrightarrow> \<not> unat b < 128" .
  with * show ?thesis by simp
qed

lemma and_0x80_eq_0: "(b :: byte) AND 0x80 = 0 \<longleftrightarrow> unat b < 128"
  by (simp add: and_0x80)

lemma unat_and_0x7f: "unat ((b :: byte) AND 0x7f) = unat b mod 128"
proof -
  have "(0x7f :: byte) = mask 7"
    by (simp add: mask_eq_exp_minus_1)
  then have "b AND 0x7f = take_bit 7 b"
    by (simp add: take_bit_eq_mask)
  then show ?thesis
    by (simp add: take_bit_eq_mod unat_mod)
qed

lemma and_0x7f_eq_0: "(b :: byte) AND 0x7f = 0 \<longleftrightarrow> unat b = 0 \<or> unat b = 128"
proof -
  have "b AND 0x7f = 0 \<longleftrightarrow> unat b mod 128 = 0"
    by (metis unat_and_0x7f unat_eq_zero)
  also have "\<dots> \<longleftrightarrow> unat b = 0 \<or> unat b = 128"
    using unat_byte_lt [of b] by (auto simp del: unat_byte_lt)
  finally show ?thesis .
qed

lemma byte_mod_128: "128 \<le> unat (b :: byte) \<Longrightarrow> unat b mod 128 + 128 = unat b"
  using unat_byte_lt [of b] le_mod_geq [of 128 "unat b"] by (simp del: unat_byte_lt)

lemma unat_or_0x80: "unat ((b :: byte) OR 0x80) = unat b mod 128 + 128"
proof -
  have "b OR 0x80 = (b AND 0x7f) + 0x80"
  proof -
    have "b OR 0x80 = (b AND 0x7f) OR 0x80"
      by (rule bit_word_eqI) (auto simp: bit_simps numeral_eq_Suc less_Suc_eq)
    also have "\<dots> = (b AND 0x7f) + 0x80"
    proof (rule disjunctive_add [symmetric])
      fix n
      have "(0x7f :: byte) AND 0x80 = 0" by simp
      then have "\<not> (bit (0x7f :: byte) n \<and> bit (0x80 :: byte) n)"
        by (metis bit_and_iff bit_0_eq bot_apply bot_bool_def)
      then show "\<not> bit (b AND 0x7f) n \<or> \<not> bit (0x80 :: byte) n"
        by (simp add: bit_and_iff)
    qed
    finally show ?thesis .
  qed
  then show ?thesis
    using mod_less_divisor [of 128 "unat b"]
    by (simp add: unat_word_ariths unat_and_0x7f)
qed

end
