(* ===== verification/Errs.thy ===== *)
theory Errs
  imports Prelude
begin

text \<open>
  Package \<open>script/interpreter/errs\<close>: the error codes of the script engine, and the ways a step of the
  engine may fail to continue.

  \<open>fault\<close> is the type of the \<open>Inl\<close> results. \<open>Fail c\<close> is \<^verbatim>\<open>errs.NewError(c, ...)\<close> (the description is a
  message for people and is dropped); \<open>FailTx e\<close> is an error value of package \<open>transaction\<close> that the engine
  passes on; \<open>Panic\<close> is a Go run-time panic (an index or slice out of range, a nil dereference, a division
  by zero); \<open>Success s\<close> is the value \<^verbatim>\<open>errs.ErrOK\<close> that OP_RETURN returns to end a script early, with the
  thread as it was left, since the caller goes on from there.
\<close>

datatype (plugins only: code size) ErrorCode =
    ErrInternal
  | ErrOK
  | ErrInvalidFlags
  | ErrInvalidIndex
  | ErrUnsupportedAddress
  | ErrNotMultisigScript
  | ErrTooManyRequiredSigs
  | ErrTooMuchNullData
  | ErrInvalidParams
  | ErrEarlyReturn
  | ErrEmptyStack
  | ErrEvalFalse
  | ErrScriptUnfinished
  | ErrInvalidProgramCounter
  | ErrScriptTooBig
  | ErrElementTooBig
  | ErrTooManyOperations
  | ErrStackOverflow
  | ErrInvalidPubKeyCount
  | ErrInvalidSignatureCount
  | ErrNumberTooBig
  | ErrNumberTooSmall
  | ErrDivideByZero
  | ErrVerify
  | ErrEqualVerify
  | ErrNumEqualVerify
  | ErrCheckSigVerify
  | ErrCheckMultiSigVerify
  | ErrDisabledOpcode
  | ErrReservedOpcode
  | ErrMalformedPush
  | ErrInvalidStackOperation
  | ErrUnbalancedConditional
  | ErrInvalidInputLength
  | ErrMinimalData
  | ErrMinimalIf
  | ErrInvalidSigHashType
  | ErrSigTooShort
  | ErrSigTooLong
  | ErrSigInvalidSeqID
  | ErrSigInvalidDataLen
  | ErrSigMissingSTypeID
  | ErrSigMissingSLen
  | ErrSigInvalidSLen
  | ErrSigInvalidRIntID
  | ErrSigZeroRLen
  | ErrSigNegativeR
  | ErrSigTooMuchRPadding
  | ErrSigInvalidSIntID
  | ErrSigZeroSLen
  | ErrSigNegativeS
  | ErrSigTooMuchSPadding
  | ErrSigHighS
  | ErrNotPushOnly
  | ErrSigNullDummy
  | ErrPubKeyType
  | ErrCleanStack
  | ErrNullFail
  | ErrDiscourageUpgradableNOPs
  | ErrNegativeLockTime
  | ErrUnsatisfiedLockTime
  | ErrIllegalForkID

text \<open>The sentinel errors of package \<open>transaction\<close> that the modelled code returns, and the ones its readers
  produce: \<open>ErrEOF\<close> is any failure of \<^verbatim>\<open>io.ReadFull\<close> at the end of the data (wrapped with a message); \<open>ErrEc\<close> is an
  error of package \<open>ec\<close>. The constructors \<open>ErrBump...\<close> stand for the unnamed errors of \<^verbatim>\<open>merklepath.go\<close>, in the order of
  the file, \<open>ErrTracker\<close> for an error of the chain tracker, and the
  constructors \<open>ErrBeef...\<close> for the unnamed errors of \<^verbatim>\<open>beef.go\<close>. \<open>ErrScript\<close> is an error of package \<open>script\<close>.\<close>

datatype TxError =
    ErrInputNoExist
  | ErrEmptyPreviousTxID
  | ErrEmptyPreviousTx
  | ErrInsufficientInputs
  | ErrNLockTimeLength
  | ErrNotImplemented
  | ErrNoUnlockingScript
  | ErrEOF
  | ErrEc
  | ErrBumpTooShort
  | ErrBumpNoTxid
  | ErrBumpNoHash
  | ErrBumpHeights
  | ErrBumpRoots
  | ErrTracker
  | ErrBeefMissingPrevious
  | ErrBeefVersion
  | ErrBeefFormat
  | ErrBeefBumpIndex
  | ErrBeefNil
  | ErrScript
  | ErrNoPrivateKey
  | ErrFeeNotComputed
  | ErrBadMerkleProof

datatype 's fault =
    Fail ErrorCode
  | FailTx TxError
  | Panic
  | Success 's

text \<open>\<^verbatim>\<open>errs.IsErrorCode\<close>: an error of another package has no code; \<open>ErrOK\<close> is carried by \<open>Success\<close>.\<close>

definition IsErrorCode :: "'s fault \<Rightarrow> ErrorCode \<Rightarrow> bool" where
  "IsErrorCode err c = (case err of Fail e \<Rightarrow> e = c | Success _ \<Rightarrow> c = ErrOK | _ \<Rightarrow> False)"

end
