(* ===== verification/Script_Number.thy ===== *)
theory Script_Number
  imports Errs
begin

text \<open>
  \<^verbatim>\<open>script/interpreter/number.go\<close>: script numbers, their little-endian sign-magnitude encoding, the check of
  minimal encodings and the re-encoding \<open>MinimallyEncode\<close>. \<open>big.Int\<close> values are HOL integers;
  \<^verbatim>\<open>(*big.Int).Int64\<close> is the low 64 bits of the value read as two's complement (\<open>i64\<close>).
  The lemmas give the value a byte string denotes (\<open>num_of_bytes\<close>), show that decoding computes it, that
  encoding is its inverse on minimal strings, and that \<open>MinimallyEncode\<close> keeps the value.
\<close>

record ScriptNumber =
  Val :: int
  AfterGenesis :: bool

definition CheckMinimalDataEncoding :: "bytes \<Rightarrow> 's fault + unit" where
  "CheckMinimalDataEncoding v =
     (if length v = 0 then Inr ()
      else if last v AND 0x7f = 0 \<and> (length v = 1 \<or> v ! (length v - 2) AND 0x80 = 0)
      then Inl (Fail ErrMinimalData)
      else Inr ())"

text \<open>The loop that ORs byte \<open>i\<close> shifted by \<open>8 * i\<close> into \<open>v\<close>.\<close>

fun or_bytes :: "nat \<Rightarrow> bytes \<Rightarrow> int \<Rightarrow> int" where
  "or_bytes i [] v = v"
| "or_bytes i (b # bb) v = or_bytes (Suc i) bb (v OR push_bit (8 * i) (uint b))"

definition MakeScriptNumber ::
    "bytes \<Rightarrow> int \<Rightarrow> bool \<Rightarrow> bool \<Rightarrow> 's fault + ScriptNumber" where
  "MakeScriptNumber bb scriptNumLen requireMinimal afterGenesis =
     (if int (length bb) > scriptNumLen then Inl (Fail ErrNumberTooBig)
      else rbind (if requireMinimal then CheckMinimalDataEncoding bb else Inr ()) (\<lambda>_.
        if length bb = 0 then Inr \<lparr>Val = 0, AfterGenesis = afterGenesis\<rparr>
        else
          let v = or_bytes 0 bb 0;
              v = (if last bb AND 0x80 \<noteq> 0
                   then - (v AND NOT (push_bit (8 * (length bb - 1)) 0x80)) else v)
          in Inr \<lparr>Val = v, AfterGenesis = afterGenesis\<rparr>))"

definition Add :: "ScriptNumber \<Rightarrow> ScriptNumber \<Rightarrow> ScriptNumber" where
  "Add n o' = n\<lparr>Val := Val n + Val o'\<rparr>"

definition Sub :: "ScriptNumber \<Rightarrow> ScriptNumber \<Rightarrow> ScriptNumber" where
  "Sub n o' = n\<lparr>Val := Val n - Val o'\<rparr>"

definition Mul :: "ScriptNumber \<Rightarrow> ScriptNumber \<Rightarrow> ScriptNumber" where
  "Mul n o' = n\<lparr>Val := Val n * Val o'\<rparr>"

text \<open>\<^verbatim>\<open>big.Int.Quo\<close> and \<^verbatim>\<open>Rem\<close>: division truncated towards zero; the divisor is tested by the callers.\<close>

definition quo :: "int \<Rightarrow> int \<Rightarrow> int" where
  "quo a b = sgn a * sgn b * (\<bar>a\<bar> div \<bar>b\<bar>)"

definition rem' :: "int \<Rightarrow> int \<Rightarrow> int" where
  "rem' a b = a - b * quo a b"

definition Div :: "ScriptNumber \<Rightarrow> ScriptNumber \<Rightarrow> ScriptNumber" where
  "Div n o' = n\<lparr>Val := quo (Val n) (Val o')\<rparr>"

definition Mod :: "ScriptNumber \<Rightarrow> ScriptNumber \<Rightarrow> ScriptNumber" where
  "Mod n o' = n\<lparr>Val := rem' (Val n) (Val o')\<rparr>"

definition LessThan :: "ScriptNumber \<Rightarrow> ScriptNumber \<Rightarrow> bool" where
  "LessThan n o' = (Val n < Val o')"

definition LessThanInt :: "ScriptNumber \<Rightarrow> int \<Rightarrow> bool" where
  "LessThanInt n i = LessThan n \<lparr>Val = i, AfterGenesis = False\<rparr>"

definition LessThanOrEqual :: "ScriptNumber \<Rightarrow> ScriptNumber \<Rightarrow> bool" where
  "LessThanOrEqual n o' = (Val n \<le> Val o')"

definition GreaterThan :: "ScriptNumber \<Rightarrow> ScriptNumber \<Rightarrow> bool" where
  "GreaterThan n o' = (Val n > Val o')"

definition GreaterThanInt :: "ScriptNumber \<Rightarrow> int \<Rightarrow> bool" where
  "GreaterThanInt n i = GreaterThan n \<lparr>Val = i, AfterGenesis = False\<rparr>"

definition GreaterThanOrEqual :: "ScriptNumber \<Rightarrow> ScriptNumber \<Rightarrow> bool" where
  "GreaterThanOrEqual n o' = (Val n \<ge> Val o')"

definition Equal :: "ScriptNumber \<Rightarrow> ScriptNumber \<Rightarrow> bool" where
  "Equal n o' = (Val n = Val o')"

definition EqualInt :: "ScriptNumber \<Rightarrow> int \<Rightarrow> bool" where
  "EqualInt n i = Equal n \<lparr>Val = i, AfterGenesis = False\<rparr>"

definition IsZero :: "ScriptNumber \<Rightarrow> bool" where
  "IsZero n = (Val n = 0)"

definition Incr :: "ScriptNumber \<Rightarrow> ScriptNumber" where
  "Incr n = n\<lparr>Val := Val n + 1\<rparr>"

definition Decr :: "ScriptNumber \<Rightarrow> ScriptNumber" where
  "Decr n = n\<lparr>Val := Val n - 1\<rparr>"

definition Neg :: "ScriptNumber \<Rightarrow> ScriptNumber" where
  "Neg n = n\<lparr>Val := - Val n\<rparr>"

definition Abs :: "ScriptNumber \<Rightarrow> ScriptNumber" where
  "Abs n = n\<lparr>Val := \<bar>Val n\<bar>\<rparr>"

definition Int_int :: "ScriptNumber \<Rightarrow> int" where
  "Int_int n = i64 (Val n)"

definition Int32 :: "ScriptNumber \<Rightarrow> int" where
  "Int32 n =
     (let v = i64 (Val n)
      in if v > 2147483647 then 2147483647
         else if v < -2147483648 then -2147483648 else i32 v)"

definition Int64 :: "ScriptNumber \<Rightarrow> int" where
  "Int64 n =
     (if GreaterThanInt n 9223372036854775807 then 9223372036854775807
      else if LessThanInt n (-9223372036854775808) then -9223372036854775808
      else i64 (Val n))"

definition Set_Int :: "ScriptNumber \<Rightarrow> int \<Rightarrow> ScriptNumber" where
  "Set_Int n i = n\<lparr>Val := i\<rparr>"

text \<open>The loop of \<open>Bytes\<close> that peels the low byte off \<open>cpy\<close> until it is zero.\<close>

function digits_loop :: "int \<Rightarrow> bytes \<Rightarrow> bytes" where
  "digits_loop cpy result =
     (if cpy > 0
      then digits_loop (drop_bit 8 cpy) (result @ [word_of_int (i64 cpy AND 0xff)])
      else result)"
  by pat_completeness auto
termination
  by (relation "measure (\<lambda>(cpy, _). nat cpy)") (auto simp: drop_bit_eq_div)

declare digits_loop.simps [simp del]

text \<open>The clamping branch of \<open>Bytes\<close> (values outside 32 bits before genesis) only sets \<open>bb\<close>, whose length is
  the capacity of the result and nothing else: the digits come from \<open>n.Val\<close>, so \<open>bb\<close> has no counterpart.\<close>

definition Bytes :: "ScriptNumber \<Rightarrow> bytes" where
  "Bytes n =
     (if IsZero n then []
      else
        let isNegative = Val n < 0;
            n = (if isNegative then Neg n else n);
            result = digits_loop \<bar>Val n\<bar> []
        in if last result AND 0x80 \<noteq> 0
           then result @ [if isNegative then 0x80 else 0x00]
           else if isNegative
           then result[length result - 1 := last result OR 0x80]
           else result)"

text \<open>The loop of \<open>MinimallyEncode\<close>, from index \<open>i\<close> down: it looks at \<open>data[i-1]\<close>.\<close>

fun minimally_loop :: "bytes \<Rightarrow> byte \<Rightarrow> nat \<Rightarrow> bytes" where
  "minimally_loop data lst 0 = []"
| "minimally_loop data lst (Suc i) =
     (if data ! i \<noteq> 0
      then if data ! i AND 0x80 \<noteq> 0
           then take (Suc (Suc i)) (data[Suc i := lst])
           else take (Suc i) (data[i := data ! i OR lst])
      else minimally_loop data lst i)"

definition MinimallyEncode :: "bytes \<Rightarrow> bytes" where
  "MinimallyEncode data =
     (if length data = 0 then data
      else if last data AND 0x7f \<noteq> 0 then data
      else if length data = 1 then []
      else if data ! (length data - 2) AND 0x80 \<noteq> 0 then data
      else minimally_loop data (last data) (length data - 1))"

lemmas sn_arith_defs =
  Add_def Sub_def Mul_def Div_def Mod_def LessThan_def LessThanInt_def LessThanOrEqual_def
  GreaterThan_def GreaterThanInt_def GreaterThanOrEqual_def Equal_def EqualInt_def IsZero_def
  Incr_def Decr_def Neg_def Abs_def Int_int_def Int32_def Int64_def Set_Int_def

subsection \<open>The value of an encoding\<close>

text \<open>What a byte string denotes: the little-endian magnitude, with the top bit of the last byte as sign.\<close>

definition num_of_bytes :: "bytes \<Rightarrow> int" where
  "num_of_bytes bb =
     (if bb = [] then 0
      else if unat (last bb) < 128 then int (le_val bb)
      else - (int (le_val bb) - 2 ^ (8 * length bb - 1)))"

definition minimal :: "bytes \<Rightarrow> bool" where
  "minimal bb = (bb = [] \<or> unat (last bb) \<notin> {0, 128}
     \<or> length bb > 1 \<and> unat (bb ! (length bb - 2)) \<ge> 128)"

lemma CheckMinimalDataEncoding_iff:
  "CheckMinimalDataEncoding bb = Inr () \<longleftrightarrow> minimal bb"
  "CheckMinimalDataEncoding bb = Inl e \<longleftrightarrow> \<not> minimal bb \<and> e = Fail ErrMinimalData"
  by (cases bb; auto simp: CheckMinimalDataEncoding_def minimal_def and_0x80_eq_0 and_0x7f_eq_0)+

lemma or_push_bit_eq_add:
  assumes "0 \<le> v" "v < 2 ^ n"
  shows "v OR push_bit n (w :: int) = v + 2 ^ n * w"
proof -
  have "take_bit n v = v"
    using assms by (simp add: take_bit_int_eq_self)
  then have "\<not> bit v m \<or> \<not> bit (push_bit n w) m" for m
    by (metis bit_push_bit_iff bit_take_bit_iff linorder_not_less)
  then have "v + push_bit n w = v OR push_bit n w"
    by (rule disjunctive_add)
  then show ?thesis by (simp add: push_bit_eq_mult mult.commute)
qed

lemma or_bytes_eq:
  "0 \<le> v \<Longrightarrow> v < 2 ^ (8 * i) \<Longrightarrow> or_bytes i bb v = v + 2 ^ (8 * i) * int (le_val bb)"
proof (induction i bb v rule: or_bytes.induct)
  case (2 i b bb v)
  have ub: "uint b < 256" "0 \<le> uint b"
    using unsigned_less [of b, where 'a = int] by simp_all
  have eq: "v OR push_bit (8 * i) (uint b) = v + 2 ^ (8 * i) * uint b"
    by (rule or_push_bit_eq_add) (use "2.prems" in auto)
  have "v + 2 ^ (8 * i) * uint b < 2 ^ (8 * i) * (1 + uint b)"
    using "2.prems" by (simp add: algebra_simps)
  also have "\<dots> \<le> 2 ^ (8 * i) * 256"
    using ub by (intro mult_left_mono) auto
  also have "\<dots> = 2 ^ (8 * Suc i)" by (simp add: power_add)
  finally have lt: "v OR push_bit (8 * i) (uint b) < 2 ^ (8 * Suc i)" by (simp only: eq)
  have "0 \<le> v OR push_bit (8 * i) (uint b)"
    using "2.prems" ub by (simp add: eq)
  from "2.IH" [OF this lt] have "or_bytes i (b # bb) v
      = v + 2 ^ (8 * i) * uint b + 2 ^ (8 * Suc i) * int (le_val bb)"
    by (simp only: or_bytes.simps eq)
  then show ?case
    by (simp add: power_add algebra_simps)
qed simp

lemma or_bytes_0: "or_bytes 0 bb 0 = int (le_val bb)"
  using or_bytes_eq [of 0 0 bb] by simp

lemma le_val_last:
  "bb \<noteq> [] \<Longrightarrow> le_val bb = le_val (butlast bb) + 256 ^ (length bb - 1) * unat (last bb)"
  using le_val_append [of "butlast bb" "[last bb]"] by simp

lemma pow_256: "(256 :: 'a :: comm_semiring_1) ^ k = 2 ^ (8 * k)"
proof -
  have "(256 :: 'a) = 2 ^ 8" by simp
  then show ?thesis by (simp only: power_mult)
qed

lemma le_val_top_bit:
  assumes "bb \<noteq> []"
  shows "bit (int (le_val bb)) (8 * length bb - 1) \<longleftrightarrow> unat (last bb) \<ge> 128"
proof -
  let ?k = "8 * (length bb - 1)"
  have len: "8 * length bb - 1 = ?k + 7"
    using assms by (cases bb) auto
  have lo: "le_val (butlast bb) < 2 ^ ?k"
    using le_val_less [of "butlast bb"] by (simp add: pow_256)
  have "le_val bb div 2 ^ ?k = unat (last bb)"
    using lo by (simp add: le_val_last [OF assms] pow_256)
  then have "le_val bb div 2 ^ (?k + 7) = unat (last bb) div 128"
    by (simp add: power_add div_mult2_eq)
  also have "\<dots> = (if unat (last bb) \<ge> 128 then 1 else 0)"
    using unat_byte_lt [of "last bb"] by (auto intro: div_nat_eqI simp del: unat_byte_lt)
  finally have "bit (le_val bb) (?k + 7) \<longleftrightarrow> unat (last bb) \<ge> 128"
    by (simp add: bit_iff_odd)
  then show ?thesis
    by (simp only: len bit_of_nat_iff_bit)
qed

lemma clear_top_bit:
  assumes "bb \<noteq> []" "unat (last bb) \<ge> 128"
  shows "int (le_val bb) AND NOT (push_bit (8 * (length bb - 1)) 0x80)
       = int (le_val bb) - 2 ^ (8 * length bb - 1)"
proof -
  have "push_bit (8 * (length bb - 1)) (0x80 :: int) = push_bit (8 * length bb - 1) 1"
    using assms(1) by (cases bb) (simp_all add: push_bit_eq_mult power_add)
  then have "int (le_val bb) AND NOT (push_bit (8 * (length bb - 1)) 0x80)
      = unset_bit (8 * length bb - 1) (int (le_val bb))"
    by (simp add: unset_bit_eq_and_not)
  also have "\<dots> = int (le_val bb) - 2 ^ (8 * length bb - 1)"
    using le_val_top_bit [OF assms(1)] assms(2) by (simp add: unset_bit_eq)
  finally show ?thesis .
qed

text \<open>Decoding: too long, not minimal, or the denoted value.\<close>

lemma MakeScriptNumber_eq:
  "MakeScriptNumber bb len req ag =
     (if int (length bb) > len then Inl (Fail ErrNumberTooBig)
      else if req \<and> \<not> minimal bb then Inl (Fail ErrMinimalData)
      else Inr \<lparr>Val = num_of_bytes bb, AfterGenesis = ag\<rparr>)"
proof -
  have *: "rbind (if req then CheckMinimalDataEncoding bb else Inr ()) f
      = (if req \<and> \<not> minimal bb then Inl (Fail ErrMinimalData) else f ())"
    for f :: "unit \<Rightarrow> 'a fault + ScriptNumber"
    using CheckMinimalDataEncoding_iff(1) [of bb] CheckMinimalDataEncoding_iff(2) [of bb]
    by (cases "CheckMinimalDataEncoding bb :: 'a fault + unit") auto
  show ?thesis
    by (auto simp: MakeScriptNumber_def * num_of_bytes_def or_bytes_0 and_0x80_eq_0 clear_top_bit [simplified] Let_def)
qed

subsection \<open>Encoding\<close>

fun le_digits :: "nat \<Rightarrow> bytes" where
  "le_digits n = (if n = 0 then [] else word_of_nat n # le_digits (n div 256))"

declare le_digits.simps [simp del]

lemma le_digits_0 [simp]: "le_digits 0 = []"
  by (simp add: le_digits.simps)

lemma low_byte: "(word_of_int (i64 c AND 0xff) :: byte) = word_of_int c"
proof -
  have "i64 c AND 0xff = take_bit 8 c"
    using take_bit_eq_mask [of 8 "i64 c"] take_bit_signed_take_bit [of 8 63 c]
    by (simp add: mask_eq_exp_minus_1)
  then show ?thesis
    by (simp add: word_of_int_eq_iff)
qed

lemma digits_loop_eq: "digits_loop c r = r @ le_digits (nat c)"
proof (induction c r rule: digits_loop.induct)
  case (1 c r)
  show ?case
  proof (cases "c > 0")
    case True
    then have "nat (drop_bit 8 c) = nat c div 256"
      by (simp add: drop_bit_eq_div nat_div_distrib)
    moreover have "(word_of_int c :: byte) = word_of_nat (nat c)"
      using True by simp
    ultimately show ?thesis
      using 1 True by (simp add: digits_loop.simps [of c r] le_digits.simps [of "nat c"] low_byte)
  qed (simp add: digits_loop.simps [of c r])
qed

lemma le_val_le_digits [simp]: "le_val (le_digits n) = n"
proof (induction n rule: le_digits.induct)
  case (1 n)
  then show ?case by (cases "n = 0") (simp_all add: le_digits.simps [of n])
qed

lemma le_digits_last: "n > 0 \<Longrightarrow> le_digits n \<noteq> [] \<and> unat (last (le_digits n)) \<noteq> 0"
proof (induction n rule: le_digits.induct)
  case (1 n)
  show ?case
  proof (cases "n div 256 = 0")
    case True
    then have "n < 256" by simp
    with 1 True show ?thesis by (simp add: le_digits.simps [of n])
  next
    case False
    with 1 show ?thesis by (simp add: le_digits.simps [of n])
  qed
qed

lemma le_digits_le_val:
  "bb = [] \<or> unat (last bb) \<noteq> 0 \<Longrightarrow> le_digits (le_val bb) = bb"
proof (induction bb)
  case (Cons b bb)
  have div: "(unat b + 256 * le_val bb) div 256 = le_val bb"
    using unat_byte_lt [of b] by (simp del: unat_byte_lt)
  have wd: "(word_of_nat (unat b + 256 * le_val bb) :: byte) = b"
    by (rule word_unat_eq_iff [THEN iffD2])
      (metis mod_less mod_mult_self2 unat_byte_lt unat_word_of_nat_byte)
  have IH: "le_digits (le_val bb) = bb"
    using Cons by (auto split: if_splits)
  have "unat b + 256 * le_val bb \<noteq> 0"
  proof (cases "bb = []")
    case True with Cons.prems show ?thesis by simp
  next
    case False with IH show ?thesis by (metis add_is_0 le_digits_0 mult_is_0 zero_neq_numeral)
  qed
  then show ?case
    by (simp add: le_digits.simps [of "unat b + 256 * le_val bb"] div wd IH del: of_nat_add of_nat_mult)
qed simp

lemma Bytes_eq:
  "Bytes n =
     (if Val n = 0 then []
      else let ds = le_digits (nat \<bar>Val n\<bar>)
        in if unat (last ds) \<ge> 128 then ds @ [if Val n < 0 then 0x80 else 0]
           else if Val n < 0 then butlast ds @ [last ds OR 0x80] else ds)"
proof (cases "Val n = 0")
  case False
  then have ne: "le_digits (nat \<bar>Val n\<bar>) \<noteq> []"
    using le_digits_last [of "nat \<bar>Val n\<bar>"] by auto
  then show ?thesis
    using False list_update_last [OF ne] le_digits_last [of "nat \<bar>Val n\<bar>"]
    by (auto simp: Bytes_def IsZero_def Neg_def digits_loop_eq and_0x80_eq_0 Let_def linorder_not_less
        list_update_last)
qed (simp add: Bytes_def IsZero_def)

lemma le_val_snoc: "le_val (bb @ [b]) = le_val bb + 2 ^ (8 * length bb) * unat b"
  by (simp add: le_val_append pow_256)

lemma num_of_bytes_snoc:
  "num_of_bytes (bb @ [b]) =
     (let m = int (le_val bb) + 2 ^ (8 * length bb) * int (unat b mod 128)
      in if unat b < 128 then m else - m)"
proof (cases "unat b < 128")
  case False
  then have "int (unat b) = 128 + int (unat b mod 128)"
    using byte_mod_128 [of b] by linarith
  moreover have "(2 :: int) ^ (8 * Suc (length bb) - 1) = 2 ^ (8 * length bb) * 128"
    by (simp add: power_add)
  ultimately show ?thesis
    using False by (simp add: num_of_bytes_def le_val_snoc distrib_left del: of_nat_unat)
qed (simp add: num_of_bytes_def le_val_snoc)

lemma abs_num_of_bytes_snoc:
  "\<bar>num_of_bytes (bb @ [b])\<bar> = int (le_val bb) + 2 ^ (8 * length bb) * int (unat b mod 128)"
proof -
  have "0 \<le> int (le_val bb) + 2 ^ (8 * length bb) * int (unat b mod 128)"
    by simp
  then show ?thesis
    by (simp only: num_of_bytes_snoc Let_def split: if_splits) linarith
qed

lemma minimal_snoc:
  "minimal (bb @ [b]) \<longleftrightarrow> unat b \<notin> {0, 128} \<or> bb \<noteq> [] \<and> unat (last bb) \<ge> 128"
  by (cases bb rule: rev_cases) (auto simp: minimal_def nth_append)

text \<open>Every number is encoded minimally, and decoding gives it back.\<close>

lemma num_of_bytes_Bytes: "num_of_bytes (Bytes n) = Val n"
proof (cases "Val n = 0")
  case True
  then show ?thesis by (simp add: Bytes_eq num_of_bytes_def)
next
  case False
  define ds where "ds = le_digits (nat \<bar>Val n\<bar>)"
  have ds: "ds \<noteq> []" "unat (last ds) \<noteq> 0" "int (le_val ds) = \<bar>Val n\<bar>"
    using le_digits_last [of "nat \<bar>Val n\<bar>"] False by (auto simp: ds_def)
  have split: "le_val ds = le_val (butlast ds) + 2 ^ (8 * (length ds - 1)) * unat (last ds)"
    using le_val_last [OF ds(1)] by (simp add: pow_256)
  consider (ext) "unat (last ds) \<ge> 128" | (neg) "unat (last ds) < 128" "Val n < 0"
    | (pos) "unat (last ds) < 128" "Val n \<ge> 0" by linarith
  then show ?thesis
  proof cases
    case ext
    then have "Bytes n = ds @ [if Val n < 0 then 0x80 else 0]"
      using False by (simp add: Bytes_eq ds_def Let_def)
    then show ?thesis using ds(3) by (simp add: num_of_bytes_snoc Let_def)
  next
    case neg
    then have "Bytes n = butlast ds @ [last ds OR 0x80]"
      using False by (simp add: Bytes_eq ds_def Let_def)
    then show ?thesis using ds(3) neg split by (simp add: num_of_bytes_snoc Let_def unat_or_0x80)
  next
    case pos
    then have "Bytes n = ds"
      using False by (simp add: Bytes_eq ds_def Let_def)
    then show ?thesis using ds pos by (simp add: num_of_bytes_def)
  qed
qed

lemma minimal_Bytes: "minimal (Bytes n)"
proof (cases "Val n = 0")
  case True
  then show ?thesis by (simp add: Bytes_eq minimal_def)
next
  case False
  define ds where "ds = le_digits (nat \<bar>Val n\<bar>)"
  have ds: "ds \<noteq> []" "unat (last ds) \<noteq> 0"
    using le_digits_last [of "nat \<bar>Val n\<bar>"] False by (auto simp: ds_def)
  have eq: "Bytes n = (if unat (last ds) \<ge> 128 then ds @ [if Val n < 0 then 0x80 else 0]
      else if Val n < 0 then butlast ds @ [last ds OR 0x80] else ds)"
    using False by (simp add: Bytes_eq ds_def Let_def)
  show ?thesis
    using ds by (auto simp: eq minimal_snoc unat_or_0x80) (auto simp: minimal_def)
qed

lemma Bytes_num_of_bytes:
  assumes "minimal bb" "Val n = num_of_bytes bb"
  shows "Bytes n = bb"
proof (cases bb rule: rev_cases)
  case Nil
  with assms show ?thesis by (simp add: Bytes_eq num_of_bytes_def)
next
  case (snoc xs b)
  let ?m = "unat b mod 128"
  show ?thesis
  proof (cases "?m = 0")
    case True
    then have b: "b = 0 \<or> b = 0x80"
      using and_0x7f_eq_0 [of b] unat_and_0x7f [of b] by (auto simp: word_unat_eq_iff)
    then have xs: "xs \<noteq> []" "unat (last xs) \<ge> 128"
      using assms(1) snoc by (auto simp: minimal_snoc)
    then have dig: "le_digits (le_val xs) = xs"
      by (intro le_digits_le_val) auto
    with xs have pos: "le_val xs \<noteq> 0"
      by (metis le_digits_0)
    have "Val n = (if b = 0 then int (le_val xs) else - int (le_val xs))"
      using assms(2) snoc b by (auto simp: num_of_bytes_snoc Let_def)
    then show ?thesis
      using xs dig pos b snoc by (auto simp: Bytes_eq Let_def)
  next
    case False
    define c :: byte where "c = word_of_nat ?m"
    have c: "unat c = ?m" "unat c < 128" by (simp_all add: c_def)
    have dig: "le_digits (le_val (xs @ [c])) = xs @ [c]"
      using False c by (intro le_digits_le_val) simp
    have pos: "le_val (xs @ [c]) \<noteq> 0"
      using dig by (metis le_digits_0 snoc_eq_iff_butlast)
    have lev: "int (le_val (xs @ [c])) = int (le_val xs) + 2 ^ (8 * length xs) * int ?m"
      by (simp add: le_val_snoc c)
    have v: "Val n = (if unat b < 128 then 1 else -1) * int (le_val (xs @ [c]))"
      using assms(2) snoc by (simp add: num_of_bytes_snoc Let_def lev)
    have cb: "c OR 0x80 = b" if "\<not> unat b < 128"
      using that c unat_or_0x80 [of c] byte_mod_128 [of b] by (simp add: word_unat_eq_iff)
    have cb': "c = b" if "unat b < 128"
      using that by (simp add: c_def)
    show ?thesis
      using v pos dig c cb cb' snoc by (auto simp: Bytes_eq Let_def)
  qed
qed

subsection \<open>Lengths and ranges\<close>

lemma abs_num_of_bytes_less:
  assumes "bb \<noteq> []"
  shows "\<bar>num_of_bytes bb\<bar> < 2 ^ (8 * length bb - 1)"
proof (cases bb rule: rev_cases)
  case (snoc xs b)
  let ?m = "unat b mod 128"
  have "int (le_val xs) < 2 ^ (8 * length xs)"
    using le_val_less [of xs] by (metis of_nat_less_iff of_nat_numeral of_nat_power pow_256)
  then have "int (le_val xs) + 2 ^ (8 * length xs) * int ?m < 2 ^ (8 * length xs) * (1 + int ?m)"
    by (simp add: distrib_left)
  also have "\<dots> \<le> 2 ^ (8 * length xs) * 128"
    using mod_less_divisor [of 128 "unat b"] by (intro mult_left_mono) auto
  also have "\<dots> = 2 ^ (8 * length bb - 1)"
    by (simp add: snoc power_add)
  finally show ?thesis
    by (simp only: snoc abs_num_of_bytes_snoc)
qed (use assms in simp)

lemma minimal_abs_ge:
  assumes "minimal (xs @ [b])" "xs \<noteq> []"
  shows "2 ^ (8 * length xs - 1) \<le> \<bar>num_of_bytes (xs @ [b])\<bar>"
proof (cases "unat b mod 128 = 0")
  case True
  then have "unat b = 0 \<or> unat b = 128"
    using and_0x7f_eq_0 [of b] unat_and_0x7f [of b] by (auto simp: word_unat_eq_iff)
  then have "unat (last xs) \<ge> 128"
    using assms by (auto simp: minimal_snoc)
  then have "2 ^ (8 * (length xs - 1)) * 128 \<le> 2 ^ (8 * (length xs - 1)) * unat (last xs)"
    by (rule mult_le_mono2)
  also have "\<dots> \<le> le_val xs"
    using le_val_last [OF assms(2)] by (simp add: pow_256)
  finally have "2 ^ (8 * (length xs - 1)) * 128 \<le> le_val xs" .
  moreover have "8 * length xs - 1 = 8 * (length xs - 1) + 7"
    using assms(2) by (cases xs) auto
  ultimately have "2 ^ (8 * length xs - 1) \<le> le_val xs"
    by (simp add: power_add)
  then have "2 ^ (8 * length xs - 1) \<le> int (le_val xs)"
    by (metis of_nat_le_iff of_nat_numeral of_nat_power)
  then show ?thesis
    using True by (simp add: abs_num_of_bytes_snoc)
next
  case False
  have "(2 :: int) ^ (8 * length xs - 1) \<le> 2 ^ (8 * length xs) * 1"
    by (simp add: power_increasing)
  also have "\<dots> \<le> 2 ^ (8 * length xs) * int (unat b mod 128)"
    using False by (intro mult_left_mono) auto
  finally show ?thesis
    by (simp add: abs_num_of_bytes_snoc)
qed

lemma length_Bytes_le:
  assumes "k > 0"
  shows "length (Bytes n) \<le> k \<longleftrightarrow> \<bar>Val n\<bar> < 2 ^ (8 * k - 1)"
proof (cases "Bytes n" rule: rev_cases)
  case Nil
  then have "Val n = 0"
    using num_of_bytes_Bytes [of n] by (simp add: num_of_bytes_def)
  with Nil show ?thesis by simp
next
  case (snoc xs b)
  have v: "num_of_bytes (xs @ [b]) = Val n" and mi: "minimal (xs @ [b])"
    using num_of_bytes_Bytes [of n] minimal_Bytes [of n] snoc by simp_all
  show ?thesis
  proof
    assume le: "length (Bytes n) \<le> k"
    have "\<bar>Val n\<bar> < 2 ^ (8 * length (xs @ [b]) - 1)"
      using abs_num_of_bytes_less [of "xs @ [b]"] v by simp
    also have "\<dots> \<le> 2 ^ (8 * k - 1)"
      using le snoc by (intro power_increasing) auto
    finally show "\<bar>Val n\<bar> < 2 ^ (8 * k - 1)" .
  next
    assume lt: "\<bar>Val n\<bar> < 2 ^ (8 * k - 1)"
    show "length (Bytes n) \<le> k"
    proof (rule ccontr)
      assume "\<not> length (Bytes n) \<le> k"
      then have "k \<le> length xs" and "xs \<noteq> []"
        using snoc assms by auto
      then have "(2 :: int) ^ (8 * k - 1) \<le> 2 ^ (8 * length xs - 1)"
        by (intro power_increasing) auto
      also have "\<dots> \<le> \<bar>Val n\<bar>"
        using minimal_abs_ge [OF mi \<open>xs \<noteq> []\<close>] v by simp
      finally show False using lt by simp
    qed
  qed
qed

subsection \<open>Re-encoding\<close>

lemma minimally_loop_correct:
  assumes "lst = 0 \<or> lst = 0x80" "i < length data"
  shows "num_of_bytes (minimally_loop data lst i) = num_of_bytes (take i data @ [lst])
    \<and> minimal (minimally_loop data lst i)"
  using assms(2)
proof (induction i)
  case 0
  then show ?case using assms(1) by (auto simp: num_of_bytes_def minimal_def)
next
  case (Suc i)
  let ?d = "data ! i"
  have tk: "take (Suc i) data = take i data @ [?d]"
    using Suc.prems by (simp add: take_Suc_conv_app_nth)
  consider (zero) "?d = 0" | (high) "?d \<noteq> 0" "unat ?d \<ge> 128" | (low) "?d \<noteq> 0" "unat ?d < 128"
    by linarith
  then show ?case
  proof cases
    case zero
    with Suc assms(1) show ?thesis
      by (auto simp: tk num_of_bytes_snoc Let_def le_val_snoc simp del: append_assoc)
  next
    case high
    then have "minimally_loop data lst (Suc i) = take (Suc i) data @ [lst]"
      using Suc.prems by (simp add: and_0x80_eq_0 take_Suc_conv_app_nth)
    with high show ?thesis by (simp add: minimal_snoc tk del: append_assoc minimally_loop.simps)
  next
    case low
    then have eq: "minimally_loop data lst (Suc i) = take i data @ [?d OR lst]"
      using Suc.prems by (simp add: and_0x80_eq_0 take_Suc_conv_app_nth)
    have "unat ?d \<noteq> 0"
      using low by (simp add: unat_eq_zero)
    with low assms(1) show ?thesis
      by (auto simp: eq minimal_snoc unat_or_0x80 tk num_of_bytes_snoc Let_def le_val_snoc
          simp del: append_assoc minimally_loop.simps)
  qed
qed

lemma MinimallyEncode_correct:
  "num_of_bytes (MinimallyEncode data) = num_of_bytes data \<and> minimal (MinimallyEncode data)"
proof (cases data rule: rev_cases)
  case Nil
  then show ?thesis by (simp add: MinimallyEncode_def minimal_def)
next
  case (snoc xs b)
  show ?thesis
  proof (cases "minimal data")
    case True
    moreover have "MinimallyEncode data = data"
      using True snoc
      by (cases xs rule: rev_cases)
        (auto simp: MinimallyEncode_def minimal_snoc and_0x7f_eq_0 and_0x80_eq_0 nth_append
          minimal_snoc [of "[]", simplified] simp del: append_assoc)
    ultimately show ?thesis by simp
  next
    case False
    then have b: "b = 0 \<or> b = 0x80"
      using snoc by (auto simp: minimal_snoc word_unat_eq_iff)
    have "MinimallyEncode data = minimally_loop data b (length xs)"
    proof (cases xs rule: rev_cases)
      case Nil
      then show ?thesis using snoc b by (auto simp: MinimallyEncode_def)
    next
      case (snoc ys c)
      then show ?thesis
        using False b \<open>data = xs @ [b]\<close>
        by (auto simp: MinimallyEncode_def minimal_snoc and_0x80_eq_0 nth_append simp del: append_assoc)
    qed
    then show ?thesis
      using minimally_loop_correct [OF b, of "length xs" data] snoc by simp
  qed
qed

subsection \<open>Properties\<close>

lemma MakeScriptNumber_Inr_iff:
  "MakeScriptNumber bb len req ag = Inr n \<longleftrightarrow>
     int (length bb) \<le> len \<and> (req \<longrightarrow> minimal bb) \<and> n = \<lparr>Val = num_of_bytes bb, AfterGenesis = ag\<rparr>"
  by (auto simp: MakeScriptNumber_eq)

text \<open>(C28) Script numbers round trip both ways: \<open>MakeScriptNumber\<close> reads back what \<open>Bytes\<close> wrote, with or
  without the minimal-encoding check, whenever the length limit admits it; and whatever the decoder accepts
  under the minimal-encoding check is byte for byte what \<open>Bytes\<close> writes for the decoded number, so a number
  has exactly one accepted encoding.\<close>

theorem script_number_roundtrip:
  "(int (length (Bytes n)) \<le> len
      \<longrightarrow> (MakeScriptNumber (Bytes n) len req ag :: 's fault + ScriptNumber)
          = Inr \<lparr>Val = Val n, AfterGenesis = ag\<rparr>)
   \<and> ((MakeScriptNumber bb len True ag :: 's fault + ScriptNumber) = Inr m \<longrightarrow> Bytes m = bb)"
proof (intro conjI impI)
  assume "int (length (Bytes n)) \<le> len"
  then show "(MakeScriptNumber (Bytes n) len req ag :: 's fault + ScriptNumber)
      = Inr \<lparr>Val = Val n, AfterGenesis = ag\<rparr>"
    by (simp add: MakeScriptNumber_Inr_iff num_of_bytes_Bytes minimal_Bytes)
next
  assume "(MakeScriptNumber bb len True ag :: 's fault + ScriptNumber) = Inr m"
  then have "minimal bb" "Val m = num_of_bytes bb"
    by (simp_all add: MakeScriptNumber_Inr_iff)
  then show "Bytes m = bb" by (rule Bytes_num_of_bytes)
qed

theorem script_number_roundtrip_witness:
  "(MakeScriptNumber [0xff, 0x80] 4 True False :: unit fault + ScriptNumber)
     = Inr \<lparr>Val = -255, AfterGenesis = False\<rparr>
   \<and> Bytes \<lparr>Val = -255, AfterGenesis = False\<rparr> = [0xff, 0x80]"
proof -
  have d: "(MakeScriptNumber [0xff, 0x80] 4 True False :: unit fault + ScriptNumber)
     = Inr \<lparr>Val = -255, AfterGenesis = False\<rparr>"
    by (simp add: MakeScriptNumber_Inr_iff minimal_def num_of_bytes_def)
  from script_number_roundtrip [where 's = unit, of undefined 4 True False "[0xff, 0x80]"
      "\<lparr>Val = -255, AfterGenesis = False\<rparr>"] d
  show ?thesis by simp
qed

text \<open>The four-byte limit that applies before genesis admits exactly the numbers from \<open>-2^31 + 1\<close> to
  \<open>2^31 - 1\<close>; a result outside is still encoded, and refused when it is used as an operand again.\<close>

theorem four_byte_range:
  "(MakeScriptNumber (Bytes n) 4 req ag :: 's fault + ScriptNumber) =
     (if -2147483647 \<le> Val n \<and> Val n \<le> 2147483647
      then Inr \<lparr>Val = Val n, AfterGenesis = ag\<rparr>
      else Inl (Fail ErrNumberTooBig))"
  using length_Bytes_le [of 4 n]
  by (auto simp: MakeScriptNumber_eq num_of_bytes_Bytes minimal_Bytes)

text \<open>\<open>MinimallyEncode\<close>, which OP_BIN2NUM uses, is decoding (with no limit and no minimality check)
  followed by encoding: it keeps the value and returns its unique minimal encoding.\<close>

theorem MinimallyEncode_is_reencode:
  "(MakeScriptNumber data (int (length data)) False ag :: 's fault + ScriptNumber)
      = Inr \<lparr>Val = num_of_bytes data, AfterGenesis = ag\<rparr>
   \<and> MinimallyEncode data = Bytes \<lparr>Val = num_of_bytes data, AfterGenesis = ag\<rparr>
   \<and> (CheckMinimalDataEncoding (MinimallyEncode data) :: 's fault + unit) = Inr ()"
  using MinimallyEncode_correct [of data]
    Bytes_num_of_bytes [of "MinimallyEncode data" "\<lparr>Val = num_of_bytes data, AfterGenesis = ag\<rparr>"]
  by (simp add: MakeScriptNumber_Inr_iff CheckMinimalDataEncoding_iff)

text \<open>\<open>Int32\<close> clamps to 32 bits what fits 64 bits, and only that: it reads the low 64 bits of the value
  first, so a larger number is not clamped but wraps (\<open>2^64\<close> becomes 0), against its documentation.\<close>

theorem Int32_clamps_only_int64:
  "(- (2 ^ 63) \<le> Val n \<and> Val n < 2 ^ 63
      \<longrightarrow> Int32 n = max (-2147483648) (min 2147483647 (Val n)))
   \<and> Int32 \<lparr>Val = 2 ^ 64, AfterGenesis = True\<rparr> = 0"
proof (intro conjI impI)
  assume "- (2 ^ 63) \<le> Val n \<and> Val n < 2 ^ 63"
  then have "i64 (Val n) = Val n" by (intro i64_id) auto
  then show "Int32 n = max (-2147483648) (min 2147483647 (Val n))"
    using i32_id [of "Val n"] by (auto simp: Int32_def Let_def)
qed (simp add: Int32_def)

theorem Int32_clamps_only_int64_witness:
  "Int32 \<lparr>Val = 5000000000, AfterGenesis = True\<rparr> = 2147483647"
  using Int32_clamps_only_int64 [of "\<lparr>Val = 5000000000, AfterGenesis = True\<rparr>"] by simp

end
