(* ===== verification/Script_Stack.thy ===== *)
theory Script_Stack
  imports Script_Number
begin

text \<open>
  \<^verbatim>\<open>script/interpreter/stack.go\<close>: the data and alternate stacks. As in the code the top of the stack is the
  end of the slice \<open>stk\<close>, indices and depths are \<open>int32\<close>, and every operation that can fail returns an error.
  Slices are values here: no operation of the interpreter writes into an element that is on a stack (the
  comment on the type asks for that, and the handlers that edit bytes copy them first). The debugger hooks
  (\<open>beforeStackPush\<close>, \<open>afterStackPush\<close>, \<open>beforeStackPop\<close>, \<open>afterStackPop\<close>) only observe and are left out.

  The locale \<open>lifo\<close> states what the users of a stack rely on; the interpretation \<open>st\<close> discharges it for
  this code. The lemmas then give the effect of each stack transformation on the list of elements.
\<close>

text \<open>The loop stops at the first byte that is not zero; negative zero is also false.\<close>

primrec asBool :: "bytes \<Rightarrow> bool" where
  "asBool [] = False"
| "asBool (b # t) = (if b \<noteq> 0 then \<not> (t = [] \<and> b = 0x80) else asBool t)"

definition fromBool :: "bool \<Rightarrow> bytes" where
  "fromBool v = (if v then [1] else [])"

record stack =
  stk :: "bytes list"
  maxNumLength :: int
  stAfterGenesis :: bool
  verifyMinimalData :: bool

definition Depth :: "stack \<Rightarrow> int" where
  "Depth s = i32 (int (length (stk s)))"

definition PushByteArray :: "stack \<Rightarrow> bytes \<Rightarrow> stack" where
  "PushByteArray s so = s\<lparr>stk := stk s @ [so]\<rparr>"

definition PushInt :: "stack \<Rightarrow> ScriptNumber \<Rightarrow> stack" where
  "PushInt s n = PushByteArray s (Bytes n)"

definition PushBool :: "stack \<Rightarrow> bool \<Rightarrow> stack" where
  "PushBool s val = PushByteArray s (fromBool val)"

text \<open>\<open>nipN\<close> with its three cases; the slices of the code are \<open>take\<close> and \<open>drop\<close>.\<close>

definition nipN :: "stack \<Rightarrow> int \<Rightarrow> 's fault + bytes \<times> stack" where
  "nipN s idx =
     (let sz = i32 (int (length (stk s)))
      in if idx < 0 \<or> idx > i32 (sz - 1) then Inl (Fail ErrInvalidStackOperation)
         else
           let so = stk s ! nat (sz - idx - 1);
               stk' = (if idx = 0 then take (nat (sz - 1)) (stk s)
                       else if idx = sz - 1 then take (nat (sz - 1)) (drop 1 (stk s))
                       else take (nat (sz - idx - 1)) (stk s)
                            @ drop (nat (sz - idx)) (take (nat sz) (stk s)))
           in Inr (so, s\<lparr>stk := stk'\<rparr>))"

definition PopByteArray :: "stack \<Rightarrow> 's fault + bytes \<times> stack" where
  "PopByteArray s = nipN s 0"

definition PopInt :: "stack \<Rightarrow> 's fault + ScriptNumber \<times> stack" where
  "PopInt s = rbind (PopByteArray s) (\<lambda>(so, s').
     rbind (MakeScriptNumber so (maxNumLength s) (verifyMinimalData s) (stAfterGenesis s)) (\<lambda>n.
     Inr (n, s')))"

definition PopBool :: "stack \<Rightarrow> 's fault + bool \<times> stack" where
  "PopBool s = rbind (PopByteArray s) (\<lambda>(so, s'). Inr (asBool so, s'))"

definition PeekByteArray :: "stack \<Rightarrow> int \<Rightarrow> 's fault + bytes" where
  "PeekByteArray s idx =
     (let sz = i32 (int (length (stk s)))
      in if idx < 0 \<or> idx \<ge> sz then Inl (Fail ErrInvalidStackOperation)
         else Inr (stk s ! nat (sz - idx - 1)))"

definition PeekInt :: "stack \<Rightarrow> int \<Rightarrow> 's fault + ScriptNumber" where
  "PeekInt s idx = rbind (PeekByteArray s idx) (\<lambda>so.
     MakeScriptNumber so (maxNumLength s) (verifyMinimalData s) (stAfterGenesis s))"

definition PeekBool :: "stack \<Rightarrow> int \<Rightarrow> 's fault + bool" where
  "PeekBool s idx = rbind (PeekByteArray s idx) (\<lambda>so. Inr (asBool so))"

definition NipN :: "stack \<Rightarrow> int \<Rightarrow> 's fault + stack" where
  "NipN s idx = rbind (nipN s idx) (\<lambda>(_, s'). Inr s')"

definition Tuck :: "stack \<Rightarrow> 's fault + stack" where
  "Tuck s = rbind (PopByteArray s) (\<lambda>(so2, s).
     rbind (PopByteArray s) (\<lambda>(so1, s).
     Inr (PushByteArray (PushByteArray (PushByteArray s so2) so1) so2)))"

text \<open>The counting loops; the counter is the remaining number of turns.\<close>

primrec drop_loop :: "nat \<Rightarrow> stack \<Rightarrow> 's fault + stack" where
  "drop_loop 0 s = Inr s"
| "drop_loop (Suc n) s = rbind (PopByteArray s) (\<lambda>(_, s'). drop_loop n s')"

definition DropN :: "stack \<Rightarrow> int \<Rightarrow> 's fault + stack" where
  "DropN s n = (if n < 1 then Inl (Fail ErrInvalidStackOperation) else drop_loop (nat n) s)"

primrec peek_push_loop :: "nat \<Rightarrow> int \<Rightarrow> stack \<Rightarrow> 's fault + stack" where
  "peek_push_loop 0 idx s = Inr s"
| "peek_push_loop (Suc i) idx s =
     rbind (PeekByteArray s idx) (\<lambda>so. peek_push_loop i idx (PushByteArray s so))"

definition DupN :: "stack \<Rightarrow> int \<Rightarrow> 's fault + stack" where
  "DupN s n = (if n < 1 then Inl (Fail ErrInvalidStackOperation)
     else peek_push_loop (nat n) (n - 1) s)"

primrec nip_push_loop :: "nat \<Rightarrow> int \<Rightarrow> stack \<Rightarrow> 's fault + stack" where
  "nip_push_loop 0 entry s = Inr s"
| "nip_push_loop (Suc i) entry s =
     rbind (nipN s entry) (\<lambda>(so, s'). nip_push_loop i entry (PushByteArray s' so))"

definition RotN :: "stack \<Rightarrow> int \<Rightarrow> 's fault + stack" where
  "RotN s n = (if n < 1 then Inl (Fail ErrInvalidStackOperation)
     else nip_push_loop (nat n) (i32 (3 * n - 1)) s)"

definition SwapN :: "stack \<Rightarrow> int \<Rightarrow> 's fault + stack" where
  "SwapN s n = (if n < 1 then Inl (Fail ErrInvalidStackOperation)
     else nip_push_loop (nat n) (i32 (2 * n - 1)) s)"

definition OverN :: "stack \<Rightarrow> int \<Rightarrow> 's fault + stack" where
  "OverN s n = (if n < 1 then Inl (Fail ErrInvalidStackOperation)
     else peek_push_loop (nat n) (i32 (2 * n - 1)) s)"

definition PickN :: "stack \<Rightarrow> int \<Rightarrow> 's fault + stack" where
  "PickN s n = rbind (PeekByteArray s n) (\<lambda>so. Inr (PushByteArray s so))"

definition RollN :: "stack \<Rightarrow> int \<Rightarrow> 's fault + stack" where
  "RollN s n = rbind (nipN s n) (\<lambda>(so, s'). Inr (PushByteArray s' so))"

text \<open>\<^verbatim>\<open>getStack\<close> and \<^verbatim>\<open>setStack\<close> of \<^verbatim>\<open>thread.go\<close>: the elements bottom up, and their replacement. \<open>getStack\<close>
  ignores the error of \<open>PeekByteArray\<close>, whose value is then nil.\<close>

definition getStack :: "stack \<Rightarrow> bytes list" where
  "getStack s = rev (map (\<lambda>i. case (PeekByteArray s (int i) :: unit fault + bytes) of
     Inl _ \<Rightarrow> [] | Inr b \<Rightarrow> b) [0..<nat (Depth s)])"

definition setStack :: "stack \<Rightarrow> bytes list \<Rightarrow> stack" where
  "setStack s data =
     foldl PushByteArray (case (DropN s (Depth s) :: unit fault + stack) of Inl _ \<Rightarrow> s | Inr s' \<Rightarrow> s') data"

text \<open>The \<open>boolStack\<close> interface: before genesis the else stack is a \<open>nopBoolStack\<close>, after it a \<open>stack\<close>.\<close>

datatype boolStack = NopBoolStack | BoolStack stack

definition bsPushBool :: "boolStack \<Rightarrow> bool \<Rightarrow> boolStack" where
  "bsPushBool bs b = (case bs of NopBoolStack \<Rightarrow> NopBoolStack | BoolStack s \<Rightarrow> BoolStack (PushBool s b))"

definition bsPopBool :: "boolStack \<Rightarrow> 's fault + bool \<times> boolStack" where
  "bsPopBool bs = (case bs of NopBoolStack \<Rightarrow> Inr (False, NopBoolStack)
     | BoolStack s \<Rightarrow> rbind (PopBool s) (\<lambda>(b, s'). Inr (b, BoolStack s')))"

definition bsPeekBool :: "boolStack \<Rightarrow> int \<Rightarrow> 's fault + bool" where
  "bsPeekBool bs idx = (case bs of NopBoolStack \<Rightarrow> Inr False | BoolStack s \<Rightarrow> PeekBool s idx)"

definition bsDepth :: "boolStack \<Rightarrow> int" where
  "bsDepth bs = (case bs of NopBoolStack \<Rightarrow> 0 | BoolStack s \<Rightarrow> Depth s)"

subsection \<open>What the users of a stack rely on\<close>

text \<open>\<open>room s\<close> says that the \<open>int32\<close> depth of \<open>s\<close> is its number of elements.\<close>

locale lifo =
  fixes push :: "'st \<Rightarrow> 'a \<Rightarrow> 'st"
    and pop :: "'st \<Rightarrow> 'e + 'a \<times> 'st"
    and items :: "'st \<Rightarrow> 'a list"
    and room :: "'st \<Rightarrow> bool"
    and underflow :: 'e
  assumes items_push: "items (push s x) = items s @ [x]"
    and pop_empty: "items s = [] \<Longrightarrow> pop s = Inl underflow"
    and pop_snoc: "room s \<Longrightarrow> items s = xs @ [x] \<Longrightarrow> \<exists>s'. pop s = Inr (x, s') \<and> items s' = xs \<and> room s'"
begin

lemma items_pushes: "items (foldl push s xs) = items s @ xs"
  by (induction xs arbitrary: s) (simp_all add: items_push)

lemma pop_push: "room (push s x) \<Longrightarrow> \<exists>s'. pop (push s x) = Inr (x, s') \<and> items s' = items s"
  using pop_snoc items_push by blast

lemma pop_result:
  assumes "room s" "pop s = Inr (x, s')"
  shows "items s = items s' @ [x] \<and> room s'"
proof (cases "items s" rule: rev_cases)
  case Nil
  then show ?thesis using assms pop_empty by simp
next
  case (snoc ys y)
  then show ?thesis using assms pop_snoc [of s ys y] by auto
qed

lemma pop_fails_iff: "room s \<Longrightarrow> pop s = Inl e \<longleftrightarrow> items s = [] \<and> e = underflow"
  using pop_empty [of s] pop_snoc [of s] by (cases "items s" rule: rev_cases) fastforce+

end

lemma Depth_eq [simp]: "length (stk s) < 2 ^ 31 \<Longrightarrow> Depth s = int (length (stk s))"
  by (simp add: Depth_def i32_of_nat)

lemma stk_PushByteArray [simp]:
  "stk (PushByteArray s so) = stk s @ [so]"
  "maxNumLength (PushByteArray s so) = maxNumLength s"
  "stAfterGenesis (PushByteArray s so) = stAfterGenesis s"
  "verifyMinimalData (PushByteArray s so) = verifyMinimalData s"
  by (simp_all add: PushByteArray_def)

lemma PushByteArray_upd: "PushByteArray (s\<lparr>stk := xs\<rparr>) x = s\<lparr>stk := xs @ [x]\<rparr>"
  by (simp add: PushByteArray_def)

lemma nipN_room:
  assumes "length (stk s) < 2 ^ 31"
  shows "nipN s idx =
     (let sz = length (stk s)
      in if idx < 0 \<or> idx \<ge> int sz then Inl (Fail ErrInvalidStackOperation)
         else Inr (stk s ! (sz - Suc (nat idx)),
           s\<lparr>stk := take (sz - Suc (nat idx)) (stk s) @ drop (sz - nat idx) (stk s)\<rparr>))"
proof -
  let ?sz = "int (length (stk s))"
  have sz: "i32 ?sz = ?sz" "i32 (?sz - 1) = ?sz - 1"
    using assms by (simp_all add: i32_of_nat i32_id)
  have n: "nat (?sz - 1) = length (stk s) - 1" "nat (?sz - idx - 1) = length (stk s) - Suc (nat idx)"
    "nat (?sz - idx) = length (stk s) - nat idx" "nat ?sz = length (stk s)" if "0 \<le> idx"
    using that by auto
  have bottom: "take (length (stk s) - 1) (drop 1 (stk s)) = drop 1 (stk s)"
    by simp
  have one: "length (stk s) - (length (stk s) - Suc 0) = Suc 0" if "stk s \<noteq> []"
    using that by (cases "stk s") auto
  show ?thesis
    by (auto simp: nipN_def Let_def sz n bottom one linorder_not_less)
qed

lemma nipN_suffix:
  assumes "length (xs @ y # ys) < 2 ^ 31" "int (length ys) = k"
  shows "nipN (s\<lparr>stk := xs @ y # ys\<rparr>) k = Inr (y, s\<lparr>stk := xs @ ys\<rparr>)"
  using assms by (auto simp: nipN_room Let_def nth_append)

lemma nipN_fails:
  assumes "length (stk s) < 2 ^ 31" "int (length (stk s)) \<le> k \<or> k < 0"
  shows "nipN s k = Inl (Fail ErrInvalidStackOperation)"
  using assms by (auto simp: nipN_room Let_def)

lemma PopByteArray_eq:
  assumes "length (stk s) < 2 ^ 31"
  shows "PopByteArray s = (if stk s = [] then Inl (Fail ErrInvalidStackOperation)
     else Inr (last (stk s), s\<lparr>stk := butlast (stk s)\<rparr>))"
  using assms
  by (auto simp: PopByteArray_def nipN_room Let_def last_conv_nth butlast_conv_take)

interpretation st: lifo PushByteArray PopByteArray stk "\<lambda>s. length (stk s) < 2 ^ 31"
  "Fail ErrInvalidStackOperation"
  by unfold_locales (auto simp: PopByteArray_eq)


subsection \<open>The effect of each operation on the list of elements\<close>

lemma PeekByteArray_suffix:
  assumes "length (xs @ y # ys) < 2 ^ 31" "int (length ys) = k"
  shows "PeekByteArray (s\<lparr>stk := xs @ y # ys\<rparr>) k = Inr y"
  using assms i32_of_nat [of "length (xs @ y # ys)"]
  by (auto simp: PeekByteArray_def Let_def nth_append simp del: of_nat_add)

lemma PeekByteArray_fails:
  assumes "length (stk s) < 2 ^ 31" "int (length (stk s)) \<le> k \<or> k < 0"
  shows "PeekByteArray s k = Inl (Fail ErrInvalidStackOperation)"
  using assms by (auto simp: PeekByteArray_def Let_def i32_of_nat)

lemma PeekByteArray_room:
  assumes "length (stk s) < 2 ^ 31"
  shows "PeekByteArray s k = (if 0 \<le> k \<and> k < int (length (stk s))
     then Inr (stk s ! (length (stk s) - Suc (nat k))) else Inl (Fail ErrInvalidStackOperation))"
proof -
  have "nat (int (length (stk s)) - k - 1) = length (stk s) - Suc (nat k)" if "0 \<le> k"
    using that by auto
  then show ?thesis
    using assms by (auto simp: PeekByteArray_def Let_def i32_of_nat)
qed

lemma nip_push_loop_eq:
  assumes "length (xs @ as @ bs) < 2 ^ 31" "int (length (as @ bs)) = entry + 1"
  shows "nip_push_loop (length as) entry (s\<lparr>stk := xs @ as @ bs\<rparr>)
     = (Inr (s\<lparr>stk := xs @ bs @ as\<rparr>) :: 's fault + stack)"
  using assms
proof (induction as arbitrary: bs)
  case (Cons a as)
  have "nipN (s\<lparr>stk := xs @ a # (as @ bs)\<rparr>) entry = (Inr (a, s\<lparr>stk := xs @ as @ bs\<rparr>) :: 's fault + _)"
    using Cons.prems by (intro nipN_suffix) auto
  moreover have "nip_push_loop (length as) entry (s\<lparr>stk := xs @ as @ (bs @ [a])\<rparr>)
      = (Inr (s\<lparr>stk := xs @ (bs @ [a]) @ as\<rparr>) :: 's fault + stack)"
    using Cons.prems by (intro Cons.IH) auto
  ultimately show ?case
    by (simp add: PushByteArray_upd)
qed simp

lemma nip_push_loop_fails:
  assumes "0 < n" "length (stk s) < 2 ^ 31" "int (length (stk s)) \<le> entry \<or> entry < 0"
  shows "nip_push_loop n entry s = Inl (Fail ErrInvalidStackOperation)"
  using assms by (cases n) (auto simp: nipN_fails)

lemma peek_push_loop_eq:
  assumes "length (xs @ as @ bs @ as) < 2 ^ 31" "int (length (as @ bs)) = idx + 1"
  shows "peek_push_loop (length as) idx (s\<lparr>stk := xs @ as @ bs\<rparr>)
     = (Inr (s\<lparr>stk := xs @ as @ bs @ as\<rparr>) :: 's fault + stack)"
  using assms
proof (induction as arbitrary: xs bs)
  case (Cons a as)
  have "PeekByteArray (s\<lparr>stk := xs @ a # (as @ bs)\<rparr>) idx = (Inr a :: 's fault + _)"
    using Cons.prems by (intro PeekByteArray_suffix) auto
  moreover have "peek_push_loop (length as) idx (s\<lparr>stk := (xs @ [a]) @ as @ (bs @ [a])\<rparr>)
      = (Inr (s\<lparr>stk := (xs @ [a]) @ as @ (bs @ [a]) @ as\<rparr>) :: 's fault + stack)"
    using Cons.prems by (intro Cons.IH) auto
  ultimately show ?case
    by (simp add: PushByteArray_upd)
qed simp

lemma peek_push_loop_fails:
  assumes "0 < n" "length (stk s) < 2 ^ 31" "int (length (stk s)) \<le> idx \<or> idx < 0"
  shows "peek_push_loop n idx s = Inl (Fail ErrInvalidStackOperation)"
  using assms by (cases n) (auto simp: PeekByteArray_fails)

lemma drop_loop_eq:
  assumes "length xs + length ys < 2 ^ 31"
  shows "drop_loop (length ys) (s\<lparr>stk := xs @ ys\<rparr>) = Inr (s\<lparr>stk := xs\<rparr>)"
  using assms
proof (induction ys rule: rev_induct)
  case (snoc y ys)
  then show ?case by (simp add: PopByteArray_eq butlast_append)
qed simp

lemma drop_loop_all:
  assumes "length (stk s) < 2 ^ 31"
  shows "drop_loop (length (stk s)) s = Inr (s\<lparr>stk := []\<rparr>)"
  using drop_loop_eq [of "[]" "stk s" s] assms by simp

lemma drop_loop_fails:
  assumes "length (stk s) < n" "length (stk s) < 2 ^ 31"
  shows "drop_loop n s = Inl (Fail ErrInvalidStackOperation)"
  using assms
proof (induction n arbitrary: s)
  case (Suc n)
  have "length (butlast (stk s)) < n" if "stk s \<noteq> []"
    using Suc.prems that by (cases "stk s") auto
  then show ?case
    using Suc by (cases "stk s = []") (auto simp: PopByteArray_eq)
qed simp

lemma getStack_eq [simp]:
  assumes "length (stk s) < 2 ^ 31"
  shows "getStack s = stk s"
proof (rule nth_equalityI)
  show "length (getStack s) = length (stk s)"
    using assms by (simp add: getStack_def)
  show "getStack s ! i = stk s ! i" if "i < length (getStack s)" for i
    using that assms
    by (auto simp: getStack_def rev_nth PeekByteArray_room nat_diff_distrib nat_add_distrib)
qed

lemma foldl_PushByteArray: "foldl PushByteArray s data = s\<lparr>stk := stk s @ data\<rparr>"
  by (induction data arbitrary: s) (simp_all add: PushByteArray_def)

lemma setStack_eq [simp]:
  assumes "length (stk s) < 2 ^ 31"
  shows "setStack s data = s\<lparr>stk := data\<rparr>"
  using assms drop_loop_all [of s, where ?'a = unit]
  by (cases "stk s = []") (auto simp: setStack_def DropN_def foldl_PushByteArray Suc_le_eq)

text \<open>(C29) The stack transformations documented on \<open>DupN\<close>, \<open>SwapN\<close>, \<open>OverN\<close> and \<open>RotN\<close>, for every
  \<open>n \<ge> 1\<close> and every content of the stack below the elements concerned: the loops that move or copy one
  element at a time duplicate, exchange, copy over and rotate whole blocks of \<open>n\<close> elements, in order.\<close>

theorem stack_blocks:
  assumes "0 < n" "length as = n" "length bs = n" "length cs = n" "length xs + 4 * n < 2 ^ 31"
  shows "DupN (s\<lparr>stk := xs @ as\<rparr>) (int n) = (Inr (s\<lparr>stk := xs @ as @ as\<rparr>) :: 's fault + stack)
    \<and> SwapN (s\<lparr>stk := xs @ as @ bs\<rparr>) (int n) = (Inr (s\<lparr>stk := xs @ bs @ as\<rparr>) :: 's fault + stack)
    \<and> OverN (s\<lparr>stk := xs @ as @ bs\<rparr>) (int n) = (Inr (s\<lparr>stk := xs @ as @ bs @ as\<rparr>) :: 's fault + stack)
    \<and> RotN (s\<lparr>stk := xs @ as @ bs @ cs\<rparr>) (int n) = (Inr (s\<lparr>stk := xs @ bs @ cs @ as\<rparr>) :: 's fault + stack)"
proof (intro conjI)
  have i: "i32 (2 * int n - 1) = 2 * int n - 1" "i32 (3 * int n - 1) = 3 * int n - 1"
    using assms by (auto intro!: i32_id)
  show "DupN (s\<lparr>stk := xs @ as\<rparr>) (int n) = Inr (s\<lparr>stk := xs @ as @ as\<rparr>)"
    using peek_push_loop_eq [of xs as "[]" "int n - 1"] assms by (simp add: DupN_def)
  show "SwapN (s\<lparr>stk := xs @ as @ bs\<rparr>) (int n) = Inr (s\<lparr>stk := xs @ bs @ as\<rparr>)"
    using nip_push_loop_eq [of xs as bs "2 * int n - 1"] assms by (simp add: SwapN_def i)
  show "OverN (s\<lparr>stk := xs @ as @ bs\<rparr>) (int n) = Inr (s\<lparr>stk := xs @ as @ bs @ as\<rparr>)"
    using peek_push_loop_eq [of xs as bs "2 * int n - 1"] assms by (simp add: OverN_def i)
  show "RotN (s\<lparr>stk := xs @ as @ bs @ cs\<rparr>) (int n) = Inr (s\<lparr>stk := xs @ bs @ cs @ as\<rparr>)"
    using nip_push_loop_eq [of xs as "bs @ cs" "3 * int n - 1"] assms by (simp add: RotN_def i)
qed

theorem stack_blocks_witness:
  "RotN (\<lparr>stk = [[9], [1], [2], [3], [4], [5], [6]], maxNumLength = 4, stAfterGenesis = False,
      verifyMinimalData = False\<rparr>) 2
   = (Inr \<lparr>stk = [[9], [3], [4], [5], [6], [1], [2]], maxNumLength = 4, stAfterGenesis = False,
      verifyMinimalData = False\<rparr> :: unit fault + stack)"
  using stack_blocks [of 2 "[[1], [2]]" "[[3], [4]]" "[[5], [6]]" "[[9]]"
      "\<lparr>stk = [], maxNumLength = 4, stAfterGenesis = False, verifyMinimalData = False\<rparr>", where ?'s = unit]
  by simp

text \<open>Stack underflow: an operation that needs more elements than the stack holds returns
  \<open>ErrInvalidStackOperation\<close>, for \<open>DropN\<close>, \<open>DupN\<close>, \<open>SwapN\<close>, \<open>OverN\<close>, \<open>RotN\<close>, \<open>PickN\<close>, \<open>RollN\<close> and
  \<open>Tuck\<close>, whatever the count (a negative index included), as long as \<open>3 * n\<close> is an \<open>int32\<close>.\<close>

theorem stack_underflow:
  assumes "length (stk s) < 2 ^ 31" "3 * n < 2 ^ 31"
  shows "(int (length (stk s)) < n \<or> n < 1 \<longrightarrow>
        DropN s n = (Inl (Fail ErrInvalidStackOperation) :: 's fault + stack)
        \<and> DupN s n = (Inl (Fail ErrInvalidStackOperation) :: 's fault + stack))
    \<and> (int (length (stk s)) < 2 * n \<or> n < 1 \<longrightarrow>
        SwapN s n = (Inl (Fail ErrInvalidStackOperation) :: 's fault + stack)
        \<and> OverN s n = (Inl (Fail ErrInvalidStackOperation) :: 's fault + stack))
    \<and> (int (length (stk s)) < 3 * n \<or> n < 1 \<longrightarrow> RotN s n = (Inl (Fail ErrInvalidStackOperation) :: 's fault + stack))
    \<and> (int (length (stk s)) \<le> n \<or> n < 0 \<longrightarrow>
        PickN s n = (Inl (Fail ErrInvalidStackOperation) :: 's fault + stack)
        \<and> RollN s n = (Inl (Fail ErrInvalidStackOperation) :: 's fault + stack))
    \<and> (length (stk s) < 2 \<longrightarrow> Tuck s = (Inl (Fail ErrInvalidStackOperation) :: 's fault + stack))"
proof (intro conjI impI)
  have i: "i32 (2 * n - 1) = 2 * n - 1" "i32 (3 * n - 1) = 3 * n - 1" if "\<not> n < 1"
    using that assms by (auto intro!: i32_id)
  show "DropN s n = Inl (Fail ErrInvalidStackOperation)" if "int (length (stk s)) < n \<or> n < 1"
    using that assms by (auto simp: DropN_def zless_nat_eq_int_zless intro!: drop_loop_fails)
  show "DupN s n = Inl (Fail ErrInvalidStackOperation)" if "int (length (stk s)) < n \<or> n < 1"
    using that assms by (auto simp: DupN_def peek_push_loop_fails)
  show "SwapN s n = Inl (Fail ErrInvalidStackOperation)" if "int (length (stk s)) < 2 * n \<or> n < 1"
    using that assms i by (auto simp: SwapN_def nip_push_loop_fails)
  show "OverN s n = Inl (Fail ErrInvalidStackOperation)" if "int (length (stk s)) < 2 * n \<or> n < 1"
    using that assms i by (auto simp: OverN_def peek_push_loop_fails)
  show "RotN s n = Inl (Fail ErrInvalidStackOperation)" if "int (length (stk s)) < 3 * n \<or> n < 1"
    using that assms i by (auto simp: RotN_def nip_push_loop_fails)
  show "PickN s n = Inl (Fail ErrInvalidStackOperation)" if "int (length (stk s)) \<le> n \<or> n < 0"
    using that assms by (auto simp: PickN_def PeekByteArray_fails)
  show "RollN s n = Inl (Fail ErrInvalidStackOperation)" if "int (length (stk s)) \<le> n \<or> n < 0"
    using that assms by (auto simp: RollN_def nipN_fails)
  show "Tuck s = Inl (Fail ErrInvalidStackOperation)" if "length (stk s) < 2"
    using that assms
    by (cases "stk s" rule: rev_cases) (auto simp: Tuck_def PopByteArray_eq)
qed

theorem stack_underflow_witness:
  "SwapN (\<lparr>stk = [[1]], maxNumLength = 4, stAfterGenesis = False, verifyMinimalData = False\<rparr>) 1
   = (Inl (Fail ErrInvalidStackOperation) :: unit fault + stack)"
  using stack_underflow [of "\<lparr>stk = [[1]], maxNumLength = 4, stAfterGenesis = False,
    verifyMinimalData = False\<rparr>" 1, where ?'s = unit]
  by simp

end
