(* ===== verification/Opcodes.thy ===== *)
theory Opcodes
  imports Script_Stack
begin

text \<open>
  \<^verbatim>\<open>script/opcodes.go\<close>: the opcode constants, and the first three columns of the table \<open>opcodeArray\<close> of
  \<^verbatim>\<open>script/interpreter/operations.go\<close>: value, name and length of each of the 256 opcodes. The code writes the
  table as a keyed array literal; here it is the list of its rows in the order of the keys. The fourth column,
  the handler, is the table \<open>opcodeExec\<close> of theory \<open>Engine\<close>, since the handlers act on threads, which hold
  parsed opcodes.

  A negative length \<open>- k\<close> says that the opcode is followed by \<open>k\<close> length bytes.
\<close>

abbreviation (input) Op0 :: byte where "Op0 \<equiv> 0x00"
abbreviation (input) OpZERO :: byte where "OpZERO \<equiv> 0x00"
abbreviation (input) OpFALSE :: byte where "OpFALSE \<equiv> 0x00"
abbreviation (input) OpDATA1 :: byte where "OpDATA1 \<equiv> 0x01"
abbreviation (input) OpDATA2 :: byte where "OpDATA2 \<equiv> 0x02"
abbreviation (input) OpDATA3 :: byte where "OpDATA3 \<equiv> 0x03"
abbreviation (input) OpDATA4 :: byte where "OpDATA4 \<equiv> 0x04"
abbreviation (input) OpDATA5 :: byte where "OpDATA5 \<equiv> 0x05"
abbreviation (input) OpDATA6 :: byte where "OpDATA6 \<equiv> 0x06"
abbreviation (input) OpDATA7 :: byte where "OpDATA7 \<equiv> 0x07"
abbreviation (input) OpDATA8 :: byte where "OpDATA8 \<equiv> 0x08"
abbreviation (input) OpDATA9 :: byte where "OpDATA9 \<equiv> 0x09"
abbreviation (input) OpDATA10 :: byte where "OpDATA10 \<equiv> 0x0A"
abbreviation (input) OpDATA11 :: byte where "OpDATA11 \<equiv> 0x0B"
abbreviation (input) OpDATA12 :: byte where "OpDATA12 \<equiv> 0x0C"
abbreviation (input) OpDATA13 :: byte where "OpDATA13 \<equiv> 0x0D"
abbreviation (input) OpDATA14 :: byte where "OpDATA14 \<equiv> 0x0E"
abbreviation (input) OpDATA15 :: byte where "OpDATA15 \<equiv> 0x0F"
abbreviation (input) OpDATA16 :: byte where "OpDATA16 \<equiv> 0x10"
abbreviation (input) OpDATA17 :: byte where "OpDATA17 \<equiv> 0x11"
abbreviation (input) OpDATA18 :: byte where "OpDATA18 \<equiv> 0x12"
abbreviation (input) OpDATA19 :: byte where "OpDATA19 \<equiv> 0x13"
abbreviation (input) OpDATA20 :: byte where "OpDATA20 \<equiv> 0x14"
abbreviation (input) OpDATA21 :: byte where "OpDATA21 \<equiv> 0x15"
abbreviation (input) OpDATA22 :: byte where "OpDATA22 \<equiv> 0x16"
abbreviation (input) OpDATA23 :: byte where "OpDATA23 \<equiv> 0x17"
abbreviation (input) OpDATA24 :: byte where "OpDATA24 \<equiv> 0x18"
abbreviation (input) OpDATA25 :: byte where "OpDATA25 \<equiv> 0x19"
abbreviation (input) OpDATA26 :: byte where "OpDATA26 \<equiv> 0x1A"
abbreviation (input) OpDATA27 :: byte where "OpDATA27 \<equiv> 0x1B"
abbreviation (input) OpDATA28 :: byte where "OpDATA28 \<equiv> 0x1C"
abbreviation (input) OpDATA29 :: byte where "OpDATA29 \<equiv> 0x1D"
abbreviation (input) OpDATA30 :: byte where "OpDATA30 \<equiv> 0x1E"
abbreviation (input) OpDATA31 :: byte where "OpDATA31 \<equiv> 0x1F"
abbreviation (input) OpDATA32 :: byte where "OpDATA32 \<equiv> 0x20"
abbreviation (input) OpDATA33 :: byte where "OpDATA33 \<equiv> 0x21"
abbreviation (input) OpDATA34 :: byte where "OpDATA34 \<equiv> 0x22"
abbreviation (input) OpDATA35 :: byte where "OpDATA35 \<equiv> 0x23"
abbreviation (input) OpDATA36 :: byte where "OpDATA36 \<equiv> 0x24"
abbreviation (input) OpDATA37 :: byte where "OpDATA37 \<equiv> 0x25"
abbreviation (input) OpDATA38 :: byte where "OpDATA38 \<equiv> 0x26"
abbreviation (input) OpDATA39 :: byte where "OpDATA39 \<equiv> 0x27"
abbreviation (input) OpDATA40 :: byte where "OpDATA40 \<equiv> 0x28"
abbreviation (input) OpDATA41 :: byte where "OpDATA41 \<equiv> 0x29"
abbreviation (input) OpDATA42 :: byte where "OpDATA42 \<equiv> 0x2A"
abbreviation (input) OpDATA43 :: byte where "OpDATA43 \<equiv> 0x2B"
abbreviation (input) OpDATA44 :: byte where "OpDATA44 \<equiv> 0x2C"
abbreviation (input) OpDATA45 :: byte where "OpDATA45 \<equiv> 0x2D"
abbreviation (input) OpDATA46 :: byte where "OpDATA46 \<equiv> 0x2E"
abbreviation (input) OpDATA47 :: byte where "OpDATA47 \<equiv> 0x2F"
abbreviation (input) OpDATA48 :: byte where "OpDATA48 \<equiv> 0x30"
abbreviation (input) OpDATA49 :: byte where "OpDATA49 \<equiv> 0x31"
abbreviation (input) OpDATA50 :: byte where "OpDATA50 \<equiv> 0x32"
abbreviation (input) OpDATA51 :: byte where "OpDATA51 \<equiv> 0x33"
abbreviation (input) OpDATA52 :: byte where "OpDATA52 \<equiv> 0x34"
abbreviation (input) OpDATA53 :: byte where "OpDATA53 \<equiv> 0x35"
abbreviation (input) OpDATA54 :: byte where "OpDATA54 \<equiv> 0x36"
abbreviation (input) OpDATA55 :: byte where "OpDATA55 \<equiv> 0x37"
abbreviation (input) OpDATA56 :: byte where "OpDATA56 \<equiv> 0x38"
abbreviation (input) OpDATA57 :: byte where "OpDATA57 \<equiv> 0x39"
abbreviation (input) OpDATA58 :: byte where "OpDATA58 \<equiv> 0x3A"
abbreviation (input) OpDATA59 :: byte where "OpDATA59 \<equiv> 0x3B"
abbreviation (input) OpDATA60 :: byte where "OpDATA60 \<equiv> 0x3C"
abbreviation (input) OpDATA61 :: byte where "OpDATA61 \<equiv> 0x3D"
abbreviation (input) OpDATA62 :: byte where "OpDATA62 \<equiv> 0x3E"
abbreviation (input) OpDATA63 :: byte where "OpDATA63 \<equiv> 0x3F"
abbreviation (input) OpDATA64 :: byte where "OpDATA64 \<equiv> 0x40"
abbreviation (input) OpDATA65 :: byte where "OpDATA65 \<equiv> 0x41"
abbreviation (input) OpDATA66 :: byte where "OpDATA66 \<equiv> 0x42"
abbreviation (input) OpDATA67 :: byte where "OpDATA67 \<equiv> 0x43"
abbreviation (input) OpDATA68 :: byte where "OpDATA68 \<equiv> 0x44"
abbreviation (input) OpDATA69 :: byte where "OpDATA69 \<equiv> 0x45"
abbreviation (input) OpDATA70 :: byte where "OpDATA70 \<equiv> 0x46"
abbreviation (input) OpDATA71 :: byte where "OpDATA71 \<equiv> 0x47"
abbreviation (input) OpDATA72 :: byte where "OpDATA72 \<equiv> 0x48"
abbreviation (input) OpDATA73 :: byte where "OpDATA73 \<equiv> 0x49"
abbreviation (input) OpDATA74 :: byte where "OpDATA74 \<equiv> 0x4A"
abbreviation (input) OpDATA75 :: byte where "OpDATA75 \<equiv> 0x4B"
abbreviation (input) OpPUSHDATA1 :: byte where "OpPUSHDATA1 \<equiv> 0x4C"
abbreviation (input) OpPUSHDATA2 :: byte where "OpPUSHDATA2 \<equiv> 0x4D"
abbreviation (input) OpPUSHDATA4 :: byte where "OpPUSHDATA4 \<equiv> 0x4E"
abbreviation (input) Op1NEGATE :: byte where "Op1NEGATE \<equiv> 0x4F"
abbreviation (input) OpRESERVED :: byte where "OpRESERVED \<equiv> 0x50"
abbreviation (input) OpBASE :: byte where "OpBASE \<equiv> 0x50"
abbreviation (input) Op1 :: byte where "Op1 \<equiv> 0x51"
abbreviation (input) OpONE :: byte where "OpONE \<equiv> 0x51"
abbreviation (input) OpTRUE :: byte where "OpTRUE \<equiv> 0x51"
abbreviation (input) Op2 :: byte where "Op2 \<equiv> 0x52"
abbreviation (input) Op3 :: byte where "Op3 \<equiv> 0x53"
abbreviation (input) Op4 :: byte where "Op4 \<equiv> 0x54"
abbreviation (input) Op5 :: byte where "Op5 \<equiv> 0x55"
abbreviation (input) Op6 :: byte where "Op6 \<equiv> 0x56"
abbreviation (input) Op7 :: byte where "Op7 \<equiv> 0x57"
abbreviation (input) Op8 :: byte where "Op8 \<equiv> 0x58"
abbreviation (input) Op9 :: byte where "Op9 \<equiv> 0x59"
abbreviation (input) Op10 :: byte where "Op10 \<equiv> 0x5A"
abbreviation (input) Op11 :: byte where "Op11 \<equiv> 0x5B"
abbreviation (input) Op12 :: byte where "Op12 \<equiv> 0x5C"
abbreviation (input) Op13 :: byte where "Op13 \<equiv> 0x5D"
abbreviation (input) Op14 :: byte where "Op14 \<equiv> 0x5E"
abbreviation (input) Op15 :: byte where "Op15 \<equiv> 0x5F"
abbreviation (input) Op16 :: byte where "Op16 \<equiv> 0x60"
abbreviation (input) OpNOP :: byte where "OpNOP \<equiv> 0x61"
abbreviation (input) OpVER :: byte where "OpVER \<equiv> 0x62"
abbreviation (input) OpIF :: byte where "OpIF \<equiv> 0x63"
abbreviation (input) OpNOTIF :: byte where "OpNOTIF \<equiv> 0x64"
abbreviation (input) OpVERIF :: byte where "OpVERIF \<equiv> 0x65"
abbreviation (input) OpVERNOTIF :: byte where "OpVERNOTIF \<equiv> 0x66"
abbreviation (input) OpELSE :: byte where "OpELSE \<equiv> 0x67"
abbreviation (input) OpENDIF :: byte where "OpENDIF \<equiv> 0x68"
abbreviation (input) OpVERIFY :: byte where "OpVERIFY \<equiv> 0x69"
abbreviation (input) OpRETURN :: byte where "OpRETURN \<equiv> 0x6A"
abbreviation (input) OpTOALTSTACK :: byte where "OpTOALTSTACK \<equiv> 0x6B"
abbreviation (input) OpFROMALTSTACK :: byte where "OpFROMALTSTACK \<equiv> 0x6C"
abbreviation (input) Op2DROP :: byte where "Op2DROP \<equiv> 0x6D"
abbreviation (input) Op2DUP :: byte where "Op2DUP \<equiv> 0x6E"
abbreviation (input) Op3DUP :: byte where "Op3DUP \<equiv> 0x6F"
abbreviation (input) Op2OVER :: byte where "Op2OVER \<equiv> 0x70"
abbreviation (input) Op2ROT :: byte where "Op2ROT \<equiv> 0x71"
abbreviation (input) Op2SWAP :: byte where "Op2SWAP \<equiv> 0x72"
abbreviation (input) OpIFDUP :: byte where "OpIFDUP \<equiv> 0x73"
abbreviation (input) OpDEPTH :: byte where "OpDEPTH \<equiv> 0x74"
abbreviation (input) OpDROP :: byte where "OpDROP \<equiv> 0x75"
abbreviation (input) OpDUP :: byte where "OpDUP \<equiv> 0x76"
abbreviation (input) OpNIP :: byte where "OpNIP \<equiv> 0x77"
abbreviation (input) OpOVER :: byte where "OpOVER \<equiv> 0x78"
abbreviation (input) OpPICK :: byte where "OpPICK \<equiv> 0x79"
abbreviation (input) OpROLL :: byte where "OpROLL \<equiv> 0x7A"
abbreviation (input) OpROT :: byte where "OpROT \<equiv> 0x7B"
abbreviation (input) OpSWAP :: byte where "OpSWAP \<equiv> 0x7C"
abbreviation (input) OpTUCK :: byte where "OpTUCK \<equiv> 0x7D"
abbreviation (input) OpCAT :: byte where "OpCAT \<equiv> 0x7E"
abbreviation (input) OpSPLIT :: byte where "OpSPLIT \<equiv> 0x7F"
abbreviation (input) OpNUM2BIN :: byte where "OpNUM2BIN \<equiv> 0x80"
abbreviation (input) OpBIN2NUM :: byte where "OpBIN2NUM \<equiv> 0x81"
abbreviation (input) OpSIZE :: byte where "OpSIZE \<equiv> 0x82"
abbreviation (input) OpINVERT :: byte where "OpINVERT \<equiv> 0x83"
abbreviation (input) OpAND :: byte where "OpAND \<equiv> 0x84"
abbreviation (input) OpOR :: byte where "OpOR \<equiv> 0x85"
abbreviation (input) OpXOR :: byte where "OpXOR \<equiv> 0x86"
abbreviation (input) OpEQUAL :: byte where "OpEQUAL \<equiv> 0x87"
abbreviation (input) OpEQUALVERIFY :: byte where "OpEQUALVERIFY \<equiv> 0x88"
abbreviation (input) OpRESERVED1 :: byte where "OpRESERVED1 \<equiv> 0x89"
abbreviation (input) OpRESERVED2 :: byte where "OpRESERVED2 \<equiv> 0x8A"
abbreviation (input) Op1ADD :: byte where "Op1ADD \<equiv> 0x8B"
abbreviation (input) Op1SUB :: byte where "Op1SUB \<equiv> 0x8C"
abbreviation (input) Op2MUL :: byte where "Op2MUL \<equiv> 0x8D"
abbreviation (input) Op2DIV :: byte where "Op2DIV \<equiv> 0x8E"
abbreviation (input) OpNEGATE :: byte where "OpNEGATE \<equiv> 0x8F"
abbreviation (input) OpABS :: byte where "OpABS \<equiv> 0x90"
abbreviation (input) OpNOT :: byte where "OpNOT \<equiv> 0x91"
abbreviation (input) Op0NOTEQUAL :: byte where "Op0NOTEQUAL \<equiv> 0x92"
abbreviation (input) OpADD :: byte where "OpADD \<equiv> 0x93"
abbreviation (input) OpSUB :: byte where "OpSUB \<equiv> 0x94"
abbreviation (input) OpMUL :: byte where "OpMUL \<equiv> 0x95"
abbreviation (input) OpDIV :: byte where "OpDIV \<equiv> 0x96"
abbreviation (input) OpMOD :: byte where "OpMOD \<equiv> 0x97"
abbreviation (input) OpLSHIFT :: byte where "OpLSHIFT \<equiv> 0x98"
abbreviation (input) OpRSHIFT :: byte where "OpRSHIFT \<equiv> 0x99"
abbreviation (input) OpBOOLAND :: byte where "OpBOOLAND \<equiv> 0x9A"
abbreviation (input) OpBOOLOR :: byte where "OpBOOLOR \<equiv> 0x9B"
abbreviation (input) OpNUMEQUAL :: byte where "OpNUMEQUAL \<equiv> 0x9C"
abbreviation (input) OpNUMEQUALVERIFY :: byte where "OpNUMEQUALVERIFY \<equiv> 0x9D"
abbreviation (input) OpNUMNOTEQUAL :: byte where "OpNUMNOTEQUAL \<equiv> 0x9E"
abbreviation (input) OpLESSTHAN :: byte where "OpLESSTHAN \<equiv> 0x9F"
abbreviation (input) OpGREATERTHAN :: byte where "OpGREATERTHAN \<equiv> 0xA0"
abbreviation (input) OpLESSTHANOREQUAL :: byte where "OpLESSTHANOREQUAL \<equiv> 0xA1"
abbreviation (input) OpGREATERTHANOREQUAL :: byte where "OpGREATERTHANOREQUAL \<equiv> 0xA2"
abbreviation (input) OpMIN :: byte where "OpMIN \<equiv> 0xA3"
abbreviation (input) OpMAX :: byte where "OpMAX \<equiv> 0xA4"
abbreviation (input) OpWITHIN :: byte where "OpWITHIN \<equiv> 0xA5"
abbreviation (input) OpRIPEMD160 :: byte where "OpRIPEMD160 \<equiv> 0xA6"
abbreviation (input) OpSHA1 :: byte where "OpSHA1 \<equiv> 0xA7"
abbreviation (input) OpSHA256 :: byte where "OpSHA256 \<equiv> 0xA8"
abbreviation (input) OpHASH160 :: byte where "OpHASH160 \<equiv> 0xA9"
abbreviation (input) OpHASH256 :: byte where "OpHASH256 \<equiv> 0xAA"
abbreviation (input) OpCODESEPARATOR :: byte where "OpCODESEPARATOR \<equiv> 0xAB"
abbreviation (input) OpCHECKSIG :: byte where "OpCHECKSIG \<equiv> 0xAC"
abbreviation (input) OpCHECKSIGVERIFY :: byte where "OpCHECKSIGVERIFY \<equiv> 0xAD"
abbreviation (input) OpCHECKMULTISIG :: byte where "OpCHECKMULTISIG \<equiv> 0xAE"
abbreviation (input) OpCHECKMULTISIGVERIFY :: byte where "OpCHECKMULTISIGVERIFY \<equiv> 0xAF"
abbreviation (input) OpNOP1 :: byte where "OpNOP1 \<equiv> 0xB0"
abbreviation (input) OpNOP2 :: byte where "OpNOP2 \<equiv> 0xB1"
abbreviation (input) OpCHECKLOCKTIMEVERIFY :: byte where "OpCHECKLOCKTIMEVERIFY \<equiv> 0xB1"
abbreviation (input) OpNOP3 :: byte where "OpNOP3 \<equiv> 0xB2"
abbreviation (input) OpCHECKSEQUENCEVERIFY :: byte where "OpCHECKSEQUENCEVERIFY \<equiv> 0xB2"
abbreviation (input) OpNOP4 :: byte where "OpNOP4 \<equiv> 0xB3"
abbreviation (input) OpSUBSTR :: byte where "OpSUBSTR \<equiv> 0xB3"
abbreviation (input) OpNOP5 :: byte where "OpNOP5 \<equiv> 0xB4"
abbreviation (input) OpLEFT :: byte where "OpLEFT \<equiv> 0xB4"
abbreviation (input) OpNOP6 :: byte where "OpNOP6 \<equiv> 0xB5"
abbreviation (input) OpRIGHT :: byte where "OpRIGHT \<equiv> 0xB5"
abbreviation (input) OpNOP7 :: byte where "OpNOP7 \<equiv> 0xB6"
abbreviation (input) OpLSHIFTNUM :: byte where "OpLSHIFTNUM \<equiv> 0xB6"
abbreviation (input) OpNOP8 :: byte where "OpNOP8 \<equiv> 0xB7"
abbreviation (input) OpRSHIFTNUM :: byte where "OpRSHIFTNUM \<equiv> 0xB7"
abbreviation (input) OpNOP9 :: byte where "OpNOP9 \<equiv> 0xB8"
abbreviation (input) OpNOP10 :: byte where "OpNOP10 \<equiv> 0xB9"
abbreviation (input) OpUNKNOWN186 :: byte where "OpUNKNOWN186 \<equiv> 0xBA"
abbreviation (input) OpUNKNOWN187 :: byte where "OpUNKNOWN187 \<equiv> 0xBB"
abbreviation (input) OpUNKNOWN188 :: byte where "OpUNKNOWN188 \<equiv> 0xBC"
abbreviation (input) OpUNKNOWN189 :: byte where "OpUNKNOWN189 \<equiv> 0xBD"
abbreviation (input) OpUNKNOWN190 :: byte where "OpUNKNOWN190 \<equiv> 0xBE"
abbreviation (input) OpUNKNOWN191 :: byte where "OpUNKNOWN191 \<equiv> 0xBF"
abbreviation (input) OpUNKNOWN192 :: byte where "OpUNKNOWN192 \<equiv> 0xC0"
abbreviation (input) OpUNKNOWN193 :: byte where "OpUNKNOWN193 \<equiv> 0xC1"
abbreviation (input) OpUNKNOWN194 :: byte where "OpUNKNOWN194 \<equiv> 0xC2"
abbreviation (input) OpUNKNOWN195 :: byte where "OpUNKNOWN195 \<equiv> 0xC3"
abbreviation (input) OpUNKNOWN196 :: byte where "OpUNKNOWN196 \<equiv> 0xC4"
abbreviation (input) OpUNKNOWN197 :: byte where "OpUNKNOWN197 \<equiv> 0xC5"
abbreviation (input) OpUNKNOWN198 :: byte where "OpUNKNOWN198 \<equiv> 0xC6"
abbreviation (input) OpUNKNOWN199 :: byte where "OpUNKNOWN199 \<equiv> 0xC7"
abbreviation (input) OpUNKNOWN200 :: byte where "OpUNKNOWN200 \<equiv> 0xC8"
abbreviation (input) OpUNKNOWN201 :: byte where "OpUNKNOWN201 \<equiv> 0xC9"
abbreviation (input) OpUNKNOWN202 :: byte where "OpUNKNOWN202 \<equiv> 0xCA"
abbreviation (input) OpUNKNOWN203 :: byte where "OpUNKNOWN203 \<equiv> 0xCB"
abbreviation (input) OpUNKNOWN204 :: byte where "OpUNKNOWN204 \<equiv> 0xCC"
abbreviation (input) OpUNKNOWN205 :: byte where "OpUNKNOWN205 \<equiv> 0xCD"
abbreviation (input) OpUNKNOWN206 :: byte where "OpUNKNOWN206 \<equiv> 0xCE"
abbreviation (input) OpUNKNOWN207 :: byte where "OpUNKNOWN207 \<equiv> 0xCF"
abbreviation (input) OpUNKNOWN208 :: byte where "OpUNKNOWN208 \<equiv> 0xD0"
abbreviation (input) OpUNKNOWN209 :: byte where "OpUNKNOWN209 \<equiv> 0xD1"
abbreviation (input) OpUNKNOWN210 :: byte where "OpUNKNOWN210 \<equiv> 0xD2"
abbreviation (input) OpUNKNOWN211 :: byte where "OpUNKNOWN211 \<equiv> 0xD3"
abbreviation (input) OpUNKNOWN212 :: byte where "OpUNKNOWN212 \<equiv> 0xD4"
abbreviation (input) OpUNKNOWN213 :: byte where "OpUNKNOWN213 \<equiv> 0xD5"
abbreviation (input) OpUNKNOWN214 :: byte where "OpUNKNOWN214 \<equiv> 0xD6"
abbreviation (input) OpUNKNOWN215 :: byte where "OpUNKNOWN215 \<equiv> 0xD7"
abbreviation (input) OpUNKNOWN216 :: byte where "OpUNKNOWN216 \<equiv> 0xD8"
abbreviation (input) OpUNKNOWN217 :: byte where "OpUNKNOWN217 \<equiv> 0xD9"
abbreviation (input) OpUNKNOWN218 :: byte where "OpUNKNOWN218 \<equiv> 0xDA"
abbreviation (input) OpUNKNOWN219 :: byte where "OpUNKNOWN219 \<equiv> 0xDB"
abbreviation (input) OpUNKNOWN220 :: byte where "OpUNKNOWN220 \<equiv> 0xDC"
abbreviation (input) OpUNKNOWN221 :: byte where "OpUNKNOWN221 \<equiv> 0xDD"
abbreviation (input) OpUNKNOWN222 :: byte where "OpUNKNOWN222 \<equiv> 0xDE"
abbreviation (input) OpUNKNOWN223 :: byte where "OpUNKNOWN223 \<equiv> 0xDF"
abbreviation (input) OpUNKNOWN224 :: byte where "OpUNKNOWN224 \<equiv> 0xE0"
abbreviation (input) OpUNKNOWN225 :: byte where "OpUNKNOWN225 \<equiv> 0xE1"
abbreviation (input) OpUNKNOWN226 :: byte where "OpUNKNOWN226 \<equiv> 0xE2"
abbreviation (input) OpUNKNOWN227 :: byte where "OpUNKNOWN227 \<equiv> 0xE3"
abbreviation (input) OpUNKNOWN228 :: byte where "OpUNKNOWN228 \<equiv> 0xE4"
abbreviation (input) OpUNKNOWN229 :: byte where "OpUNKNOWN229 \<equiv> 0xE5"
abbreviation (input) OpUNKNOWN230 :: byte where "OpUNKNOWN230 \<equiv> 0xE6"
abbreviation (input) OpUNKNOWN231 :: byte where "OpUNKNOWN231 \<equiv> 0xE7"
abbreviation (input) OpUNKNOWN232 :: byte where "OpUNKNOWN232 \<equiv> 0xE8"
abbreviation (input) OpUNKNOWN233 :: byte where "OpUNKNOWN233 \<equiv> 0xE9"
abbreviation (input) OpUNKNOWN234 :: byte where "OpUNKNOWN234 \<equiv> 0xEA"
abbreviation (input) OpUNKNOWN235 :: byte where "OpUNKNOWN235 \<equiv> 0xEB"
abbreviation (input) OpUNKNOWN236 :: byte where "OpUNKNOWN236 \<equiv> 0xEC"
abbreviation (input) OpUNKNOWN237 :: byte where "OpUNKNOWN237 \<equiv> 0xED"
abbreviation (input) OpUNKNOWN238 :: byte where "OpUNKNOWN238 \<equiv> 0xEE"
abbreviation (input) OpUNKNOWN239 :: byte where "OpUNKNOWN239 \<equiv> 0xEF"
abbreviation (input) OpUNKNOWN240 :: byte where "OpUNKNOWN240 \<equiv> 0xF0"
abbreviation (input) OpUNKNOWN241 :: byte where "OpUNKNOWN241 \<equiv> 0xF1"
abbreviation (input) OpUNKNOWN242 :: byte where "OpUNKNOWN242 \<equiv> 0xF2"
abbreviation (input) OpUNKNOWN243 :: byte where "OpUNKNOWN243 \<equiv> 0xF3"
abbreviation (input) OpUNKNOWN244 :: byte where "OpUNKNOWN244 \<equiv> 0xF4"
abbreviation (input) OpUNKNOWN245 :: byte where "OpUNKNOWN245 \<equiv> 0xF5"
abbreviation (input) OpUNKNOWN246 :: byte where "OpUNKNOWN246 \<equiv> 0xF6"
abbreviation (input) OpUNKNOWN247 :: byte where "OpUNKNOWN247 \<equiv> 0xF7"
abbreviation (input) OpUNKNOWN248 :: byte where "OpUNKNOWN248 \<equiv> 0xF8"
abbreviation (input) OpUNKNOWN249 :: byte where "OpUNKNOWN249 \<equiv> 0xF9"
abbreviation (input) OpSMALLINTEGER :: byte where "OpSMALLINTEGER \<equiv> 0xFA"
abbreviation (input) OpPUBKEYS :: byte where "OpPUBKEYS \<equiv> 0xFB"
abbreviation (input) OpUNKNOWN252 :: byte where "OpUNKNOWN252 \<equiv> 0xFC"
abbreviation (input) OpPUBKEYHASH :: byte where "OpPUBKEYHASH \<equiv> 0xFD"
abbreviation (input) OpPUBKEY :: byte where "OpPUBKEY \<equiv> 0xFE"
abbreviation (input) OpINVALIDOPCODE :: byte where "OpINVALIDOPCODE \<equiv> 0xFF"

record opcode =
  opval :: byte
  opname :: string
  oplength :: int

text \<open>The data push opcodes.\<close>

definition opcodeArray_push :: "opcode list" where
  "opcodeArray_push = [
     \<lparr>opval = OpFALSE, opname = ''OP_0'', oplength = 1\<rparr>,
     \<lparr>opval = OpDATA1, opname = ''OP_DATA_1'', oplength = 2\<rparr>,
     \<lparr>opval = OpDATA2, opname = ''OP_DATA_2'', oplength = 3\<rparr>,
     \<lparr>opval = OpDATA3, opname = ''OP_DATA_3'', oplength = 4\<rparr>,
     \<lparr>opval = OpDATA4, opname = ''OP_DATA_4'', oplength = 5\<rparr>,
     \<lparr>opval = OpDATA5, opname = ''OP_DATA_5'', oplength = 6\<rparr>,
     \<lparr>opval = OpDATA6, opname = ''OP_DATA_6'', oplength = 7\<rparr>,
     \<lparr>opval = OpDATA7, opname = ''OP_DATA_7'', oplength = 8\<rparr>,
     \<lparr>opval = OpDATA8, opname = ''OP_DATA_8'', oplength = 9\<rparr>,
     \<lparr>opval = OpDATA9, opname = ''OP_DATA_9'', oplength = 10\<rparr>,
     \<lparr>opval = OpDATA10, opname = ''OP_DATA_10'', oplength = 11\<rparr>,
     \<lparr>opval = OpDATA11, opname = ''OP_DATA_11'', oplength = 12\<rparr>,
     \<lparr>opval = OpDATA12, opname = ''OP_DATA_12'', oplength = 13\<rparr>,
     \<lparr>opval = OpDATA13, opname = ''OP_DATA_13'', oplength = 14\<rparr>,
     \<lparr>opval = OpDATA14, opname = ''OP_DATA_14'', oplength = 15\<rparr>,
     \<lparr>opval = OpDATA15, opname = ''OP_DATA_15'', oplength = 16\<rparr>,
     \<lparr>opval = OpDATA16, opname = ''OP_DATA_16'', oplength = 17\<rparr>,
     \<lparr>opval = OpDATA17, opname = ''OP_DATA_17'', oplength = 18\<rparr>,
     \<lparr>opval = OpDATA18, opname = ''OP_DATA_18'', oplength = 19\<rparr>,
     \<lparr>opval = OpDATA19, opname = ''OP_DATA_19'', oplength = 20\<rparr>,
     \<lparr>opval = OpDATA20, opname = ''OP_DATA_20'', oplength = 21\<rparr>,
     \<lparr>opval = OpDATA21, opname = ''OP_DATA_21'', oplength = 22\<rparr>,
     \<lparr>opval = OpDATA22, opname = ''OP_DATA_22'', oplength = 23\<rparr>,
     \<lparr>opval = OpDATA23, opname = ''OP_DATA_23'', oplength = 24\<rparr>,
     \<lparr>opval = OpDATA24, opname = ''OP_DATA_24'', oplength = 25\<rparr>,
     \<lparr>opval = OpDATA25, opname = ''OP_DATA_25'', oplength = 26\<rparr>,
     \<lparr>opval = OpDATA26, opname = ''OP_DATA_26'', oplength = 27\<rparr>,
     \<lparr>opval = OpDATA27, opname = ''OP_DATA_27'', oplength = 28\<rparr>,
     \<lparr>opval = OpDATA28, opname = ''OP_DATA_28'', oplength = 29\<rparr>,
     \<lparr>opval = OpDATA29, opname = ''OP_DATA_29'', oplength = 30\<rparr>,
     \<lparr>opval = OpDATA30, opname = ''OP_DATA_30'', oplength = 31\<rparr>,
     \<lparr>opval = OpDATA31, opname = ''OP_DATA_31'', oplength = 32\<rparr>,
     \<lparr>opval = OpDATA32, opname = ''OP_DATA_32'', oplength = 33\<rparr>,
     \<lparr>opval = OpDATA33, opname = ''OP_DATA_33'', oplength = 34\<rparr>,
     \<lparr>opval = OpDATA34, opname = ''OP_DATA_34'', oplength = 35\<rparr>,
     \<lparr>opval = OpDATA35, opname = ''OP_DATA_35'', oplength = 36\<rparr>,
     \<lparr>opval = OpDATA36, opname = ''OP_DATA_36'', oplength = 37\<rparr>,
     \<lparr>opval = OpDATA37, opname = ''OP_DATA_37'', oplength = 38\<rparr>,
     \<lparr>opval = OpDATA38, opname = ''OP_DATA_38'', oplength = 39\<rparr>,
     \<lparr>opval = OpDATA39, opname = ''OP_DATA_39'', oplength = 40\<rparr>,
     \<lparr>opval = OpDATA40, opname = ''OP_DATA_40'', oplength = 41\<rparr>,
     \<lparr>opval = OpDATA41, opname = ''OP_DATA_41'', oplength = 42\<rparr>,
     \<lparr>opval = OpDATA42, opname = ''OP_DATA_42'', oplength = 43\<rparr>,
     \<lparr>opval = OpDATA43, opname = ''OP_DATA_43'', oplength = 44\<rparr>,
     \<lparr>opval = OpDATA44, opname = ''OP_DATA_44'', oplength = 45\<rparr>,
     \<lparr>opval = OpDATA45, opname = ''OP_DATA_45'', oplength = 46\<rparr>,
     \<lparr>opval = OpDATA46, opname = ''OP_DATA_46'', oplength = 47\<rparr>,
     \<lparr>opval = OpDATA47, opname = ''OP_DATA_47'', oplength = 48\<rparr>,
     \<lparr>opval = OpDATA48, opname = ''OP_DATA_48'', oplength = 49\<rparr>,
     \<lparr>opval = OpDATA49, opname = ''OP_DATA_49'', oplength = 50\<rparr>,
     \<lparr>opval = OpDATA50, opname = ''OP_DATA_50'', oplength = 51\<rparr>,
     \<lparr>opval = OpDATA51, opname = ''OP_DATA_51'', oplength = 52\<rparr>,
     \<lparr>opval = OpDATA52, opname = ''OP_DATA_52'', oplength = 53\<rparr>,
     \<lparr>opval = OpDATA53, opname = ''OP_DATA_53'', oplength = 54\<rparr>,
     \<lparr>opval = OpDATA54, opname = ''OP_DATA_54'', oplength = 55\<rparr>,
     \<lparr>opval = OpDATA55, opname = ''OP_DATA_55'', oplength = 56\<rparr>,
     \<lparr>opval = OpDATA56, opname = ''OP_DATA_56'', oplength = 57\<rparr>,
     \<lparr>opval = OpDATA57, opname = ''OP_DATA_57'', oplength = 58\<rparr>,
     \<lparr>opval = OpDATA58, opname = ''OP_DATA_58'', oplength = 59\<rparr>,
     \<lparr>opval = OpDATA59, opname = ''OP_DATA_59'', oplength = 60\<rparr>,
     \<lparr>opval = OpDATA60, opname = ''OP_DATA_60'', oplength = 61\<rparr>,
     \<lparr>opval = OpDATA61, opname = ''OP_DATA_61'', oplength = 62\<rparr>,
     \<lparr>opval = OpDATA62, opname = ''OP_DATA_62'', oplength = 63\<rparr>,
     \<lparr>opval = OpDATA63, opname = ''OP_DATA_63'', oplength = 64\<rparr>,
     \<lparr>opval = OpDATA64, opname = ''OP_DATA_64'', oplength = 65\<rparr>,
     \<lparr>opval = OpDATA65, opname = ''OP_DATA_65'', oplength = 66\<rparr>,
     \<lparr>opval = OpDATA66, opname = ''OP_DATA_66'', oplength = 67\<rparr>,
     \<lparr>opval = OpDATA67, opname = ''OP_DATA_67'', oplength = 68\<rparr>,
     \<lparr>opval = OpDATA68, opname = ''OP_DATA_68'', oplength = 69\<rparr>,
     \<lparr>opval = OpDATA69, opname = ''OP_DATA_69'', oplength = 70\<rparr>,
     \<lparr>opval = OpDATA70, opname = ''OP_DATA_70'', oplength = 71\<rparr>,
     \<lparr>opval = OpDATA71, opname = ''OP_DATA_71'', oplength = 72\<rparr>,
     \<lparr>opval = OpDATA72, opname = ''OP_DATA_72'', oplength = 73\<rparr>,
     \<lparr>opval = OpDATA73, opname = ''OP_DATA_73'', oplength = 74\<rparr>,
     \<lparr>opval = OpDATA74, opname = ''OP_DATA_74'', oplength = 75\<rparr>,
     \<lparr>opval = OpDATA75, opname = ''OP_DATA_75'', oplength = 76\<rparr>,
     \<lparr>opval = OpPUSHDATA1, opname = ''OP_PUSHDATA1'', oplength = -1\<rparr>,
     \<lparr>opval = OpPUSHDATA2, opname = ''OP_PUSHDATA2'', oplength = -2\<rparr>,
     \<lparr>opval = OpPUSHDATA4, opname = ''OP_PUSHDATA4'', oplength = -4\<rparr>,
     \<lparr>opval = Op1NEGATE, opname = ''OP_1NEGATE'', oplength = 1\<rparr>,
     \<lparr>opval = OpRESERVED, opname = ''OP_RESERVED'', oplength = 1\<rparr>,
     \<lparr>opval = OpTRUE, opname = ''OP_1'', oplength = 1\<rparr>,
     \<lparr>opval = Op2, opname = ''OP_2'', oplength = 1\<rparr>,
     \<lparr>opval = Op3, opname = ''OP_3'', oplength = 1\<rparr>,
     \<lparr>opval = Op4, opname = ''OP_4'', oplength = 1\<rparr>,
     \<lparr>opval = Op5, opname = ''OP_5'', oplength = 1\<rparr>,
     \<lparr>opval = Op6, opname = ''OP_6'', oplength = 1\<rparr>,
     \<lparr>opval = Op7, opname = ''OP_7'', oplength = 1\<rparr>,
     \<lparr>opval = Op8, opname = ''OP_8'', oplength = 1\<rparr>,
     \<lparr>opval = Op9, opname = ''OP_9'', oplength = 1\<rparr>,
     \<lparr>opval = Op10, opname = ''OP_10'', oplength = 1\<rparr>,
     \<lparr>opval = Op11, opname = ''OP_11'', oplength = 1\<rparr>,
     \<lparr>opval = Op12, opname = ''OP_12'', oplength = 1\<rparr>,
     \<lparr>opval = Op13, opname = ''OP_13'', oplength = 1\<rparr>,
     \<lparr>opval = Op14, opname = ''OP_14'', oplength = 1\<rparr>,
     \<lparr>opval = Op15, opname = ''OP_15'', oplength = 1\<rparr>,
     \<lparr>opval = Op16, opname = ''OP_16'', oplength = 1\<rparr>]"

text \<open>Control, stack, splice, bitwise, arithmetic, crypto and reserved opcodes.\<close>

definition opcodeArray_ops :: "opcode list" where
  "opcodeArray_ops = [
     \<lparr>opval = OpNOP, opname = ''OP_NOP'', oplength = 1\<rparr>,
     \<lparr>opval = OpVER, opname = ''OP_VER'', oplength = 1\<rparr>,
     \<lparr>opval = OpIF, opname = ''OP_IF'', oplength = 1\<rparr>,
     \<lparr>opval = OpNOTIF, opname = ''OP_NOTIF'', oplength = 1\<rparr>,
     \<lparr>opval = OpVERIF, opname = ''OP_VERIF'', oplength = 1\<rparr>,
     \<lparr>opval = OpVERNOTIF, opname = ''OP_VERNOTIF'', oplength = 1\<rparr>,
     \<lparr>opval = OpELSE, opname = ''OP_ELSE'', oplength = 1\<rparr>,
     \<lparr>opval = OpENDIF, opname = ''OP_ENDIF'', oplength = 1\<rparr>,
     \<lparr>opval = OpVERIFY, opname = ''OP_VERIFY'', oplength = 1\<rparr>,
     \<lparr>opval = OpRETURN, opname = ''OP_RETURN'', oplength = 1\<rparr>,
     \<lparr>opval = OpTOALTSTACK, opname = ''OP_TOALTSTACK'', oplength = 1\<rparr>,
     \<lparr>opval = OpFROMALTSTACK, opname = ''OP_FROMALTSTACK'', oplength = 1\<rparr>,
     \<lparr>opval = Op2DROP, opname = ''OP_2DROP'', oplength = 1\<rparr>,
     \<lparr>opval = Op2DUP, opname = ''OP_2DUP'', oplength = 1\<rparr>,
     \<lparr>opval = Op3DUP, opname = ''OP_3DUP'', oplength = 1\<rparr>,
     \<lparr>opval = Op2OVER, opname = ''OP_2OVER'', oplength = 1\<rparr>,
     \<lparr>opval = Op2ROT, opname = ''OP_2ROT'', oplength = 1\<rparr>,
     \<lparr>opval = Op2SWAP, opname = ''OP_2SWAP'', oplength = 1\<rparr>,
     \<lparr>opval = OpIFDUP, opname = ''OP_IFDUP'', oplength = 1\<rparr>,
     \<lparr>opval = OpDEPTH, opname = ''OP_DEPTH'', oplength = 1\<rparr>,
     \<lparr>opval = OpDROP, opname = ''OP_DROP'', oplength = 1\<rparr>,
     \<lparr>opval = OpDUP, opname = ''OP_DUP'', oplength = 1\<rparr>,
     \<lparr>opval = OpNIP, opname = ''OP_NIP'', oplength = 1\<rparr>,
     \<lparr>opval = OpOVER, opname = ''OP_OVER'', oplength = 1\<rparr>,
     \<lparr>opval = OpPICK, opname = ''OP_PICK'', oplength = 1\<rparr>,
     \<lparr>opval = OpROLL, opname = ''OP_ROLL'', oplength = 1\<rparr>,
     \<lparr>opval = OpROT, opname = ''OP_ROT'', oplength = 1\<rparr>,
     \<lparr>opval = OpSWAP, opname = ''OP_SWAP'', oplength = 1\<rparr>,
     \<lparr>opval = OpTUCK, opname = ''OP_TUCK'', oplength = 1\<rparr>,
     \<lparr>opval = OpCAT, opname = ''OP_CAT'', oplength = 1\<rparr>,
     \<lparr>opval = OpSPLIT, opname = ''OP_SPLIT'', oplength = 1\<rparr>,
     \<lparr>opval = OpNUM2BIN, opname = ''OP_NUM2BIN'', oplength = 1\<rparr>,
     \<lparr>opval = OpBIN2NUM, opname = ''OP_BIN2NUM'', oplength = 1\<rparr>,
     \<lparr>opval = OpSIZE, opname = ''OP_SIZE'', oplength = 1\<rparr>,
     \<lparr>opval = OpINVERT, opname = ''OP_INVERT'', oplength = 1\<rparr>,
     \<lparr>opval = OpAND, opname = ''OP_AND'', oplength = 1\<rparr>,
     \<lparr>opval = OpOR, opname = ''OP_OR'', oplength = 1\<rparr>,
     \<lparr>opval = OpXOR, opname = ''OP_XOR'', oplength = 1\<rparr>,
     \<lparr>opval = OpEQUAL, opname = ''OP_EQUAL'', oplength = 1\<rparr>,
     \<lparr>opval = OpEQUALVERIFY, opname = ''OP_EQUALVERIFY'', oplength = 1\<rparr>,
     \<lparr>opval = OpRESERVED1, opname = ''OP_RESERVED1'', oplength = 1\<rparr>,
     \<lparr>opval = OpRESERVED2, opname = ''OP_RESERVED2'', oplength = 1\<rparr>,
     \<lparr>opval = Op1ADD, opname = ''OP_1ADD'', oplength = 1\<rparr>,
     \<lparr>opval = Op1SUB, opname = ''OP_1SUB'', oplength = 1\<rparr>,
     \<lparr>opval = Op2MUL, opname = ''OP_2MUL'', oplength = 1\<rparr>,
     \<lparr>opval = Op2DIV, opname = ''OP_2DIV'', oplength = 1\<rparr>,
     \<lparr>opval = OpNEGATE, opname = ''OP_NEGATE'', oplength = 1\<rparr>,
     \<lparr>opval = OpABS, opname = ''OP_ABS'', oplength = 1\<rparr>,
     \<lparr>opval = OpNOT, opname = ''OP_NOT'', oplength = 1\<rparr>,
     \<lparr>opval = Op0NOTEQUAL, opname = ''OP_0NOTEQUAL'', oplength = 1\<rparr>,
     \<lparr>opval = OpADD, opname = ''OP_ADD'', oplength = 1\<rparr>,
     \<lparr>opval = OpSUB, opname = ''OP_SUB'', oplength = 1\<rparr>,
     \<lparr>opval = OpMUL, opname = ''OP_MUL'', oplength = 1\<rparr>,
     \<lparr>opval = OpDIV, opname = ''OP_DIV'', oplength = 1\<rparr>,
     \<lparr>opval = OpMOD, opname = ''OP_MOD'', oplength = 1\<rparr>,
     \<lparr>opval = OpLSHIFT, opname = ''OP_LSHIFT'', oplength = 1\<rparr>,
     \<lparr>opval = OpRSHIFT, opname = ''OP_RSHIFT'', oplength = 1\<rparr>,
     \<lparr>opval = OpBOOLAND, opname = ''OP_BOOLAND'', oplength = 1\<rparr>,
     \<lparr>opval = OpBOOLOR, opname = ''OP_BOOLOR'', oplength = 1\<rparr>,
     \<lparr>opval = OpNUMEQUAL, opname = ''OP_NUMEQUAL'', oplength = 1\<rparr>,
     \<lparr>opval = OpNUMEQUALVERIFY, opname = ''OP_NUMEQUALVERIFY'', oplength = 1\<rparr>,
     \<lparr>opval = OpNUMNOTEQUAL, opname = ''OP_NUMNOTEQUAL'', oplength = 1\<rparr>,
     \<lparr>opval = OpLESSTHAN, opname = ''OP_LESSTHAN'', oplength = 1\<rparr>,
     \<lparr>opval = OpGREATERTHAN, opname = ''OP_GREATERTHAN'', oplength = 1\<rparr>,
     \<lparr>opval = OpLESSTHANOREQUAL, opname = ''OP_LESSTHANOREQUAL'', oplength = 1\<rparr>,
     \<lparr>opval = OpGREATERTHANOREQUAL, opname = ''OP_GREATERTHANOREQUAL'', oplength = 1\<rparr>,
     \<lparr>opval = OpMIN, opname = ''OP_MIN'', oplength = 1\<rparr>,
     \<lparr>opval = OpMAX, opname = ''OP_MAX'', oplength = 1\<rparr>,
     \<lparr>opval = OpWITHIN, opname = ''OP_WITHIN'', oplength = 1\<rparr>,
     \<lparr>opval = OpRIPEMD160, opname = ''OP_RIPEMD160'', oplength = 1\<rparr>,
     \<lparr>opval = OpSHA1, opname = ''OP_SHA1'', oplength = 1\<rparr>,
     \<lparr>opval = OpSHA256, opname = ''OP_SHA256'', oplength = 1\<rparr>,
     \<lparr>opval = OpHASH160, opname = ''OP_HASH160'', oplength = 1\<rparr>,
     \<lparr>opval = OpHASH256, opname = ''OP_HASH256'', oplength = 1\<rparr>,
     \<lparr>opval = OpCODESEPARATOR, opname = ''OP_CODESEPARATOR'', oplength = 1\<rparr>,
     \<lparr>opval = OpCHECKSIG, opname = ''OP_CHECKSIG'', oplength = 1\<rparr>,
     \<lparr>opval = OpCHECKSIGVERIFY, opname = ''OP_CHECKSIGVERIFY'', oplength = 1\<rparr>,
     \<lparr>opval = OpCHECKMULTISIG, opname = ''OP_CHECKMULTISIG'', oplength = 1\<rparr>,
     \<lparr>opval = OpCHECKMULTISIGVERIFY, opname = ''OP_CHECKMULTISIGVERIFY'', oplength = 1\<rparr>,
     \<lparr>opval = OpNOP1, opname = ''OP_NOP1'', oplength = 1\<rparr>,
     \<lparr>opval = OpCHECKLOCKTIMEVERIFY, opname = ''OP_CHECKLOCKTIMEVERIFY'', oplength = 1\<rparr>,
     \<lparr>opval = OpCHECKSEQUENCEVERIFY, opname = ''OP_CHECKSEQUENCEVERIFY'', oplength = 1\<rparr>,
     \<lparr>opval = OpSUBSTR, opname = ''OP_SUBSTR'', oplength = 1\<rparr>,
     \<lparr>opval = OpLEFT, opname = ''OP_LEFT'', oplength = 1\<rparr>,
     \<lparr>opval = OpRIGHT, opname = ''OP_RIGHT'', oplength = 1\<rparr>,
     \<lparr>opval = OpLSHIFTNUM, opname = ''OP_LSHIFTNUM'', oplength = 1\<rparr>,
     \<lparr>opval = OpRSHIFTNUM, opname = ''OP_RSHIFTNUM'', oplength = 1\<rparr>,
     \<lparr>opval = OpNOP9, opname = ''OP_NOP9'', oplength = 1\<rparr>,
     \<lparr>opval = OpNOP10, opname = ''OP_NOP10'', oplength = 1\<rparr>]"

text \<open>Undefined opcodes and the ones for internal use of the node.\<close>

definition opcodeArray_undefined :: "opcode list" where
  "opcodeArray_undefined = [
     \<lparr>opval = OpUNKNOWN186, opname = ''OP_UNKNOWN186'', oplength = 1\<rparr>,
     \<lparr>opval = OpUNKNOWN187, opname = ''OP_UNKNOWN187'', oplength = 1\<rparr>,
     \<lparr>opval = OpUNKNOWN188, opname = ''OP_UNKNOWN188'', oplength = 1\<rparr>,
     \<lparr>opval = OpUNKNOWN189, opname = ''OP_UNKNOWN189'', oplength = 1\<rparr>,
     \<lparr>opval = OpUNKNOWN190, opname = ''OP_UNKNOWN190'', oplength = 1\<rparr>,
     \<lparr>opval = OpUNKNOWN191, opname = ''OP_UNKNOWN191'', oplength = 1\<rparr>,
     \<lparr>opval = OpUNKNOWN192, opname = ''OP_UNKNOWN192'', oplength = 1\<rparr>,
     \<lparr>opval = OpUNKNOWN193, opname = ''OP_UNKNOWN193'', oplength = 1\<rparr>,
     \<lparr>opval = OpUNKNOWN194, opname = ''OP_UNKNOWN194'', oplength = 1\<rparr>,
     \<lparr>opval = OpUNKNOWN195, opname = ''OP_UNKNOWN195'', oplength = 1\<rparr>,
     \<lparr>opval = OpUNKNOWN196, opname = ''OP_UNKNOWN196'', oplength = 1\<rparr>,
     \<lparr>opval = OpUNKNOWN197, opname = ''OP_UNKNOWN197'', oplength = 1\<rparr>,
     \<lparr>opval = OpUNKNOWN198, opname = ''OP_UNKNOWN198'', oplength = 1\<rparr>,
     \<lparr>opval = OpUNKNOWN199, opname = ''OP_UNKNOWN199'', oplength = 1\<rparr>,
     \<lparr>opval = OpUNKNOWN200, opname = ''OP_UNKNOWN200'', oplength = 1\<rparr>,
     \<lparr>opval = OpUNKNOWN201, opname = ''OP_UNKNOWN201'', oplength = 1\<rparr>,
     \<lparr>opval = OpUNKNOWN202, opname = ''OP_UNKNOWN202'', oplength = 1\<rparr>,
     \<lparr>opval = OpUNKNOWN203, opname = ''OP_UNKNOWN203'', oplength = 1\<rparr>,
     \<lparr>opval = OpUNKNOWN204, opname = ''OP_UNKNOWN204'', oplength = 1\<rparr>,
     \<lparr>opval = OpUNKNOWN205, opname = ''OP_UNKNOWN205'', oplength = 1\<rparr>,
     \<lparr>opval = OpUNKNOWN206, opname = ''OP_UNKNOWN206'', oplength = 1\<rparr>,
     \<lparr>opval = OpUNKNOWN207, opname = ''OP_UNKNOWN207'', oplength = 1\<rparr>,
     \<lparr>opval = OpUNKNOWN208, opname = ''OP_UNKNOWN208'', oplength = 1\<rparr>,
     \<lparr>opval = OpUNKNOWN209, opname = ''OP_UNKNOWN209'', oplength = 1\<rparr>,
     \<lparr>opval = OpUNKNOWN210, opname = ''OP_UNKNOWN210'', oplength = 1\<rparr>,
     \<lparr>opval = OpUNKNOWN211, opname = ''OP_UNKNOWN211'', oplength = 1\<rparr>,
     \<lparr>opval = OpUNKNOWN212, opname = ''OP_UNKNOWN212'', oplength = 1\<rparr>,
     \<lparr>opval = OpUNKNOWN213, opname = ''OP_UNKNOWN213'', oplength = 1\<rparr>,
     \<lparr>opval = OpUNKNOWN214, opname = ''OP_UNKNOWN214'', oplength = 1\<rparr>,
     \<lparr>opval = OpUNKNOWN215, opname = ''OP_UNKNOWN215'', oplength = 1\<rparr>,
     \<lparr>opval = OpUNKNOWN216, opname = ''OP_UNKNOWN216'', oplength = 1\<rparr>,
     \<lparr>opval = OpUNKNOWN217, opname = ''OP_UNKNOWN217'', oplength = 1\<rparr>,
     \<lparr>opval = OpUNKNOWN218, opname = ''OP_UNKNOWN218'', oplength = 1\<rparr>,
     \<lparr>opval = OpUNKNOWN219, opname = ''OP_UNKNOWN219'', oplength = 1\<rparr>,
     \<lparr>opval = OpUNKNOWN220, opname = ''OP_UNKNOWN220'', oplength = 1\<rparr>,
     \<lparr>opval = OpUNKNOWN221, opname = ''OP_UNKNOWN221'', oplength = 1\<rparr>,
     \<lparr>opval = OpUNKNOWN222, opname = ''OP_UNKNOWN222'', oplength = 1\<rparr>,
     \<lparr>opval = OpUNKNOWN223, opname = ''OP_UNKNOWN223'', oplength = 1\<rparr>,
     \<lparr>opval = OpUNKNOWN224, opname = ''OP_UNKNOWN224'', oplength = 1\<rparr>,
     \<lparr>opval = OpUNKNOWN225, opname = ''OP_UNKNOWN225'', oplength = 1\<rparr>,
     \<lparr>opval = OpUNKNOWN226, opname = ''OP_UNKNOWN226'', oplength = 1\<rparr>,
     \<lparr>opval = OpUNKNOWN227, opname = ''OP_UNKNOWN227'', oplength = 1\<rparr>,
     \<lparr>opval = OpUNKNOWN228, opname = ''OP_UNKNOWN228'', oplength = 1\<rparr>,
     \<lparr>opval = OpUNKNOWN229, opname = ''OP_UNKNOWN229'', oplength = 1\<rparr>,
     \<lparr>opval = OpUNKNOWN230, opname = ''OP_UNKNOWN230'', oplength = 1\<rparr>,
     \<lparr>opval = OpUNKNOWN231, opname = ''OP_UNKNOWN231'', oplength = 1\<rparr>,
     \<lparr>opval = OpUNKNOWN232, opname = ''OP_UNKNOWN232'', oplength = 1\<rparr>,
     \<lparr>opval = OpUNKNOWN233, opname = ''OP_UNKNOWN233'', oplength = 1\<rparr>,
     \<lparr>opval = OpUNKNOWN234, opname = ''OP_UNKNOWN234'', oplength = 1\<rparr>,
     \<lparr>opval = OpUNKNOWN235, opname = ''OP_UNKNOWN235'', oplength = 1\<rparr>,
     \<lparr>opval = OpUNKNOWN236, opname = ''OP_UNKNOWN236'', oplength = 1\<rparr>,
     \<lparr>opval = OpUNKNOWN237, opname = ''OP_UNKNOWN237'', oplength = 1\<rparr>,
     \<lparr>opval = OpUNKNOWN238, opname = ''OP_UNKNOWN238'', oplength = 1\<rparr>,
     \<lparr>opval = OpUNKNOWN239, opname = ''OP_UNKNOWN239'', oplength = 1\<rparr>,
     \<lparr>opval = OpUNKNOWN240, opname = ''OP_UNKNOWN240'', oplength = 1\<rparr>,
     \<lparr>opval = OpUNKNOWN241, opname = ''OP_UNKNOWN241'', oplength = 1\<rparr>,
     \<lparr>opval = OpUNKNOWN242, opname = ''OP_UNKNOWN242'', oplength = 1\<rparr>,
     \<lparr>opval = OpUNKNOWN243, opname = ''OP_UNKNOWN243'', oplength = 1\<rparr>,
     \<lparr>opval = OpUNKNOWN244, opname = ''OP_UNKNOWN244'', oplength = 1\<rparr>,
     \<lparr>opval = OpUNKNOWN245, opname = ''OP_UNKNOWN245'', oplength = 1\<rparr>,
     \<lparr>opval = OpUNKNOWN246, opname = ''OP_UNKNOWN246'', oplength = 1\<rparr>,
     \<lparr>opval = OpUNKNOWN247, opname = ''OP_UNKNOWN247'', oplength = 1\<rparr>,
     \<lparr>opval = OpUNKNOWN248, opname = ''OP_UNKNOWN248'', oplength = 1\<rparr>,
     \<lparr>opval = OpUNKNOWN249, opname = ''OP_UNKNOWN249'', oplength = 1\<rparr>,
     \<lparr>opval = OpSMALLINTEGER, opname = ''OP_SMALLINTEGER'', oplength = 1\<rparr>,
     \<lparr>opval = OpPUBKEYS, opname = ''OP_PUBKEYS'', oplength = 1\<rparr>,
     \<lparr>opval = OpUNKNOWN252, opname = ''OP_UNKNOWN252'', oplength = 1\<rparr>,
     \<lparr>opval = OpPUBKEYHASH, opname = ''OP_PUBKEYHASH'', oplength = 1\<rparr>,
     \<lparr>opval = OpPUBKEY, opname = ''OP_PUBKEY'', oplength = 1\<rparr>,
     \<lparr>opval = OpINVALIDOPCODE, opname = ''OP_INVALIDOPCODE'', oplength = 1\<rparr>]"

definition opcodeArray :: "opcode list" where
  "opcodeArray = opcodeArray_push @ opcodeArray_ops @ opcodeArray_undefined"

definition opcode_at :: "byte \<Rightarrow> opcode" where
  "opcode_at b = opcodeArray ! unat b"

subsection \<open>The table by value\<close>

lemmas opcodeArray_defs =
  opcodeArray_def opcodeArray_push_def opcodeArray_ops_def opcodeArray_undefined_def

definition opcode_length :: "byte \<Rightarrow> int" where
  "opcode_length b =
     (if 1 \<le> b \<and> b \<le> OpDATA75 then uint b + 1
      else if b = OpPUSHDATA1 then - 1 else if b = OpPUSHDATA2 then - 2
      else if b = OpPUSHDATA4 then - 4 else 1)"

lemma opcodeArray_vals: "map opval opcodeArray = map word_of_nat [0..<256]"
  by code_simp

lemma opcodeArray_lengths: "map oplength opcodeArray = map (\<lambda>n. opcode_length (word_of_nat n)) [0..<256]"
  by code_simp

lemma length_opcodeArray: "length opcodeArray = 256"
  using arg_cong [OF opcodeArray_vals, of length] by simp

lemma opval_opcode_at [simp]: "opval (opcode_at b) = b"
proof -
  have "map opval opcodeArray ! unat b = map word_of_nat [0..<256] ! unat b"
    by (simp only: opcodeArray_vals)
  then show ?thesis
    by (simp add: opcode_at_def length_opcodeArray)
qed

lemma oplength_opcode_at [simp]: "oplength (opcode_at b) = opcode_length b"
proof -
  have "map oplength opcodeArray ! unat b = map (\<lambda>n. opcode_length (word_of_nat n)) [0..<256] ! unat b"
    by (simp only: opcodeArray_lengths)
  then show ?thesis
    by (simp add: opcode_at_def length_opcodeArray)
qed

end
