(* ===== verification/Script_Config.thy ===== *)
theory Script_Config
  imports Script_Stack
begin

text \<open>
  \<^verbatim>\<open>script/interpreter/config.go\<close> (the limits of the three eras of the script rules) and
  \<^verbatim>\<open>script/interpreter/scriptflag/scriptflag.go\<close> (the execution flags, a bit mask of 32 bits).
\<close>

subsection \<open>Flags\<close>

abbreviation (input) Bip16 :: u32 where "Bip16 \<equiv> 0x1"
abbreviation (input) StrictMultiSig :: u32 where "StrictMultiSig \<equiv> 0x2"
abbreviation (input) DiscourageUpgradableNops :: u32 where "DiscourageUpgradableNops \<equiv> 0x4"
abbreviation (input) VerifyCheckLockTimeVerify :: u32 where "VerifyCheckLockTimeVerify \<equiv> 0x8"
abbreviation (input) VerifyCheckSequenceVerify :: u32 where "VerifyCheckSequenceVerify \<equiv> 0x10"
abbreviation (input) VerifyCleanStack :: u32 where "VerifyCleanStack \<equiv> 0x20"
abbreviation (input) VerifyDERSignatures :: u32 where "VerifyDERSignatures \<equiv> 0x40"
abbreviation (input) VerifyLowS :: u32 where "VerifyLowS \<equiv> 0x80"
abbreviation (input) VerifyMinimalData :: u32 where "VerifyMinimalData \<equiv> 0x100"
abbreviation (input) VerifyNullFail :: u32 where "VerifyNullFail \<equiv> 0x200"
abbreviation (input) VerifySigPushOnly :: u32 where "VerifySigPushOnly \<equiv> 0x400"
abbreviation (input) EnableSighashForkID :: u32 where "EnableSighashForkID \<equiv> 0x800"
abbreviation (input) VerifyStrictEncoding :: u32 where "VerifyStrictEncoding \<equiv> 0x1000"
abbreviation (input) VerifyBip143SigHash :: u32 where "VerifyBip143SigHash \<equiv> 0x2000"
abbreviation (input) UTXOAfterGenesis :: u32 where "UTXOAfterGenesis \<equiv> 0x4000"
abbreviation (input) VerifyMinimalIf :: u32 where "VerifyMinimalIf \<equiv> 0x8000"
abbreviation (input) UTXOAfterChronicle :: u32 where "UTXOAfterChronicle \<equiv> 0x10000"

definition HasFlag :: "u32 \<Rightarrow> u32 \<Rightarrow> bool" where
  "HasFlag s flag = (s AND flag = flag)"

primrec HasAny :: "u32 \<Rightarrow> u32 list \<Rightarrow> bool" where
  "HasAny s [] = False"
| "HasAny s (f # fs) = (if s AND f = f then True else HasAny s fs)"

definition AddFlag :: "u32 \<Rightarrow> u32 \<Rightarrow> u32" where
  "AddFlag s flag = s OR flag"

subsection \<open>Limits\<close>

abbreviation (input) MaxInt32 :: int where "MaxInt32 \<equiv> 2147483647"
abbreviation (input) MaxOpsBeforeGenesis :: int where "MaxOpsBeforeGenesis \<equiv> 500"
abbreviation (input) MaxStackSizeBeforeGenesis :: int where "MaxStackSizeBeforeGenesis \<equiv> 1000"
abbreviation (input) MaxScriptSizeBeforeGenesis :: int where "MaxScriptSizeBeforeGenesis \<equiv> 10000"
abbreviation (input) MaxScriptElementSizeBeforeGenesis :: int where "MaxScriptElementSizeBeforeGenesis \<equiv> 520"
abbreviation (input) MaxScriptNumberLengthBeforeGenesis :: int where "MaxScriptNumberLengthBeforeGenesis \<equiv> 4"
abbreviation (input) MaxPubKeysPerMultiSigBeforeGenesis :: int where "MaxPubKeysPerMultiSigBeforeGenesis \<equiv> 20"
abbreviation (input) MaxScriptNumberLengthAfterChronicle :: int where "MaxScriptNumberLengthAfterChronicle \<equiv> 32 * 1024 * 1024"

datatype config = BeforeGenesisConfig | AfterGenesisConfig | AfterChronicleConfig

definition cfg_AfterGenesis :: "config \<Rightarrow> bool" where
  "cfg_AfterGenesis c = (case c of BeforeGenesisConfig \<Rightarrow> False | AfterGenesisConfig \<Rightarrow> True | AfterChronicleConfig \<Rightarrow> True)"

definition cfg_AfterChronicle :: "config \<Rightarrow> bool" where
  "cfg_AfterChronicle c = (case c of BeforeGenesisConfig \<Rightarrow> False | AfterGenesisConfig \<Rightarrow> False | AfterChronicleConfig \<Rightarrow> True)"

definition MaxStackSize :: "config \<Rightarrow> int" where
  "MaxStackSize c = (case c of BeforeGenesisConfig \<Rightarrow> MaxStackSizeBeforeGenesis | AfterGenesisConfig \<Rightarrow> MaxInt32 | AfterChronicleConfig \<Rightarrow> MaxInt32)"

definition MaxScriptSize :: "config \<Rightarrow> int" where
  "MaxScriptSize c = (case c of BeforeGenesisConfig \<Rightarrow> MaxScriptSizeBeforeGenesis | AfterGenesisConfig \<Rightarrow> MaxInt32 | AfterChronicleConfig \<Rightarrow> MaxInt32)"

definition MaxScriptElementSize :: "config \<Rightarrow> int" where
  "MaxScriptElementSize c = (case c of BeforeGenesisConfig \<Rightarrow> MaxScriptElementSizeBeforeGenesis | AfterGenesisConfig \<Rightarrow> MaxInt32 | AfterChronicleConfig \<Rightarrow> MaxInt32)"

definition MaxScriptNumberLength :: "config \<Rightarrow> int" where
  "MaxScriptNumberLength c = (case c of BeforeGenesisConfig \<Rightarrow> MaxScriptNumberLengthBeforeGenesis | AfterGenesisConfig \<Rightarrow> 750 * 1000 | AfterChronicleConfig \<Rightarrow> MaxScriptNumberLengthAfterChronicle)"

definition MaxOps :: "config \<Rightarrow> int" where
  "MaxOps c = (case c of BeforeGenesisConfig \<Rightarrow> MaxOpsBeforeGenesis | AfterGenesisConfig \<Rightarrow> MaxInt32 | AfterChronicleConfig \<Rightarrow> MaxInt32)"

definition MaxPubKeysPerMultiSig :: "config \<Rightarrow> int" where
  "MaxPubKeysPerMultiSig c = (case c of BeforeGenesisConfig \<Rightarrow> MaxPubKeysPerMultiSigBeforeGenesis | AfterGenesisConfig \<Rightarrow> MaxInt32 | AfterChronicleConfig \<Rightarrow> MaxInt32)"

lemmas config_defs = cfg_AfterGenesis_def cfg_AfterChronicle_def MaxStackSize_def MaxScriptSize_def
  MaxScriptElementSize_def MaxScriptNumberLength_def MaxOps_def MaxPubKeysPerMultiSig_def

text \<open>\<open>newStack\<close> of \<^verbatim>\<open>stack.go\<close>, which takes its limits from the configuration.\<close>

definition newStack :: "config \<Rightarrow> bool \<Rightarrow> stack" where
  "newStack cfg verifyMinimal = \<lparr>stk = [], maxNumLength = MaxScriptNumberLength cfg,
     stAfterGenesis = cfg_AfterGenesis cfg, verifyMinimalData = verifyMinimal\<rparr>"

subsection \<open>Flags as sets of bits\<close>

lemma HasAny_iff: "HasAny s fs \<longleftrightarrow> (\<exists>f\<in>set fs. HasFlag s f)"
  by (induction fs) (auto simp: HasFlag_def)

lemma HasFlag_bits: "HasFlag s f \<longleftrightarrow> (\<forall>n. bit f n \<longrightarrow> bit s n)"
proof
  assume "HasFlag s f"
  then have "s AND f = f" by (simp add: HasFlag_def)
  then show "\<forall>n. bit f n \<longrightarrow> bit s n" using bit_and_iff [of s f] by metis
next
  assume *: "\<forall>n. bit f n \<longrightarrow> bit s n"
  show "HasFlag s f"
    unfolding HasFlag_def by (rule bit_word_eqI) (use * in \<open>auto simp: bit_and_iff\<close>)
qed

lemma HasFlag_AddFlag: "HasFlag (AddFlag s f) g \<longleftrightarrow> (\<forall>n. bit g n \<longrightarrow> bit s n \<or> bit f n)"
  by (simp add: HasFlag_bits AddFlag_def bit_or_iff)

end
