(* ===== verification/Opcode_Parser.thy ===== *)
theory Opcode_Parser
  imports Opcodes Script_Config
begin

text \<open>
  \<^verbatim>\<open>script/interpreter/opcodeparser.go\<close>: parsing of a script into opcodes with their data, and back.

  As in the code the parser makes two passes over the bytes: \<open>count_ops\<close> checks the push lengths and counts,
  \<open>parse_ops\<close> collects. Positions only grow (\<open>advancePosition_bounds\<close>), so both loops end. The main
  results: unparsing gives back the parsed script, byte for byte, and the second pass never fails on a
  script that the first one accepted.
\<close>

record ParsedOpcode =
  op :: opcode
  Data :: bytes

type_synonym ParsedScript = "ParsedOpcode list"

definition IsDisabled :: "ParsedOpcode \<Rightarrow> bool" where
  "IsDisabled o' = (opval (op o') = Op2MUL \<or> opval (op o') = Op2DIV)"

definition RequiresTx :: "ParsedOpcode \<Rightarrow> bool" where
  "RequiresTx o' = (opval (op o') = OpCHECKSIG \<or> opval (op o') = OpCHECKSIGVERIFY
     \<or> opval (op o') = OpCHECKMULTISIG \<or> opval (op o') = OpCHECKMULTISIGVERIFY
     \<or> opval (op o') = OpCHECKSEQUENCEVERIFY)"

definition AlwaysIllegal :: "ParsedOpcode \<Rightarrow> bool" where
  "AlwaysIllegal o' = (opval (op o') = OpVERIF \<or> opval (op o') = OpVERNOTIF)"

definition IsConditional :: "ParsedOpcode \<Rightarrow> bool" where
  "IsConditional o' = (opval (op o') = OpIF \<or> opval (op o') = OpNOTIF \<or> opval (op o') = OpELSE
     \<or> opval (op o') = OpENDIF \<or> opval (op o') = OpVERIF \<or> opval (op o') = OpVERNOTIF)"

definition enforceMinimumDataPush :: "ParsedOpcode \<Rightarrow> 's fault + unit" where
  "enforceMinimumDataPush o' =
     (let dataLen = length (Data o'); d0 = Data o' ! 0; val = opval (op o')
      in if dataLen = 0 \<and> val \<noteq> Op0 then Inl (Fail ErrMinimalData)
         else if dataLen = 1 \<and> (1 \<le> d0 \<and> d0 \<le> 16) \<and> val \<noteq> Op1 + d0 - 1 then Inl (Fail ErrMinimalData)
         else if dataLen = 1 \<and> d0 = 0x81 \<and> val \<noteq> Op1NEGATE then Inl (Fail ErrMinimalData)
         else if dataLen \<le> 75 then
           (if unat val \<noteq> dataLen then Inl (Fail ErrMinimalData) else Inr ())
         else if dataLen \<le> 255 then
           (if val \<noteq> OpPUSHDATA1 then Inl (Fail ErrMinimalData) else Inr ())
         else if dataLen \<le> 65535 then
           (if val \<noteq> OpPUSHDATA2 then Inl (Fail ErrMinimalData) else Inr ())
         else Inr ())"

text \<open>The result and the updated depth.\<close>

definition updateConditionalDepth :: "byte \<Rightarrow> int \<Rightarrow> bool \<times> int" where
  "updateConditionalDepth b depth =
     (if b = OpIF \<or> b = OpNOTIF \<or> b = OpVERIF \<or> b = OpVERNOTIF then (False, depth + 1)
      else if b = OpENDIF then (False, if depth > 0 then depth - 1 else depth)
      else if b = OpRETURN then (depth = 0, depth)
      else (False, depth))"

definition advancePosition :: "bytes \<Rightarrow> nat \<Rightarrow> byte \<Rightarrow> 's fault + nat" where
  "advancePosition scr i b =
     (if b = OpPUSHDATA1 then
        if length scr < i + 2 then Inl (Fail ErrMalformedPush)
        else let dataLen = unat (scr ! (i + 1)); newPos = i + 2 + dataLen
             in if newPos > length scr then Inl (Fail ErrMalformedPush) else Inr newPos
      else if b = OpPUSHDATA2 then
        if length scr < i + 3 then Inl (Fail ErrMalformedPush)
        else let dataLen = unat (Uint16 (drop (i + 1) scr)); newPos = i + 3 + dataLen
             in if newPos > length scr then Inl (Fail ErrMalformedPush) else Inr newPos
      else if b = OpPUSHDATA4 then
        if length scr < i + 5 then Inl (Fail ErrMalformedPush)
        else let dataLen = unat (Uint32 (drop (i + 1) scr)); newPos = i + 5 + dataLen
             in if newPos > length scr then Inl (Fail ErrMalformedPush) else Inr newPos
      else
        let len = oplength (opcode_at b)
        in if len > 1 then
             if int i + len > int (length scr) then Inl (Fail ErrMalformedPush) else Inr (i + nat len)
           else Inr (i + 1))"

lemma advancePosition_bounds:
  assumes "advancePosition scr i b = Inr j" "i < length scr"
  shows "i < j \<and> j \<le> length scr"
  using assms by (auto simp: advancePosition_def Let_def split: if_splits)

text \<open>First pass: count the opcodes.\<close>

function count_ops :: "bytes \<Rightarrow> nat \<Rightarrow> int \<Rightarrow> nat \<Rightarrow> 's fault + nat" where
  "count_ops scr i conditionalDepth opcodeCount =
     (if i < length scr then
        let instruction = scr ! i; o' = opcode_at instruction;
            (isOpReturnOutsideConditional, depth') = updateConditionalDepth (opval o') conditionalDepth
        in if isOpReturnOutsideConditional then Inr (opcodeCount + 1)
           else if opval o' = OpRETURN then count_ops scr (i + 1) depth' (opcodeCount + 1)
           else rbind (advancePosition scr i instruction) (\<lambda>newPos.
             count_ops scr newPos depth' (opcodeCount + 1))
      else Inr opcodeCount)"
  by pat_completeness auto
termination
  by (relation "measure (\<lambda>(scr, i, _). length scr - i)")
    (auto dest!: advancePosition_bounds)

text \<open>The data of the opcode at position \<open>i\<close> (the \<open>switch\<close> of the second pass).\<close>

definition opcode_data :: "bytes \<Rightarrow> nat \<Rightarrow> opcode \<Rightarrow> bytes" where
  "opcode_data scr i o' =
     (if opval o' = OpPUSHDATA1 then
        if length scr \<ge> i + 2 then
          let dataLen = unat (scr ! (i + 1))
          in if length scr \<ge> i + 2 + dataLen then take dataLen (drop (i + 2) scr) else []
        else []
      else if opval o' = OpPUSHDATA2 then
        if length scr \<ge> i + 3 then
          let dataLen = unat (Uint16 (drop (i + 1) scr))
          in if length scr \<ge> i + 3 + dataLen then take dataLen (drop (i + 3) scr) else []
        else []
      else if opval o' = OpPUSHDATA4 then
        if length scr \<ge> i + 5 then
          let dataLen = unat (Uint32 (drop (i + 1) scr))
          in if length scr \<ge> i + 5 + dataLen then take dataLen (drop (i + 5) scr) else []
        else []
      else if oplength o' > 1 \<and> int (length (drop i scr)) \<ge> oplength o' then
        take (nat (oplength o') - 1) (drop (i + 1) scr)
      else [])"

function parse_ops ::
  "bool \<Rightarrow> bytes \<Rightarrow> nat \<Rightarrow> int \<Rightarrow> ParsedScript \<Rightarrow> 's fault + ParsedScript" where
  "parse_ops errorOnCheckSig scr i conditionalBlock parsedOps =
     (if i < length scr then
        let instruction = scr ! i; parsedOp = \<lparr>op = opcode_at instruction, Data = []\<rparr>
        in if errorOnCheckSig \<and> RequiresTx parsedOp then Inl (Fail ErrInvalidParams)
           else
             let (isOpReturnOutsideConditional, block') =
                   updateConditionalDepth (opval (op parsedOp)) conditionalBlock
             in if isOpReturnOutsideConditional then
                  Inr (parsedOps @
                    [if i + 1 < length scr then
                       parsedOp\<lparr>Data := drop (i + 1) scr,
                         op := (op parsedOp)\<lparr>oplength := 1 + int (length (drop (i + 1) scr))\<rparr>\<rparr>
                     else parsedOp])
                else rbind (advancePosition scr i instruction) (\<lambda>newPos.
                  parse_ops errorOnCheckSig scr newPos block'
                    (parsedOps @ [parsedOp\<lparr>Data := opcode_data scr i (op parsedOp)\<rparr>]))
      else Inr parsedOps)"
  by pat_completeness auto
termination
  by (relation "measure (\<lambda>(_, scr, i, _). length scr - i)")
    (auto dest!: advancePosition_bounds)

declare count_ops.simps [simp del] parse_ops.simps [simp del]

definition Parse :: "bool \<Rightarrow> bytes \<Rightarrow> 's fault + ParsedScript" where
  "Parse errorOnCheckSig scr =
     rbind (count_ops scr 0 0 0) (\<lambda>_. parse_ops errorOnCheckSig scr 0 0 [])"

text \<open>\<^verbatim>\<open>ParsedOpcode.bytes\<close>. \<open>byte(l)\<close> and the shifted bytes of \<open>l\<close> are the low bytes of its little-endian form.\<close>

definition pop_bytes :: "ParsedOpcode \<Rightarrow> 's fault + bytes" where
  "pop_bytes o' =
     (let len = oplength (op o'); l = length (Data o'); ret0 = [opval (op o')]
      in if len = 1 then (if l \<noteq> 0 then Inl (Fail ErrInternal) else Inr ret0)
         else
           let (ret1, nbytes) =
             (if len = - 1 then
                (ret0 @ le_bytes 1 l, int (le_val (le_bytes 1 l)) + 2)
              else if len = - 2 then
                (ret0 @ le_bytes 2 l, int (unat (Uint16 (le_bytes 2 l))) + 3)
              else if len = - 4 then
                (ret0 @ le_bytes 4 l, int (unat (Uint32 (le_bytes 4 l))) + 5)
              else (ret0, len))
           in if int (length (ret1 @ Data o')) \<noteq> nbytes then Inl (Fail ErrInternal)
              else Inr (ret1 @ Data o'))"

primrec unparse_loop :: "ParsedScript \<Rightarrow> bytes \<Rightarrow> 's fault + bytes" where
  "unparse_loop [] scr = Inr scr"
| "unparse_loop (pop # pops) scr = rbind (pop_bytes pop) (\<lambda>b. unparse_loop pops (scr @ b))"

definition Unparse :: "ParsedScript \<Rightarrow> 's fault + bytes" where
  "Unparse pscr = unparse_loop pscr []"

primrec IsPushOnly :: "ParsedScript \<Rightarrow> bool" where
  "IsPushOnly [] = True"
| "IsPushOnly (o' # p) = (if opval (op o') > Op16 then False else IsPushOnly p)"

definition canonicalPush :: "ParsedOpcode \<Rightarrow> bool" where
  "canonicalPush o' =
     (let val = opval (op o'); data = Data o'; dataLen = length data
      in if val > Op16 then True
         else if val < OpPUSHDATA1 \<and> val > Op0 \<and> (dataLen = 1 \<and> data ! 0 \<le> 16) then False
         else if val = OpPUSHDATA1 \<and> dataLen < unat OpPUSHDATA1 then False
         else if val = OpPUSHDATA2 \<and> dataLen \<le> 0xff then False
         else if val = OpPUSHDATA4 \<and> dataLen \<le> 0xffff then False
         else True)"

text \<open>\<^verbatim>\<open>bytes.Contains\<close> of the standard library.\<close>

definition bytes_Contains :: "bytes \<Rightarrow> bytes \<Rightarrow> bool" where
  "bytes_Contains s sub = list_ex (\<lambda>i. take (length sub) (drop i s) = sub) [0..<Suc (length s)]"

definition removeOpcodeByData :: "ParsedScript \<Rightarrow> bytes \<Rightarrow> ParsedScript" where
  "removeOpcodeByData p data = filter (\<lambda>pop. \<not> canonicalPush pop \<or> \<not> bytes_Contains (Data pop) data) p"

definition removeOpcode :: "ParsedScript \<Rightarrow> byte \<Rightarrow> ParsedScript" where
  "removeOpcode p b = filter (\<lambda>pop. opval (op pop) \<noteq> b) p"

subsection \<open>One opcode: its bytes are the ones it was parsed from\<close>

lemma Cons_take_drop:
  "i < length xs \<Longrightarrow> xs ! i # take k (drop (Suc i) xs) = take (Suc k) (drop i xs)"
  by (metis Cons_nth_drop_Suc take_Suc_Cons)

lemma unat_Uint16: "unat (Uint16 bs) = le_val (take 2 bs)"
proof -
  have "le_val (take 2 bs) < 256 ^ 2"
    using le_val_less [of "take 2 bs"] power_increasing [of "length (take 2 bs)" 2 "256 :: nat"]
    by (simp add: less_le_trans)
  then show ?thesis by (simp add: Uint16_def unsigned_of_nat take_bit_eq_mod)
qed

lemma unat_Uint32: "unat (Uint32 bs) = le_val (take 4 bs)"
proof -
  have "le_val (take 4 bs) < 256 ^ 4"
    using le_val_less [of "take 4 bs"] power_increasing [of "length (take 4 bs)" 4 "256 :: nat"]
    by (simp add: less_le_trans)
  then show ?thesis by (simp add: Uint32_def unsigned_of_nat take_bit_eq_mod)
qed

lemma le_bytes_take:
  "k \<le> length bs \<Longrightarrow> le_bytes k (le_val (take k bs)) = take k bs"
  using le_bytes_le_val [of "take k bs"] by simp

lemma le_bytes_byte: "le_bytes (Suc 0) (unat b) = [b]"
  by simp

text \<open>The three layouts: no data, fixed data, data after a little-endian length.\<close>

lemma pop_bytes_prefixed:
  assumes "i + 1 + k \<le> length scr" "l = le_val (take k (drop (i + 1) scr))"
    "i + 1 + k + l \<le> length scr"
  shows "scr ! i # le_bytes k l @ take l (drop (i + 1 + k) scr) = take (1 + k + l) (drop i scr)"
proof -
  have "le_bytes k l = take k (drop (Suc i) scr)"
    using assms le_bytes_take [of k "drop (i + 1) scr"] by simp
  moreover have "take (1 + k + l) (drop i scr)
      = scr ! i # take (k + l) (drop (Suc i) scr)"
    using assms(1) Cons_take_drop [of i scr "k + l"] by simp
  ultimately show ?thesis
    by (simp add: take_add add.commute)
qed

lemma opcode_length_cases:
  "opcode_length b = 1 \<or> 1 < opcode_length b \<or> b = OpPUSHDATA1 \<or> b = OpPUSHDATA2 \<or> b = OpPUSHDATA4"
  by (auto simp: opcode_length_def word_le_def)

lemma pop_bytes_parsed:
  assumes "advancePosition scr i (scr ! i) = (Inr j :: 't fault + nat)" "i < length scr"
  shows "pop_bytes \<lparr>op = opcode_at (scr ! i), Data = opcode_data scr i (opcode_at (scr ! i))\<rparr>
     = Inr (take (j - i) (drop i scr))"
proof -
  let ?b = "scr ! i"
  consider (p1) "?b = OpPUSHDATA1" | (p2) "?b = OpPUSHDATA2" | (p4) "?b = OpPUSHDATA4"
    | (fixed) "1 < opcode_length ?b" "?b \<noteq> OpPUSHDATA1" "?b \<noteq> OpPUSHDATA2" "?b \<noteq> OpPUSHDATA4"
    | (none) "opcode_length ?b = 1" "?b \<noteq> OpPUSHDATA1" "?b \<noteq> OpPUSHDATA2" "?b \<noteq> OpPUSHDATA4"
    using opcode_length_cases [of ?b] by auto
  then show ?thesis
  proof cases
    case p1
    let ?l = "unat (scr ! (i + 1))"
    have *: "i + 2 \<le> length scr" "j = i + 2 + ?l" "i + 2 + ?l \<le> length scr"
      using assms p1 by (auto simp: advancePosition_def Let_def split: if_splits)
    then have "take 1 (drop (i + 1) scr) = [scr ! (i + 1)]"
      using Cons_nth_drop_Suc [of "i + 1" scr] by (metis One_nat_def Suc_1 Suc_le_lessD add_Suc_right
          take0 take_Suc_Cons)
    then show ?thesis
      using * p1 pop_bytes_prefixed [of i 1 scr ?l]
      by (simp add: pop_bytes_def opcode_data_def opcode_length_def Let_def)
  next
    case p2
    let ?l = "le_val (take 2 (drop (i + 1) scr))"
    have *: "i + 3 \<le> length scr" "j = i + 3 + ?l" "i + 3 + ?l \<le> length scr"
      using assms p2 by (auto simp: advancePosition_def Let_def unat_Uint16 split: if_splits)
    then show ?thesis
      using p2 pop_bytes_prefixed [of i 2 scr ?l] le_bytes_take [of 2 "drop (i + 1) scr"]
      by (simp add: numeral_3_eq_3 pop_bytes_def opcode_data_def opcode_length_def Let_def unat_Uint16)
  next
    case p4
    let ?l = "le_val (take 4 (drop (i + 1) scr))"
    have *: "i + 5 \<le> length scr" "j = i + 5 + ?l" "i + 5 + ?l \<le> length scr"
      using assms p4 by (auto simp: advancePosition_def Let_def unat_Uint32 split: if_splits)
    then show ?thesis
      using p4 pop_bytes_prefixed [of i 4 scr ?l] le_bytes_take [of 4 "drop (i + 1) scr"]
      by (simp add: add.commute [of i] pop_bytes_def opcode_data_def opcode_length_def Let_def unat_Uint32)
  next
    case fixed
    then have *: "int i + opcode_length ?b \<le> int (length scr)" "j = i + nat (opcode_length ?b)"
      using assms by (auto simp: advancePosition_def Let_def split: if_splits)
    obtain n where n: "opcode_length ?b = int (Suc n)" "0 < n"
      using fixed(1) that [of "nat (opcode_length ?b - 1)"] by simp
    then have "nat (opcode_length ?b) = Suc n" by simp
    then show ?thesis
      using * n fixed assms(2) Cons_take_drop [of i scr n]
      by (simp add: pop_bytes_def opcode_data_def Let_def del: of_nat_Suc)
  next
    case none
    then have "j = i + 1"
      using assms by (auto simp: advancePosition_def Let_def split: if_splits)
    then show ?thesis
      using none assms(2) Cons_take_drop [of i scr 0]
      by (simp add: pop_bytes_def opcode_data_def Let_def)
  qed
qed

subsection \<open>Whole scripts\<close>

lemma unparse_loop_append:
  "unparse_loop (xs @ ys) b = rbind (unparse_loop xs b) (unparse_loop ys)"
  by (induction xs arbitrary: b) (auto simp: rbind_assoc)

abbreviation parsed_at :: "bytes \<Rightarrow> nat \<Rightarrow> ParsedOpcode" where
  "parsed_at scr i \<equiv> \<lparr>op = opcode_at (scr ! i), Data = opcode_data scr i (opcode_at (scr ! i))\<rparr>"

definition return_at :: "bytes \<Rightarrow> nat \<Rightarrow> ParsedOpcode" where
  "return_at scr i = (if i + 1 < length scr then
     \<lparr>op = (opcode_at (scr ! i))\<lparr>oplength := 1 + int (length (drop (i + 1) scr))\<rparr>, Data = drop (i + 1) scr\<rparr>
     else \<lparr>op = opcode_at (scr ! i), Data = []\<rparr>)"

text \<open>The loops unfold into one of three cases at each position.\<close>

lemma parse_ops_end: "length scr \<le> i \<Longrightarrow> parse_ops e scr i d acc = Inr acc"
  by (subst parse_ops.simps) simp

lemma parse_ops_return:
  assumes "i < length scr" "updateConditionalDepth (scr ! i) d = (True, d')"
  shows "parse_ops e scr i d acc = Inr (acc @ [return_at scr i])"
proof -
  have "scr ! i = OpRETURN"
    using assms(2) by (auto simp: updateConditionalDepth_def split: if_splits)
  then show ?thesis
    using assms by (subst parse_ops.simps) (simp add: Let_def return_at_def RequiresTx_def)
qed

lemma parse_ops_step:
  assumes "i < length scr" "updateConditionalDepth (scr ! i) d = (False, d')"
  shows "parse_ops e scr i d acc = (if e \<and> RequiresTx (parsed_at scr i) then Inl (Fail ErrInvalidParams)
     else rbind (advancePosition scr i (scr ! i)) (\<lambda>j. parse_ops e scr j d' (acc @ [parsed_at scr i])))"
  using assms by (subst parse_ops.simps) (auto simp: Let_def RequiresTx_def)

lemma count_ops_end: "length scr \<le> i \<Longrightarrow> count_ops scr i d n = Inr n"
  by (subst count_ops.simps) simp

lemma count_ops_return:
  assumes "i < length scr" "updateConditionalDepth (scr ! i) d = (True, d')"
  shows "count_ops scr i d n = Inr (n + 1)"
  using assms by (subst count_ops.simps) (simp add: Let_def)

lemma count_ops_step:
  assumes "i < length scr" "updateConditionalDepth (scr ! i) d = (False, d')"
  shows "count_ops scr i d n = rbind (advancePosition scr i (scr ! i)) (\<lambda>j. count_ops scr j d' (n + 1))"
proof (cases "scr ! i = OpRETURN")
  case True
  then show ?thesis
    using assms by (subst count_ops.simps) (simp add: Let_def advancePosition_def opcode_length_def)
next
  case False
  then show ?thesis
    using assms by (subst count_ops.simps) (simp add: Let_def)
qed

lemma advancePosition_fails: "advancePosition scr i b = Inl e \<Longrightarrow> e = Fail ErrMalformedPush"
  by (auto simp: advancePosition_def Let_def split: if_splits)

lemma advancePosition_Inr_any:
  "advancePosition scr i b = (Inr j :: 's fault + nat) \<Longrightarrow> advancePosition scr i b = (Inr j :: 't fault + nat)"
  by (auto simp: advancePosition_def Let_def split: if_splits)

lemma script_position_cases:
  obtains (stop) "length scr \<le> i"
    | (ret) d' where "i < length scr" "updateConditionalDepth (scr ! i) d = (True, d')"
    | (cont) d' where "i < length scr" "updateConditionalDepth (scr ! i) d = (False, d')"
  by (cases "updateConditionalDepth (scr ! i) d"; cases "i < length scr") (auto simp: linorder_not_less)

lemma pop_bytes_return_at:
  assumes "i < length scr" "updateConditionalDepth (scr ! i) d = (True, d')"
  shows "pop_bytes (return_at scr i) = Inr (drop i scr)"
proof -
  have "scr ! i = OpRETURN"
    using assms(2) by (auto simp: updateConditionalDepth_def split: if_splits)
  then show ?thesis
    using assms(1) Cons_nth_drop_Suc [OF assms(1)]
    by (auto simp: return_at_def pop_bytes_def Let_def opcode_length_def)
qed

lemma parse_ops_unparse:
  assumes "parse_ops e scr i d acc = (Inr ps :: 't fault + ParsedScript)"
    "unparse_loop acc [] = (Inr (take i scr) :: 's fault + bytes)"
  shows "unparse_loop ps [] = (Inr scr :: 's fault + bytes)"
  using assms
proof (induction "length scr - i" arbitrary: i d acc rule: less_induct)
  case less
  show ?case
  proof (cases rule: script_position_cases [where scr = scr and i = i and d = d])
    case stop
    then show ?thesis using less.prems by (simp add: parse_ops_end)
  next
    case (ret d')
    then have ps: "ps = acc @ [return_at scr i]"
      using less.prems(1) parse_ops_return by (metis sum.inject(2))
    show ?thesis
      using less.prems(2) by (simp add: ps unparse_loop_append pop_bytes_return_at [OF ret])
  next
    case (cont d')
    then obtain j where j: "advancePosition scr i (scr ! i) = (Inr j :: 't fault + nat)"
      and rec: "parse_ops e scr j d' (acc @ [parsed_at scr i]) = (Inr ps :: 't fault + ParsedScript)"
      using less.prems(1) by (auto simp: parse_ops_step res_simps split: if_splits)
    note jb = advancePosition_bounds [OF j cont(1)]
    have "take i scr @ take (j - i) (drop i scr) = take j scr"
      using jb by (metis le_add_diff_inverse less_or_eq_imp_le take_add)
    then have "unparse_loop (acc @ [parsed_at scr i]) [] = (Inr (take j scr) :: 's fault + bytes)"
      using less.prems(2) by (simp add: unparse_loop_append pop_bytes_parsed [OF j cont(1)])
    then show ?thesis
      using jb by (intro less.hyps [OF _ rec]) auto
  qed
qed

lemma count_ops_fails: "count_ops scr i d n = Inl e \<Longrightarrow> e = Fail ErrMalformedPush"
proof (induction "length scr - i" arbitrary: i d n rule: less_induct)
  case less
  show ?case
  proof (cases rule: script_position_cases [where scr = scr and i = i and d = d])
    case (cont d')
    then consider "advancePosition scr i (scr ! i) = Inl e"
      | j where "advancePosition scr i (scr ! i) = (Inr j :: 'a fault + nat)" "count_ops scr j d' (n + 1) = Inl e"
      using less.prems by (auto simp: count_ops_step res_simps)
    then show ?thesis
    proof cases
      case 2
      then show ?thesis
        using advancePosition_bounds [OF 2(1) cont(1)] by (intro less.hyps [OF _ 2(2)]) auto
    qed (rule advancePosition_fails)
  qed (use less.prems in \<open>auto simp: count_ops_end count_ops_return\<close>)
qed

lemma parse_ops_fails:
  "parse_ops e' scr i d acc = Inl e \<Longrightarrow> e = Fail ErrMalformedPush \<or> e = Fail ErrInvalidParams"
proof (induction "length scr - i" arbitrary: i d acc rule: less_induct)
  case less
  show ?case
  proof (cases rule: script_position_cases [where scr = scr and i = i and d = d])
    case (cont d')
    then consider "e = Fail ErrInvalidParams" | "advancePosition scr i (scr ! i) = Inl e"
      | j where "advancePosition scr i (scr ! i) = (Inr j :: 'a fault + nat)"
        "parse_ops e' scr j d' (acc @ [parsed_at scr i]) = Inl e"
      using less.prems by (auto simp: parse_ops_step res_simps split: if_splits)
    then show ?thesis
    proof cases
      case 3
      then show ?thesis
        using advancePosition_bounds [OF 3(1) cont(1)] by (intro less.hyps [OF _ 3(2)]) auto
    qed (auto dest: advancePosition_fails)
  qed (use less.prems in \<open>auto simp: parse_ops_end parse_ops_return\<close>)
qed

lemma count_then_parse:
  assumes "count_ops scr i d (length acc) = (Inr m :: 't fault + nat)"
  shows "\<exists>ps. parse_ops False scr i d acc = (Inr ps :: 's fault + ParsedScript) \<and> length ps = m"
  using assms
proof (induction "length scr - i" arbitrary: i d acc rule: less_induct)
  case less
  show ?case
  proof (cases rule: script_position_cases [where scr = scr and i = i and d = d])
    case (cont d')
    then obtain j where j: "advancePosition scr i (scr ! i) = (Inr j :: 't fault + nat)"
      and rec: "count_ops scr j d' (length (acc @ [parsed_at scr i])) = (Inr m :: 't fault + nat)"
      using less.prems by (auto simp: count_ops_step res_simps)
    have "\<exists>ps. parse_ops False scr j d' (acc @ [parsed_at scr i])
        = (Inr ps :: 's fault + ParsedScript) \<and> length ps = m"
      using advancePosition_bounds [OF j cont(1)] by (intro less.hyps [OF _ rec]) auto
    then show ?thesis
      using cont advancePosition_Inr_any [OF j, where 't = 's] by (simp add: parse_ops_step)
  qed (use less.prems in \<open>auto simp: count_ops_end count_ops_return parse_ops_end parse_ops_return\<close>)
qed

lemma parse_ops_all:
  assumes "parse_ops e scr i d acc = Inr ps" "\<forall>p\<in>set acc. P p"
    "\<And>i. i < length scr \<Longrightarrow> \<not> (e \<and> RequiresTx (parsed_at scr i)) \<Longrightarrow> P (parsed_at scr i)"
    "\<And>i. i < length scr \<Longrightarrow> scr ! i = OpRETURN \<Longrightarrow> P (return_at scr i)"
  shows "\<forall>p\<in>set ps. P p"
  using assms(1,2)
proof (induction "length scr - i" arbitrary: i d acc rule: less_induct)
  case less
  show ?case
  proof (cases rule: script_position_cases [where scr = scr and i = i and d = d])
    case stop
    then show ?thesis using less.prems by (simp add: parse_ops_end)
  next
    case (ret d')
    then have "scr ! i = OpRETURN"
      by (auto simp: updateConditionalDepth_def split: if_splits)
    then show ?thesis using ret less.prems assms(4) [of i] by (auto simp: parse_ops_return)
  next
    case (cont d')
    then obtain j where j: "advancePosition scr i (scr ! i) = (Inr j :: 'a fault + nat)"
      and rec: "parse_ops e scr j d' (acc @ [parsed_at scr i]) = (Inr ps :: 'a fault + ParsedScript)"
      and e: "\<not> (e \<and> RequiresTx (parsed_at scr i))"
      using less.prems(1) by (auto simp: parse_ops_step res_simps split: if_splits)
    show ?thesis
      using advancePosition_bounds [OF j cont(1)] less.prems(2) assms(3) [OF cont(1) e]
      by (intro less.hyps [OF _ rec]) auto
  qed
qed

lemma parse_ops_weaken:
  assumes "parse_ops e scr i d acc = (Inr ps :: 't fault + ParsedScript)"
  shows "parse_ops False scr i d acc = (Inr ps :: 't fault + ParsedScript)"
  using assms
proof (induction "length scr - i" arbitrary: i d acc rule: less_induct)
  case less
  show ?case
  proof (cases rule: script_position_cases [where scr = scr and i = i and d = d])
    case (cont d')
    then obtain j where j: "advancePosition scr i (scr ! i) = (Inr j :: 't fault + nat)"
      and rec: "parse_ops e scr j d' (acc @ [parsed_at scr i]) = (Inr ps :: 't fault + ParsedScript)"
      using less.prems(1) by (auto simp: parse_ops_step res_simps split: if_splits)
    have "parse_ops False scr j d' (acc @ [parsed_at scr i]) = (Inr ps :: 't fault + ParsedScript)"
      using advancePosition_bounds [OF j cont(1)] by (intro less.hyps [OF _ rec]) auto
    then show ?thesis using cont j by (simp add: parse_ops_step)
  qed (use less.prems in \<open>auto simp: parse_ops_end parse_ops_return\<close>)
qed

text \<open>(C27) The parser loses nothing: when \<open>Parse\<close> accepts a script, \<open>Unparse\<close> of its result succeeds and is
  the script, byte for byte (push lengths of every width, the bytes after a top-level OP_RETURN included),
  and the number of opcodes is the one the counting pass announced.\<close>

theorem Unparse_Parse:
  assumes "Parse e scr = (Inr ps :: 's fault + ParsedScript)"
  shows "Unparse ps = (Inr scr :: 's fault + bytes)
    \<and> (Inr (length ps) :: 's fault + nat) = count_ops scr 0 0 0"
proof -
  obtain m where m: "count_ops scr 0 0 (length ([] :: ParsedScript)) = (Inr m :: 's fault + nat)"
    and p: "parse_ops e scr 0 0 [] = (Inr ps :: 's fault + ParsedScript)"
    using assms by (auto simp: Parse_def res_simps)
  have "length ps = m"
    using count_then_parse [OF m, where 's = 's] parse_ops_weaken [OF p] by auto
  then show ?thesis
    using parse_ops_unparse [OF p, where 's = 's] m by (simp add: Unparse_def)
qed

theorem Unparse_Parse_witness:
  "\<exists>ps. Parse False [0x4c, 2, 0xaa, 0xbb, 0x63, 0x6a, 0x68, 0x6a, 0x01] = (Inr ps :: unit fault + _)
     \<and> length ps = 5
     \<and> Unparse ps = (Inr [0x4c, 2, 0xaa, 0xbb, 0x63, 0x6a, 0x68, 0x6a, 0x01] :: unit fault + _)"
proof -
  let ?scr = "[0x4c, 2, 0xaa, 0xbb, 0x63, 0x6a, 0x68, 0x6a, 0x01] :: bytes"
  have "is_ok (Parse False ?scr :: unit fault + _)"
    and c: "count_ops ?scr 0 0 0 = (Inr 5 :: unit fault + nat)"
    by code_simp+
  then obtain ps where ps: "Parse False ?scr = (Inr ps :: unit fault + _)"
    by (auto simp: is_ok_iff)
  then show ?thesis
    using Unparse_Parse [OF ps] c by auto
qed

text \<open>Without the check for signature opcodes the parser fails in one way only, a malformed push, and
  only in its first pass: the error return of the second pass, which a comment calls unreachable, is so. With
  the check, an accepted script has none of the opcodes that need a transaction.\<close>

theorem Parse_result:
  "(case (Parse False scr :: 's fault + ParsedScript) of
      Inl e \<Rightarrow> e = Fail ErrMalformedPush \<and> count_ops scr 0 0 0 = (Inl (Fail ErrMalformedPush) :: 's fault + nat)
    | Inr ps \<Rightarrow> is_ok (count_ops scr 0 0 0 :: 's fault + nat))
   \<and> (case (Parse True scr :: 's fault + ParsedScript) of
        Inl e \<Rightarrow> e = Fail ErrMalformedPush \<or> e = Fail ErrInvalidParams
      | Inr ps \<Rightarrow> Parse False scr = (Inr ps :: 's fault + ParsedScript) \<and> list_all (\<lambda>p. \<not> RequiresTx p) ps)"
proof (cases "count_ops scr 0 0 0 :: 's fault + nat")
  case (Inl e)
  then show ?thesis
    using count_ops_fails [OF Inl] by (simp add: Parse_def)
next
  case (Inr m)
  then have "\<exists>ps. parse_ops False scr 0 0 [] = (Inr ps :: 's fault + ParsedScript) \<and> length ps = m"
    using count_then_parse [of scr 0 0 "[]" m, where 't = 's and 's = 's] by simp
  then obtain ps where ps: "parse_ops False scr 0 0 [] = (Inr ps :: 's fault + ParsedScript)" by auto
  have "(case (parse_ops True scr 0 0 [] :: 's fault + ParsedScript) of
        Inl e \<Rightarrow> e = Fail ErrMalformedPush \<or> e = Fail ErrInvalidParams
      | Inr ps' \<Rightarrow> ps' = ps \<and> list_all (\<lambda>p. \<not> RequiresTx p) ps')"
  proof (cases "parse_ops True scr 0 0 [] :: 's fault + ParsedScript")
    case (Inl e)
    then show ?thesis using parse_ops_fails [OF Inl] by simp
  next
    case (Inr qs)
    have "\<forall>p\<in>set qs. \<not> RequiresTx p"
      by (rule parse_ops_all [OF Inr]) (auto simp: return_at_def RequiresTx_def)
    then show ?thesis
      using Inr parse_ops_weaken [OF Inr] ps by (simp add: list_all_iff)
  qed
  then show ?thesis
    using Inr ps by (simp add: Parse_def split: sum.splits)
qed

subsection \<open>Minimal pushes\<close>

text \<open>The specification, on opcode values as numbers: the opcode of the shortest push of \<open>d\<close>, the bytes a
  push adds to its data, and which data an opcode can push.\<close>

definition minimal_push_op :: "bytes \<Rightarrow> nat" where
  "minimal_push_op d =
     (if d = [] then 0
      else if length d = 1 \<and> 1 \<le> unat (d ! 0) \<and> unat (d ! 0) \<le> 16 then 0x50 + unat (d ! 0)
      else if length d = 1 \<and> unat (d ! 0) = 0x81 then 0x4F
      else if length d \<le> 75 then length d
      else if length d \<le> 255 then 0x4C
      else if length d \<le> 65535 then 0x4D
      else 0x4E)"

definition push_overhead :: "nat \<Rightarrow> nat" where
  "push_overhead v = (if v = 0x4C then 2 else if v = 0x4D then 3 else if v = 0x4E then 5 else 1)"

definition push_encodes :: "nat \<Rightarrow> bytes \<Rightarrow> bool" where
  "push_encodes v d = (if v = 0x4C then length d < 2 ^ 8 else if v = 0x4D then length d < 2 ^ 16
     else if v = 0x4E then length d < 2 ^ 32 else v < 0x4C \<and> v = length d)"

lemma opcode_length_push:
  assumes n: "unat v = n" and "n \<le> 0x4E"
  shows "opcode_length v = (if n = 0x4C then - 1 else if n = 0x4D then - 2
     else if n = 0x4E then - 4 else int n + 1)"
proof -
  have u: "uint v = int n"
    using arg_cong [OF n, of int] by simp
  have c: "v = 0x4C \<longleftrightarrow> n = 0x4C" "v = 0x4D \<longleftrightarrow> n = 0x4D" "v = 0x4E \<longleftrightarrow> n = 0x4E"
    "1 \<le> v \<longleftrightarrow> 1 \<le> n" "v \<le> 0x4B \<longleftrightarrow> n \<le> 0x4B"
    by (simp_all add: word_unat_eq_iff word_le_nat_alt n)
  show ?thesis
    using assms(2) unfolding opcode_length_def c u by auto
qed

lemma mod_eq_self_iff: "0 < k \<Longrightarrow> n mod k = n \<longleftrightarrow> n < (k :: nat)"
  by (metis mod_less mod_less_divisor)

lemma pop_bytes_push:
  assumes "v \<le> OpPUSHDATA4"
  shows "(case (pop_bytes \<lparr>op = opcode_at v, Data = d\<rparr> :: 's fault + bytes) of
     Inl _ \<Rightarrow> \<not> push_encodes (unat v) d
   | Inr b \<Rightarrow> push_encodes (unat v) d \<and> length b = push_overhead (unat v) + length d)"
proof -
  obtain n where n: "unat v = n" "n \<le> 0x4E"
    using assms by (simp add: word_le_nat_alt)
  note defs = pop_bytes_def Let_def opcode_length_push [OF n] push_encodes_def push_overhead_def
    unat_Uint16 unat_Uint32 le_val_le_bytes mod_eq_self_iff n
  consider "n = 0x4C" | "n = 0x4D" | "n = 0x4E" | "n < 0x4C" using n(2) by linarith
  then show ?thesis
    by cases (auto simp: defs)
qed

lemma push_encodes_shortest:
  assumes "push_encodes v d" "push_encodes w d" "v = minimal_push_op d"
  shows "push_overhead v \<le> push_overhead w"
proof (cases "length d \<le> 75")
  case True
  then have "push_overhead v = 1"
    using assms(1,3) by (auto simp: push_encodes_def push_overhead_def minimal_push_op_def split: if_splits)
  then show ?thesis by (simp add: push_overhead_def)
next
  case False
  then have "w = 0x4C \<and> length d < 2 ^ 8 \<or> w = 0x4D \<and> length d < 2 ^ 16 \<or> w = 0x4E"
    using assms(2) by (auto simp: push_encodes_def split: if_splits)
  moreover have "v = (if length d \<le> 255 then 0x4C else if length d \<le> 65535 then 0x4D else 0x4E)"
    using False assms(3) by (auto simp: minimal_push_op_def)
  ultimately show ?thesis
    by (auto simp: push_overhead_def)
qed

lemma unat_small_int_op: "1 \<le> unat b \<Longrightarrow> unat b \<le> 16 \<Longrightarrow> unat (Op1 + b - 1 :: byte) = 0x50 + unat b"
  by (simp add: unat_word_ariths)

lemma enforce_push:
  assumes "v \<le> OpPUSHDATA4" "push_encodes (unat v) d"
  shows "(enforceMinimumDataPush \<lparr>op = opcode_at v, Data = d\<rparr> = (Inr () :: 's fault + unit))
    = (unat v = minimal_push_op d)"
proof -
  have v: "unat v \<le> 78" using assms by (simp add: word_le_nat_alt)
  show ?thesis
  proof (cases "length d = 1")
    case True
    let ?b = "d ! 0"
    have b: "(1 \<le> ?b \<and> ?b \<le> 16) = (1 \<le> unat ?b \<and> unat ?b \<le> 16)" "(?b = 0x81) = (unat ?b = 0x81)"
      by (auto simp: word_le_nat_alt word_unat_eq_iff)
    have "unat v \<noteq> unat (Op1 + ?b - 1)" if "1 \<le> unat ?b" "unat ?b \<le> 16"
      using v unat_small_int_op [OF that] by simp
    then show ?thesis
      using True v b by (auto simp: enforceMinimumDataPush_def Let_def minimal_push_op_def word_unat_eq_iff)
  next
    case False
    have "unat v = 0x4E" if "65535 < length d"
      using assms(2) that by (auto simp: push_encodes_def split: if_splits)
    then show ?thesis
      using False by (auto simp: enforceMinimumDataPush_def Let_def minimal_push_op_def word_unat_eq_iff)
  qed
qed

text \<open>\<open>enforceMinimumDataPush\<close> on an encodable data push (an opcode up to OP_PUSHDATA4): it
  accepts exactly when the opcode is the shortest way to push the data, where one byte 1 to 16 or 0x81 has an
  opcode of its own and must not be pushed as data. An accepted push is no longer than any other push of the
  same data.\<close>

theorem enforceMinimumDataPush_iff:
  assumes "v \<le> OpPUSHDATA4" "pop_bytes \<lparr>op = opcode_at v, Data = d\<rparr> = (Inr b :: 's fault + bytes)"
  shows "(enforceMinimumDataPush \<lparr>op = opcode_at v, Data = d\<rparr> = (Inr () :: 's fault + unit))
      = (unat v = minimal_push_op d)
    \<and> (unat v = minimal_push_op d \<longrightarrow> (\<forall>w b'. w \<le> OpPUSHDATA4
        \<and> pop_bytes \<lparr>op = opcode_at w, Data = d\<rparr> = (Inr b' :: 's fault + bytes) \<longrightarrow> length b \<le> length b'))"
proof (intro conjI impI allI)
  have enc: "push_encodes (unat v) d" and len: "length b = push_overhead (unat v) + length d"
    using pop_bytes_push [OF assms(1), of d, where 's = 's] assms(2) by auto
  show "length b \<le> length b'" if "unat v = minimal_push_op d" "w \<le> OpPUSHDATA4
      \<and> pop_bytes \<lparr>op = opcode_at w, Data = d\<rparr> = (Inr b' :: 's fault + bytes)" for w b'
    using pop_bytes_push [of w d, where 's = 's] that push_encodes_shortest [OF enc, of "unat w"] len
    by auto
  show "(enforceMinimumDataPush \<lparr>op = opcode_at v, Data = d\<rparr> = (Inr () :: 's fault + unit))
      = (unat v = minimal_push_op d)"
    by (rule enforce_push [OF assms(1) enc])
qed

theorem enforceMinimumDataPush_iff_witness:
  "enforceMinimumDataPush \<lparr>op = opcode_at 0x4C, Data = [7, 7]\<rparr> \<noteq> (Inr () :: unit fault + unit)
   \<and> enforceMinimumDataPush \<lparr>op = opcode_at 2, Data = [7, 7]\<rparr> = (Inr () :: unit fault + unit)"
proof -
  have "pop_bytes \<lparr>op = opcode_at 0x4C, Data = [7, 7]\<rparr> = (Inr [0x4C, 2, 7, 7] :: unit fault + bytes)"
    "pop_bytes \<lparr>op = opcode_at 2, Data = [7, 7]\<rparr> = (Inr [2, 7, 7] :: unit fault + bytes)"
    by (simp_all add: pop_bytes_def opcode_length_def Let_def)
  then show ?thesis
    using enforceMinimumDataPush_iff [of "0x4C" "[7, 7]" "[0x4C, 2, 7, 7]", where 's = unit]
      enforceMinimumDataPush_iff [of 2 "[7, 7]" "[2, 7, 7]", where 's = unit]
    by (simp add: minimal_push_op_def)
qed

end
