(* ===== verification/VarInt.thy ===== *)
theory VarInt
  imports Errs
begin

text \<open>
  \<^verbatim>\<open>util/varint.go\<close>: the variable length integers of the wire format, and reading from a stream.

  An \<open>io.Reader\<close> over a byte slice is the list of bytes that are left. A reader returns the value, the
  number of bytes it counts as read and the bytes left; on an error its callers stop, so what is left then
  does not matter. \<open>make([]byte, l)\<close> panics when \<open>l\<close> is more than the runtime can ever allocate, which for
  64 bit platforms is \<open>2 ^ 48\<close> bytes.

  The locale \<open>reader\<close> is the contract of everything that reads (it consumes a prefix and counts it), the
  locale \<open>codec\<close> extends it with an encoder that the reader undoes. \<open>read_n\<close> is the loop that reads a
  counted sequence; its lemmas are proved once in the locales.
\<close>

definition ReadFull :: "nat \<Rightarrow> bytes \<Rightarrow> 's fault + bytes \<times> int \<times> bytes" where
  "ReadFull k r = (if length r < k then Inl (FailTx ErrEOF) else Inr (take k r, int k, drop k r))"

definition maxAlloc :: nat where
  "maxAlloc = 2 ^ 48"

text \<open>\<^verbatim>\<open>make([]byte, l)\<close> followed by \<^verbatim>\<open>io.ReadFull\<close>.\<close>

definition make_ReadFull :: "u64 \<Rightarrow> bytes \<Rightarrow> 's fault + bytes \<times> int \<times> bytes" where
  "make_ReadFull l r = (if unat l > maxAlloc then Inl Panic else ReadFull (unat l) r)"

primrec read_n ::
  "(bytes \<Rightarrow> 's fault + 'a \<times> int \<times> bytes) \<Rightarrow> nat \<Rightarrow> bytes \<Rightarrow> 's fault + 'a list \<times> int \<times> bytes" where
  "read_n rd 0 r = Inr ([], 0, r)"
| "read_n rd (Suc n) r = rbind (rd r) (\<lambda>(x, k, r').
     rbind (read_n rd n r') (\<lambda>(xs, m, r''). Inr (x # xs, k + m, r'')))"

subsection \<open>VarInt\<close>

type_synonym VarInt = u64

definition NewVarIntFromBytes :: "bytes \<Rightarrow> 's fault + VarInt \<times> int" where
  "NewVarIntFromBytes bb =
     (if bb = [] then Inl Panic
      else if bb ! 0 = 0xff then
        (if length bb < 9 then Inl Panic else Inr (Uint64 (take 8 (drop 1 bb)), 9))
      else if bb ! 0 = 0xfe then
        (if length bb < 5 then Inl Panic else Inr (ucast (Uint32 (take 4 (drop 1 bb))), 5))
      else if bb ! 0 = 0xfd then
        (if length bb < 3 then Inl Panic else Inr (ucast (Uint16 (take 2 (drop 1 bb))), 3))
      else Inr (ucast (Uint16 [bb ! 0, 0]), 1))"

definition VarInt_Length :: "VarInt \<Rightarrow> int" where
  "VarInt_Length v = (if v < 253 then 1 else if v < 65536 then 3 else if v < 4294967296 then 5 else 9)"

definition VarInt_Bytes :: "VarInt \<Rightarrow> bytes" where
  "VarInt_Bytes v =
     (if v < 0xfd then [ucast v]
      else if v < 0x10000 then 0xfd # PutUint16 (ucast v)
      else if v < 0x100000000 then 0xfe # PutUint32 (ucast v)
      else 0xff # PutUint64 v)"

definition VarInt_ReadFrom :: "bytes \<Rightarrow> 's fault + VarInt \<times> int \<times> bytes" where
  "VarInt_ReadFrom r =
     rbind (ReadFull 1 r) (\<lambda>(b, _, r).
       if b ! 0 = 0xff then rbind (ReadFull 8 r) (\<lambda>(bb, _, r). Inr (Uint64 bb, 9, r))
       else if b ! 0 = 0xfe then rbind (ReadFull 4 r) (\<lambda>(bb, _, r). Inr (ucast (Uint32 bb), 5, r))
       else if b ! 0 = 0xfd then rbind (ReadFull 2 r) (\<lambda>(bb, _, r). Inr (ucast (Uint16 bb), 3, r))
       else Inr (ucast (Uint16 [b ! 0, 0]), 1, r))"

text \<open>\<open>PutBytes\<close> overwrites the first bytes of \<open>dst\<close>: the buffer after the call and the number written.\<close>

definition VarInt_PutBytes :: "VarInt \<Rightarrow> bytes \<Rightarrow> 's fault + bytes \<times> int" where
  "VarInt_PutBytes v dst =
     (if v < 0xfd then
        (if length dst < 1 then Inl Panic else Inr (dst[0 := ucast v], 1))
      else if v < 0x10000 then
        (if length dst < 3 then Inl Panic else Inr (0xfd # PutUint16 (ucast v) @ drop 3 dst, 3))
      else if v < 0x100000000 then
        (if length dst < 5 then Inl Panic else Inr (0xfe # PutUint32 (ucast v) @ drop 5 dst, 5))
      else
        (if length dst < 9 then Inl Panic else Inr (0xff # PutUint64 v @ drop 9 dst, 9)))"

definition UpperLimitInc :: "VarInt \<Rightarrow> int" where
  "UpperLimitInc v = (if v = 252 \<or> v = 65535 then 2 else if v = 4294967295 then 4
     else if v = 18446744073709551615 then - 1 else 0)"

subsection \<open>The contracts of readers and codecs\<close>

locale reader =
  fixes rd :: "bytes \<Rightarrow> 's fault + 'a \<times> int \<times> bytes"
  assumes consumes: "rd r = Inr (x, k, r') \<Longrightarrow> \<exists>p. r = p @ r' \<and> k = int (length p)"
begin

lemma read_n_consumes: "read_n rd n r = Inr (xs, k, r') \<Longrightarrow> \<exists>p. r = p @ r' \<and> k = int (length p) \<and> length xs = n"
proof (induction n arbitrary: r xs k)
  case (Suc n)
  then obtain x k1 r1 ys k2 where "rd r = Inr (x, k1, r1)" "read_n rd n r1 = Inr (ys, k2, r')"
    and eq: "xs = x # ys" "k = k1 + k2"
    by (auto simp: res_simps)
  then obtain p1 p2 where "r = p1 @ r1" "k1 = int (length p1)" "r1 = p2 @ r'" "k2 = int (length p2)" "length ys = n"
    using consumes Suc.IH by metis
  then show ?case using eq by (intro exI [of _ "p1 @ p2"]) auto
qed simp

end

locale codec = reader rd for rd :: "bytes \<Rightarrow> 's fault + 'a \<times> int \<times> bytes" +
  fixes enc :: "'a \<Rightarrow> bytes"
    and ok :: "'a \<Rightarrow> bool"
  assumes rd_enc: "ok x \<Longrightarrow> rd (enc x @ r) = Inr (x, int (length (enc x)), r)"
begin

lemma read_n_enc:
  "(\<forall>x\<in>set xs. ok x) \<Longrightarrow>
   read_n rd (length xs) (concat (map enc xs) @ r) = Inr (xs, int (length (concat (map enc xs))), r)"
  by (induction xs) (auto simp: rd_enc)

lemma enc_prefix_free:
  assumes "ok x" "ok y" "enc x @ r = enc y @ s"
  shows "x = y \<and> r = s"
  using arg_cong [OF assms(3), of rd] by (simp add: rd_enc assms(1,2))

lemma enc_concat_inj:
  assumes "\<forall>x\<in>set xs. ok x" "\<forall>y\<in>set ys. ok y" "\<And>x. ok x \<Longrightarrow> enc x \<noteq> []"
    "concat (map enc xs) = concat (map enc ys)"
  shows "xs = ys"
  using assms(1,2,4)
proof (induction xs arbitrary: ys)
  case Nil
  then show ?case using assms(3) by (cases ys) auto
next
  case (Cons x xs)
  then obtain y ys' where ys: "ys = y # ys'"
    using assms(3) [of x] by (cases ys) auto
  have "enc x @ concat (map enc xs) = enc y @ concat (map enc ys')"
    using Cons.prems(3) by (simp add: ys)
  then have eq: "x = y" "concat (map enc xs) = concat (map enc ys')"
    using enc_prefix_free [of x y] Cons.prems(1,2) by (simp_all add: ys)
  have "xs = ys'"
    using Cons.prems(1,2) by (intro Cons.IH [OF _ _ eq(2)]) (simp_all add: ys)
  then show ?case by (simp add: ys eq(1))
qed

lemma enc_list_inj:
  assumes "\<forall>x\<in>set xs. ok x" "\<forall>y\<in>set ys. ok y" "length xs = length ys"
    "concat (map enc xs) @ r = concat (map enc ys) @ s"
  shows "xs = ys \<and> r = s"
  using arg_cong [OF assms(4), of "read_n rd (length xs)"] read_n_enc [OF assms(1)] read_n_enc [OF assms(2)]
  by (simp add: assms(3))

end

subsection \<open>VarInt is a codec\<close>

lemma ReadFull_append [simp]: "length p = k \<Longrightarrow> ReadFull k (p @ r) = Inr (p, int k, r)"
  by (simp add: ReadFull_def)

lemma ReadFull_Inr: "ReadFull k r = Inr (b, n, r') \<longleftrightarrow> r = b @ r' \<and> length b = k \<and> n = int k"
  by (auto simp: ReadFull_def)

lemma ReadFull_short [simp]: "length r < k \<Longrightarrow> ReadFull k r = Inl (FailTx ErrEOF)"
  by (simp add: ReadFull_def)

lemma ReadFull_Cons [simp]: "ReadFull (Suc 0) (b # r) = Inr ([b], 1, r)"
  by (simp add: ReadFull_def)

lemma make_ReadFull_Inr:
  "make_ReadFull l r = Inr (b, n, r') \<longleftrightarrow> unat l \<le> maxAlloc \<and> r = b @ r' \<and> length b = unat l \<and> n = int (unat l)"
  by (auto simp: make_ReadFull_def ReadFull_Inr)

lemma unat_bounds [simp]: "unat (w :: u16) < 65536" "unat (x :: u32) < 4294967296"
  "unat (y :: u64) < 18446744073709551616" "unat w < 4294967296"
  using unsigned_less [of w, where 'a = nat] unsigned_less [of x, where 'a = nat]
    unsigned_less [of y, where 'a = nat] less_trans [of "unat w" 65536 4294967296]
  by simp_all

lemma unat_ucast_up [simp]:
  "unat (ucast (w :: u16) :: u64) = unat w" "unat (ucast (x :: u32) :: u64) = unat x"
  "unat (ucast (b :: byte) :: u64) = unat b"
  using less_trans [OF unat_byte_lt [of b], of "2 ^ 64"] less_trans [OF unat_bounds(1) [of w], of "2 ^ 64"]
    less_trans [OF unat_bounds(2) [of x], of "2 ^ 64"]
  by (simp_all add: unsigned_ucast_eq take_bit_eq_mod del: unat_byte_lt unat_bounds)

lemma unat_ucast_down:
  "unat (ucast (v :: u64) :: u16) = unat v mod 2 ^ 16" "unat (ucast v :: u32) = unat v mod 2 ^ 32"
  "unat (ucast v :: byte) = unat v mod 2 ^ 8"
  by (simp_all add: unsigned_ucast_eq take_bit_eq_mod)

lemma ucast_down_up:
  "v < 0x10000 \<Longrightarrow> ucast (ucast v :: u16) = (v :: u64)"
  "v < 0x100000000 \<Longrightarrow> ucast (ucast v :: u32) = (v :: u64)"
  "v < 0x100 \<Longrightarrow> ucast (ucast v :: byte) = (v :: u64)"
  by (simp_all add: word_unat_eq_iff word_less_nat_alt unat_ucast_down)

lemma unat_Uint16_byte: "unat (Uint16 [b, 0]) = unat b"
  using less_trans [OF unat_byte_lt [of b], of 65536]
  by (simp add: Uint16_def unsigned_of_nat unsigned_ucast_eq take_bit_eq_mod del: unat_byte_lt)

lemma VarInt_Uint16_byte: "ucast (Uint16 [b, 0]) = (ucast b :: u64)"
  by (rule word_unat_eq_iff [THEN iffD2]) (simp only: unat_ucast_up unat_Uint16_byte)

lemma VarInt_Bytes_first:
  "v < 0xfd \<Longrightarrow> (ucast v :: byte) \<noteq> 0xff \<and> (ucast v :: byte) \<noteq> 0xfe \<and> (ucast v :: byte) \<noteq> 0xfd"
  for v :: u64
  by (simp add: word_unat_eq_iff word_less_nat_alt unat_ucast_down)

lemma VarInt_ReadFrom_Bytes:
  "VarInt_ReadFrom (VarInt_Bytes v @ r) = Inr (v, int (length (VarInt_Bytes v)), r)"
proof -
  consider "v < 0xfd" | "\<not> v < 0xfd" "v < 0x10000" | "\<not> v < 0xfd" "\<not> v < 0x10000" "v < 0x100000000"
    | "\<not> v < 0xfd" "\<not> v < 0x10000" "\<not> v < 0x100000000"
    by blast
  then show ?thesis
  proof cases
    case 1
    then have "v < 0x100" by (simp add: word_less_nat_alt)
    then show ?thesis
      using 1 VarInt_Bytes_first [OF 1]
      by (simp add: VarInt_ReadFrom_def VarInt_Bytes_def VarInt_Uint16_byte ucast_down_up)
  next
    case 2
    then show ?thesis
      using Uint16_PutUint16 [of "ucast v" "[]"]
      by (simp add: VarInt_ReadFrom_def VarInt_Bytes_def ucast_down_up)
  next
    case 3
    then show ?thesis
      using Uint32_PutUint32 [of "ucast v" "[]"]
      by (simp add: VarInt_ReadFrom_def VarInt_Bytes_def ucast_down_up)
  next
    case 4
    then show ?thesis
      using Uint64_PutUint64 [of v "[]"]
      by (simp add: VarInt_ReadFrom_def VarInt_Bytes_def)
  qed
qed

lemma VarInt_ReadFrom_consumes:
  "VarInt_ReadFrom r = Inr (v, k, r') \<Longrightarrow> \<exists>p. r = p @ r' \<and> k = int (length p)"
  by (auto simp: VarInt_ReadFrom_def res_simps ReadFull_Inr split: if_splits)

interpretation varint: codec VarInt_ReadFrom VarInt_Bytes "\<lambda>_. True"
  by unfold_locales (auto dest: VarInt_ReadFrom_consumes simp: VarInt_ReadFrom_Bytes)

lemma length_VarInt_Bytes: "int (length (VarInt_Bytes v)) = VarInt_Length v"
  by (simp add: VarInt_Bytes_def VarInt_Length_def)

lemma byte_below_marker: "b \<noteq> 0xff \<Longrightarrow> b \<noteq> 0xfe \<Longrightarrow> b \<noteq> 0xfd \<Longrightarrow> unat (b :: byte) < 253"
  using unat_byte_lt [of b] by (simp add: word_unat_eq_iff del: unat_byte_lt)

lemma VarInt_ReadFrom_size:
  assumes "VarInt_ReadFrom r = Inr (v, k, r')"
  shows "VarInt_Length v \<le> k"
  using assms
  by (auto simp: VarInt_ReadFrom_def VarInt_Length_def res_simps ReadFull_Inr word_less_nat_alt
      unat_Uint16_byte dest: byte_below_marker split: if_splits)

lemma NewVarIntFromBytes_eq_ReadFrom:
  "NewVarIntFromBytes bb =
     ((case VarInt_ReadFrom bb of Inl (_ :: 's fault) \<Rightarrow> Inl Panic | Inr (v, k, _) \<Rightarrow> Inr (v, k)) :: 's fault + _)"
  by (cases bb) (auto simp: NewVarIntFromBytes_def VarInt_ReadFrom_def ReadFull_def)

lemma NewVarIntFromBytes_Bytes: "NewVarIntFromBytes (VarInt_Bytes v @ r) = Inr (v, VarInt_Length v)"
  by (simp add: NewVarIntFromBytes_eq_ReadFrom VarInt_ReadFrom_Bytes length_VarInt_Bytes)

lemma VarInt_PutBytes_eq:
  assumes "VarInt_Length v \<le> int (length dst)"
  shows "VarInt_PutBytes v dst = Inr (VarInt_Bytes v @ drop (nat (VarInt_Length v)) dst, VarInt_Length v)"
  using assms
  by (cases dst) (auto simp: VarInt_PutBytes_def VarInt_Bytes_def VarInt_Length_def split: if_splits)

lemma VarInt_PutBytes_short: "int (length dst) < VarInt_Length v \<Longrightarrow> VarInt_PutBytes v dst = Inl Panic"
  by (cases dst) (auto simp: VarInt_PutBytes_def VarInt_Length_def split: if_splits)

text \<open>(C30) \<open>VarInt\<close>: reading back the bytes of \<open>v\<close> gives \<open>v\<close>, counts exactly \<open>Length\<close> bytes and leaves the
  rest of the stream untouched, for every one of the 2^64 values; \<open>NewVarIntFromBytes\<close> and \<open>PutBytes\<close> agree
  with \<open>ReadFrom\<close> and \<open>Bytes\<close>; and no accepted encoding of a value is shorter than the one \<open>Bytes\<close>
  produces (longer ones are accepted).\<close>

theorem VarInt_roundtrip:
  "VarInt_ReadFrom (VarInt_Bytes v @ r) = (Inr (v, VarInt_Length v, r) :: 's fault + _)
   \<and> NewVarIntFromBytes (VarInt_Bytes v @ r) = (Inr (v, VarInt_Length v) :: 's fault + _)
   \<and> VarInt_PutBytes v (VarInt_Bytes w @ r) = (if VarInt_Length v \<le> VarInt_Length w + int (length r)
        then Inr (VarInt_Bytes v @ drop (nat (VarInt_Length v)) (VarInt_Bytes w @ r), VarInt_Length v)
        else (Inl Panic :: 's fault + _))
   \<and> (\<forall>bs u k r'. VarInt_ReadFrom bs = (Inr (u, k, r') :: 's fault + _) \<longrightarrow> VarInt_Length u \<le> k)"
proof (intro conjI allI impI)
  show "VarInt_ReadFrom (VarInt_Bytes v @ r) = (Inr (v, VarInt_Length v, r) :: 's fault + _)"
    by (simp add: VarInt_ReadFrom_Bytes length_VarInt_Bytes)
  show "NewVarIntFromBytes (VarInt_Bytes v @ r) = (Inr (v, VarInt_Length v) :: 's fault + _)"
    by (rule NewVarIntFromBytes_Bytes)
  show "VarInt_PutBytes v (VarInt_Bytes w @ r) = (if VarInt_Length v \<le> VarInt_Length w + int (length r)
        then Inr (VarInt_Bytes v @ drop (nat (VarInt_Length v)) (VarInt_Bytes w @ r), VarInt_Length v)
        else (Inl Panic :: 's fault + _))"
  proof (cases "VarInt_Length v \<le> VarInt_Length w + int (length r)")
    case True
    then show ?thesis
      by (simp add: VarInt_PutBytes_eq length_VarInt_Bytes)
  next
    case False
    then have "int (length (VarInt_Bytes w @ r)) < VarInt_Length v"
      by (simp add: length_VarInt_Bytes)
    then have "VarInt_PutBytes v (VarInt_Bytes w @ r) = (Inl Panic :: 's fault + _)"
      by (rule VarInt_PutBytes_short)
    with False show ?thesis by simp
  qed
  show "VarInt_Length u \<le> k" if "VarInt_ReadFrom bs = (Inr (u, k, r') :: 's fault + _)" for bs u k r'
    by (rule VarInt_ReadFrom_size [OF that])
qed

theorem VarInt_roundtrip_witness:
  "VarInt_ReadFrom [0xfd, 0x34, 0x12, 7] = (Inr (0x1234, 3, [7]) :: unit fault + _)
   \<and> VarInt_ReadFrom [0xfe, 1, 0, 0, 0] = (Inr (1, 5, []) :: unit fault + _) \<and> VarInt_Length 1 \<le> 5"
proof -
  have "VarInt_Bytes 0x1234 = [0xfd, 0x34, 0x12]" "VarInt_Length 0x1234 = 3"
    by code_simp+
  then have "VarInt_ReadFrom [0xfd, 0x34, 0x12, 7] = (Inr (0x1234, 3, [7]) :: unit fault + _)"
    using VarInt_roundtrip [of "0x1234" "[7]" 0, where 's = unit] by simp
  moreover have r: "VarInt_ReadFrom [0xfe, 1, 0, 0, 0] = (Inr (1, 5, []) :: unit fault + _)"
    by code_simp
  ultimately show ?thesis
    using VarInt_roundtrip [of 0 "[]" 0, where 's = unit] by blast
qed

end
