(* ===== verification/Tx.thy ===== *)
theory Tx
  imports VarInt
begin

text \<open>
  Package \<open>transaction\<close>: \<^verbatim>\<open>transaction.go\<close>, \<^verbatim>\<open>input.go\<close>, \<^verbatim>\<open>output.go\<close>, \<^verbatim>\<open>txinput.go\<close>, \<^verbatim>\<open>txoutput.go\<close>.
  Transactions, their inputs and outputs, the wire format and the extended format (which carries the spent
  outputs), writing and reading.

  Pointers that may be nil are options. The elements of the slices \<open>Inputs\<close> and \<open>Outputs\<close> are taken to be
  non-nil. A \<^verbatim>\<open>chainhash.Hash\<close> is a list of 32 bytes. An \<open>UnlockingScriptTemplate\<close> is code of the caller: the
  field holds a handle for it. Since an input may hold the whole transaction it spends from, transactions and
  inputs are one mutual datatype.
\<close>

record TransactionOutput =
  Satoshis :: u64
  LockingScript :: "bytes option"
  Change :: bool

record PathElement =
  Offset :: u64
  Hash :: "bytes option"
  Txid :: "bool option"
  Duplicate :: "bool option"

record MerklePath =
  BlockHeight :: u32
  Path :: "PathElement list list"

datatype Transaction = Transaction (Version: u32) (Inputs: "TransactionInput list")
    (Outputs: "TransactionOutput list") (LockTime: u32) (MerklePath: "MerklePath option")
  and TransactionInput = TransactionInput (SourceTXID: "bytes option") (UnlockingScript: "bytes option")
    (SourceTxOutIndex: u32) (SequenceNumber: u32) (SourceTransaction: "Transaction option")
    (sourceOutput: "TransactionOutput option") (UnlockingScriptTemplate: "nat option")

abbreviation (input) DefaultSequenceNumber :: u32 where "DefaultSequenceNumber \<equiv> 0xFFFFFFFF"
abbreviation (input) MaxTxInSequenceNum :: u32 where "MaxTxInSequenceNum \<equiv> 0xFFFFFFFF"
abbreviation (input) SequenceLockTimeDisabled :: int where "SequenceLockTimeDisabled \<equiv> 0x80000000"
abbreviation (input) SequenceLockTimeIsSeconds :: int where "SequenceLockTimeIsSeconds \<equiv> 0x400000"
abbreviation (input) SequenceLockTimeMask :: int where "SequenceLockTimeMask \<equiv> 0xFFFF"

text \<open>\<^verbatim>\<open>util.VarInt(uint64(len(x)))\<close>.\<close>

abbreviation varlen :: "'a list \<Rightarrow> VarInt" where
  "varlen xs \<equiv> word_of_nat (length xs)"

subsection \<open>Outputs\<close>

definition TxOut_ReadFrom :: "bytes \<Rightarrow> 's fault + TransactionOutput \<times> int \<times> bytes" where
  "TxOut_ReadFrom r =
     rbind (ReadFull 8 r) (\<lambda>(satoshis, n1, r).
     rbind (VarInt_ReadFrom r) (\<lambda>(l, n2, r).
     rbind (make_ReadFull l r) (\<lambda>(scriptBytes, n3, r).
     Inr (\<lparr>Satoshis = Uint64 satoshis, LockingScript = Some scriptBytes, Change = False\<rparr>, n1 + n2 + n3, r))))"

definition TxOut_Bytes :: "TransactionOutput \<Rightarrow> 's fault + bytes" where
  "TxOut_Bytes out = (case LockingScript out of None \<Rightarrow> Inl Panic
     | Some s \<Rightarrow> Inr (PutUint64 (Satoshis out) @ VarInt_Bytes (varlen s) @ s))"

definition BytesForSigHash :: "TransactionOutput \<Rightarrow> 's fault + bytes" where
  "BytesForSigHash out = (case LockingScript out of None \<Rightarrow> Inl Panic
     | Some s \<Rightarrow> Inr (PutUint64 (Satoshis out) @ VarInt_Bytes (varlen s) @ s))"

subsection \<open>Inputs\<close>

definition SourceTxOutput :: "TransactionInput \<Rightarrow> 's fault + TransactionOutput option" where
  "SourceTxOutput i = (case SourceTransaction i of
       Some t \<Rightarrow> (if unat (SourceTxOutIndex i) < length (Outputs t)
         then Inr (Some (Outputs t ! unat (SourceTxOutIndex i))) else Inl Panic)
     | None \<Rightarrow> Inr (sourceOutput i))"

definition SourceTxScript :: "TransactionInput \<Rightarrow> 's fault + bytes option" where
  "SourceTxScript i = rbind (SourceTxOutput i) (\<lambda>out.
     Inr (case out of Some o' \<Rightarrow> LockingScript o' | None \<Rightarrow> None))"

definition SourceTxSatoshis :: "TransactionInput \<Rightarrow> 's fault + u64 option" where
  "SourceTxSatoshis i = rbind (SourceTxOutput i) (\<lambda>out.
     Inr (case out of Some o' \<Rightarrow> Some (Satoshis o') | None \<Rightarrow> None))"

definition SetSourceTxOutput :: "TransactionInput \<Rightarrow> TransactionOutput option \<Rightarrow> TransactionInput" where
  "SetSourceTxOutput i txo = TransactionInput (SourceTXID i) (UnlockingScript i) (SourceTxOutIndex i)
     (SequenceNumber i) (SourceTransaction i) txo (UnlockingScriptTemplate i)"

text \<open>\<^verbatim>\<open>readFrom(r, extended)\<close>; \<^verbatim>\<open>chainhash.NewHash\<close> of 32 bytes does not fail.\<close>

definition TxIn_readFrom :: "bool \<Rightarrow> bytes \<Rightarrow> 's fault + TransactionInput \<times> int \<times> bytes" where
  "TxIn_readFrom extended r =
     rbind (ReadFull 32 r) (\<lambda>(previousTxID, n1, r).
     rbind (ReadFull 4 r) (\<lambda>(prevIndex, n2, r).
     rbind (VarInt_ReadFrom r) (\<lambda>(l, n3, r).
     rbind (make_ReadFull l r) (\<lambda>(scriptBytes, n4, r).
     rbind (ReadFull 4 r) (\<lambda>(sequence, n5, r).
       let i = TransactionInput (Some previousTxID) (Some scriptBytes) (Uint32 prevIndex) (Uint32 sequence)
                 None None None;
           bytesRead = n1 + n2 + n3 + n4 + n5
       in if extended then
            rbind (ReadFull 8 r) (\<lambda>(prevSatoshis, m1, r).
            rbind (VarInt_ReadFrom r) (\<lambda>(scriptLen, m2, r).
            rbind (make_ReadFull scriptLen r) (\<lambda>(scriptBytes, m3, r).
            Inr (SetSourceTxOutput i (Some \<lparr>Satoshis = Uint64 prevSatoshis,
                   LockingScript = Some scriptBytes, Change = False\<rparr>), bytesRead + m1 + m2 + m3, r))))
          else Inr (i, bytesRead, r))))))"

definition TxIn_Bytes :: "TransactionInput \<Rightarrow> bool \<Rightarrow> 's fault + bytes" where
  "TxIn_Bytes i clear = (case SourceTXID i of None \<Rightarrow> Inl Panic
     | Some h \<Rightarrow> Inr (h @ PutUint32 (SourceTxOutIndex i)
         @ (case UnlockingScript i of
              Some s \<Rightarrow> (if clear then [0] else VarInt_Bytes (varlen s) @ s)
            | None \<Rightarrow> [0])
         @ PutUint32 (SequenceNumber i)))"

subsection \<open>Transactions\<close>

definition InputCount :: "Transaction \<Rightarrow> int" where
  "InputCount tx = int (length (Inputs tx))"

definition OutputCount :: "Transaction \<Rightarrow> int" where
  "OutputCount tx = int (length (Outputs tx))"

definition InputIdx :: "Transaction \<Rightarrow> int \<Rightarrow> 's fault + TransactionInput option" where
  "InputIdx tx i = (if i > InputCount tx - 1 then Inr None
     else if i < 0 then Inl Panic else Inr (Some (Inputs tx ! nat i)))"

definition OutputIdx :: "Transaction \<Rightarrow> int \<Rightarrow> 's fault + TransactionOutput option" where
  "OutputIdx tx i = (if i > OutputCount tx - 1 then Inr None
     else if i < 0 then Inl Panic else Inr (Some (Outputs tx ! nat i)))"

definition with_Inputs :: "Transaction \<Rightarrow> TransactionInput list \<Rightarrow> Transaction" where
  "with_Inputs tx ins = Transaction (Version tx) ins (Outputs tx) (LockTime tx) (MerklePath tx)"

definition with_Outputs :: "Transaction \<Rightarrow> TransactionOutput list \<Rightarrow> Transaction" where
  "with_Outputs tx outs = Transaction (Version tx) (Inputs tx) outs (LockTime tx) (MerklePath tx)"

definition NewTransaction :: Transaction where
  "NewTransaction = Transaction 1 [] [] 0 None"

definition AddInput :: "Transaction \<Rightarrow> TransactionInput \<Rightarrow> Transaction" where
  "AddInput tx input = with_Inputs tx (Inputs tx @ [input])"

definition AddInputWithOutput :: "Transaction \<Rightarrow> TransactionInput \<Rightarrow> TransactionOutput \<Rightarrow> Transaction" where
  "AddInputWithOutput tx input output = with_Inputs tx (Inputs tx @ [SetSourceTxOutput input (Some output)])"

definition AddOutput :: "Transaction \<Rightarrow> TransactionOutput \<Rightarrow> Transaction" where
  "AddOutput tx output = with_Outputs tx (Outputs tx @ [output])"

definition IsCoinbase :: "Transaction \<Rightarrow> 's fault + bool" where
  "IsCoinbase tx = (if length (Inputs tx) \<noteq> 1 then Inr False
     else let i = Inputs tx ! 0
          in case SourceTXID i of None \<Rightarrow> Inl Panic
             | Some h \<Rightarrow> Inr (if h \<noteq> replicate 32 0 then False
                 else SourceTxOutIndex i = DefaultSequenceNumber \<or> SequenceNumber i = DefaultSequenceNumber))"

primrec TotalInputSatoshis_loop :: "TransactionInput list \<Rightarrow> u64 \<Rightarrow> 's fault + u64" where
  "TotalInputSatoshis_loop [] total' = Inr total'"
| "TotalInputSatoshis_loop (i # ins) total' = rbind (SourceTxSatoshis i) (\<lambda>s.
     case s of None \<Rightarrow> Inl (FailTx ErrEmptyPreviousTx)
     | Some prevSats \<Rightarrow> TotalInputSatoshis_loop ins (total' + prevSats))"

definition TotalInputSatoshis :: "Transaction \<Rightarrow> 's fault + u64" where
  "TotalInputSatoshis tx = TotalInputSatoshis_loop (Inputs tx) 0"

definition TotalOutputSatoshis :: "Transaction \<Rightarrow> u64" where
  "TotalOutputSatoshis tx = foldl (\<lambda>total' out. total' + Satoshis out) 0 (Outputs tx)"

definition GetFee :: "Transaction \<Rightarrow> 's fault + u64" where
  "GetFee tx = rbind (TotalInputSatoshis tx) (\<lambda>totalIn. Inr (totalIn - TotalOutputSatoshis tx))"

primrec checkFeeComputed_loop :: "TransactionOutput list \<Rightarrow> bool" where
  "checkFeeComputed_loop [] = True"
| "checkFeeComputed_loop (out # outs) =
     (if Satoshis out = 0 \<and> Change out then False else checkFeeComputed_loop outs)"

text \<open>\<open>ShallowClone\<close>: the source output is copied, the rest shared.\<close>

definition clone_input :: "TransactionInput \<Rightarrow> 's fault + TransactionInput" where
  "clone_input i = (case SourceTXID i of None \<Rightarrow> Inl Panic
     | Some h \<Rightarrow> rbind (SourceTxOutput i) (\<lambda>out.
         case out of
           None \<Rightarrow> Inr (TransactionInput (Some h) (UnlockingScript i) (SourceTxOutIndex i) (SequenceNumber i)
             None None (UnlockingScriptTemplate i))
         | Some o' \<Rightarrow> (case LockingScript o' of None \<Rightarrow> Inl Panic
             | Some s \<Rightarrow> Inr (TransactionInput (Some h) (UnlockingScript i) (SourceTxOutIndex i)
                 (SequenceNumber i) None
                 (Some \<lparr>Satoshis = Satoshis o', LockingScript = Some s, Change = False\<rparr>)
                 (UnlockingScriptTemplate i)))))"

definition ShallowClone :: "Transaction \<Rightarrow> 's fault + Transaction" where
  "ShallowClone tx = rbind (rmap clone_input (Inputs tx)) (\<lambda>ins.
     Inr (Transaction (Version tx) ins (map (\<lambda>out. out\<lparr>Change := False\<rparr>) (Outputs tx)) (LockTime tx) None))"

text \<open>\<open>toBytesHelper\<close>: first the total length, then the data, written from the start of a buffer of that
  length.\<close>

definition ext_part :: "TransactionInput \<Rightarrow> 's fault + bytes" where
  "ext_part i = rbind (SourceTxOutput i) (\<lambda>out.
     case out of
       None \<Rightarrow> Inr (PutUint64 0 @ [0])
     | Some o' \<Rightarrow> (case LockingScript o' of None \<Rightarrow> Inl Panic
         | Some s \<Rightarrow> Inr (PutUint64 (Satoshis o') @ VarInt_Bytes (varlen s) @ s)))"

definition input_part :: "int \<Rightarrow> bytes option \<Rightarrow> bool \<Rightarrow> nat \<times> TransactionInput \<Rightarrow> 's fault + bytes" where
  "input_part index lockingScript extended = (\<lambda>(i, inp).
     rbind (TxIn_Bytes inp (lockingScript \<noteq> None)) (\<lambda>b.
     rbind (if extended then ext_part inp else Inr []) (\<lambda>e.
     Inr ((case lockingScript of
             Some ls \<Rightarrow> (if int i = index then VarInt_Bytes (varlen ls) @ ls else b)
           | None \<Rightarrow> b) @ e))))"

definition ext_len :: "TransactionInput \<Rightarrow> 's fault + int" where
  "ext_len i = rbind (SourceTxOutput i) (\<lambda>out.
     case out of
       None \<Rightarrow> Inr (8 + 1)
     | Some o' \<Rightarrow> (case LockingScript o' of None \<Rightarrow> Inl Panic
         | Some s \<Rightarrow> Inr (8 + (VarInt_Length (varlen s) + int (length s)))))"

definition input_len :: "int \<Rightarrow> bytes option \<Rightarrow> bool \<Rightarrow> nat \<times> TransactionInput \<Rightarrow> 's fault + int" where
  "input_len index lockingScript extended = (\<lambda>(i, inp).
     rbind (TxIn_Bytes inp (lockingScript \<noteq> None)) (\<lambda>b.
     rbind (if extended then ext_len inp else Inr 0) (\<lambda>e.
     Inr ((case lockingScript of
             Some ls \<Rightarrow> (if int i = index then VarInt_Length (varlen ls) + int (length ls) else int (length b))
           | None \<Rightarrow> int (length b)) + e))))"

definition output_len :: "TransactionOutput \<Rightarrow> 's fault + int" where
  "output_len out = (case LockingScript out of None \<Rightarrow> Inl Panic
     | Some s \<Rightarrow> Inr (8 + VarInt_Length (varlen s) + int (length s)))"

definition total_len :: "Transaction \<Rightarrow> int \<Rightarrow> bytes option \<Rightarrow> bool \<Rightarrow> 's fault + int" where
  "total_len tx index lockingScript extended =
     rbind (rmap (input_len index lockingScript extended) (enumerate 0 (Inputs tx))) (\<lambda>ls.
     rbind (rmap output_len (Outputs tx)) (\<lambda>os.
     Inr (4 + (if extended then 6 else 0) + VarInt_Length (varlen (Inputs tx)) + sum_list ls
            + VarInt_Length (varlen (Outputs tx)) + sum_list os + 4)))"

definition fill :: "int \<Rightarrow> bytes \<Rightarrow> bytes" where
  "fill n data = take (nat n) data @ replicate (nat n - length data) 0"

definition toBytesHelper :: "Transaction \<Rightarrow> int \<Rightarrow> bytes option \<Rightarrow> bool \<Rightarrow> 's fault + bytes" where
  "toBytesHelper tx index lockingScript extended =
     rbind (total_len tx index lockingScript extended) (\<lambda>totalLen.
     rbind (rmap (input_part index lockingScript extended) (enumerate 0 (Inputs tx))) (\<lambda>ins.
     rbind (rmap TxOut_Bytes (Outputs tx)) (\<lambda>outs.
     Inr (fill totalLen
       (PutUint32 (Version tx) @ (if extended then [0, 0, 0, 0, 0, 0xEF] else [])
        @ VarInt_Bytes (varlen (Inputs tx)) @ concat ins
        @ VarInt_Bytes (varlen (Outputs tx)) @ concat outs
        @ PutUint32 (LockTime tx))))))"

definition Tx_Bytes :: "Transaction \<Rightarrow> 's fault + bytes" where
  "Tx_Bytes tx = toBytesHelper tx 0 None False"

definition BytesWithClearedInputs :: "Transaction \<Rightarrow> int \<Rightarrow> bytes option \<Rightarrow> 's fault + bytes" where
  "BytesWithClearedInputs tx index lockingScript = toBytesHelper tx index lockingScript False"

definition EF :: "Transaction \<Rightarrow> 's fault + bytes" where
  "EF tx = (if list_ex (\<lambda>i. SourceTransaction i = None \<and> sourceOutput i = None) (Inputs tx)
     then Inl (FailTx ErrEmptyPreviousTx) else toBytesHelper tx 0 None True)"

definition Tx_Size :: "Transaction \<Rightarrow> 's fault + int" where
  "Tx_Size tx = rbind (Tx_Bytes tx) (\<lambda>b. Inr (int (length b)))"

text \<open>\<^verbatim>\<open>Transaction.ReadFrom\<close>. \<open>read_rest\<close> is the code after the detection of the format.\<close>

definition read_rest ::
  "u32 \<Rightarrow> bool \<Rightarrow> VarInt \<Rightarrow> VarInt \<Rightarrow> int \<Rightarrow> bytes \<Rightarrow> 's fault + Transaction \<times> int \<times> bytes" where
  "read_rest version extended inputCount outputCount bytesRead r =
     rbind (read_n (TxIn_readFrom extended) (unat inputCount) r) (\<lambda>(ins, n1, r).
     rbind (if inputCount > 0 \<or> extended then VarInt_ReadFrom r else Inr (outputCount, 0, r))
       (\<lambda>(outputCount, n2, r).
     rbind (read_n TxOut_ReadFrom (unat outputCount) r) (\<lambda>(outs, n3, r).
     rbind (ReadFull 4 r) (\<lambda>(locktime, n4, r).
     Inr (Transaction version ins outs (Uint32 locktime) None, bytesRead + n1 + n2 + n3 + n4, r)))))"

definition Tx_ReadFrom :: "bytes \<Rightarrow> 's fault + Transaction \<times> int \<times> bytes" where
  "Tx_ReadFrom r =
     rbind (ReadFull 4 r) (\<lambda>(version, n1, r).
     rbind (VarInt_ReadFrom r) (\<lambda>(inputCount, n2, r).
       if inputCount = 0 then
         rbind (VarInt_ReadFrom r) (\<lambda>(outputCount, n3, r).
           if outputCount = 0 then
             rbind (ReadFull 4 r) (\<lambda>(locktime, n4, r).
               if locktime \<noteq> [0, 0, 0, 0xEF] then
                 Inr (Transaction (Uint32 version) [] [] (Uint32 locktime) None, n1 + n2 + n3 + n4, r)
               else
                 rbind (VarInt_ReadFrom r) (\<lambda>(inputCount, n5, r).
                 read_rest (Uint32 version) True inputCount outputCount (n1 + n2 + n3 + n4 + n5) r))
           else read_rest (Uint32 version) False inputCount outputCount (n1 + n2 + n3) r)
       else read_rest (Uint32 version) False inputCount 0 (n1 + n2) r))"

definition NewTransactionFromStream :: "bytes \<Rightarrow> 's fault + Transaction \<times> int" where
  "NewTransactionFromStream b = rbind (Tx_ReadFrom b) (\<lambda>(tx, bytesRead, _). Inr (tx, bytesRead))"

definition NewTransactionFromBytes :: "bytes \<Rightarrow> 's fault + Transaction" where
  "NewTransactionFromBytes b = rbind (NewTransactionFromStream b) (\<lambda>(tx, used).
     if used \<noteq> int (length b) then Inl (FailTx ErrNLockTimeLength) else Inr tx)"

definition Transactions_ReadFrom :: "bytes \<Rightarrow> 's fault + Transaction list \<times> int \<times> bytes" where
  "Transactions_ReadFrom r = rbind (VarInt_ReadFrom r) (\<lambda>(txCount, n, r).
     if 8 * unat txCount > maxAlloc then Inl Panic
     else rbind (read_n Tx_ReadFrom (unat txCount) r) (\<lambda>(txs, m, r). Inr (txs, n + m, r)))"

subsection \<open>The length computed first is the length of the data\<close>

lemma VarInt_Length_eq: "VarInt_Length v = int (length (VarInt_Bytes v))"
  by (simp add: length_VarInt_Bytes)

lemma ext_len_eq: "ext_len i = rbind (ext_part i) (\<lambda>b. Inr (int (length b)))"
  by (cases "SourceTxOutput i :: 'a fault + _")
    (auto simp: ext_len_def ext_part_def VarInt_Length_eq split: option.splits)

lemma input_len_eq:
  "input_len index ls extended p = rbind (input_part index ls extended p) (\<lambda>b. Inr (int (length b)))"
proof (cases p)
  case (Pair i inp)
  show ?thesis
    by (cases "TxIn_Bytes inp (ls \<noteq> None) :: 'a fault + _"; cases "ext_part inp :: 'a fault + _")
      (auto simp: Pair input_len_def input_part_def ext_len_eq VarInt_Length_eq split: option.splits)
qed

lemma output_len_eq: "output_len out = rbind (TxOut_Bytes out) (\<lambda>b. Inr (int (length b)))"
  by (auto simp: output_len_def TxOut_Bytes_def VarInt_Length_eq split: option.splits)

lemma sum_list_lengths: "sum_list (map (\<lambda>b. int (length b)) xs) = int (length (concat xs))"
  by (induction xs) auto

definition tx_data :: "Transaction \<Rightarrow> bool \<Rightarrow> bytes list \<Rightarrow> bytes list \<Rightarrow> bytes" where
  "tx_data tx extended ins outs =
     PutUint32 (Version tx) @ (if extended then [0, 0, 0, 0, 0, 0xEF] else [])
     @ VarInt_Bytes (varlen (Inputs tx)) @ concat ins
     @ VarInt_Bytes (varlen (Outputs tx)) @ concat outs @ PutUint32 (LockTime tx)"

lemma toBytesHelper_eq:
  "toBytesHelper tx index ls extended =
     rbind (rmap (input_part index ls extended) (enumerate 0 (Inputs tx))) (\<lambda>ins.
     rbind (rmap TxOut_Bytes (Outputs tx)) (\<lambda>outs. Inr (tx_data tx extended ins outs)))"
proof -
  have i: "rmap (input_len index ls extended) (enumerate 0 (Inputs tx))
      = rbind (rmap (input_part index ls extended) (enumerate 0 (Inputs tx))) (\<lambda>bs. Inr (map (\<lambda>b. int (length b)) bs))"
    unfolding input_len_eq [abs_def] by (rule rmap_rbind)
  have o: "rmap output_len (Outputs tx)
      = rbind (rmap TxOut_Bytes (Outputs tx)) (\<lambda>bs. Inr (map (\<lambda>b. int (length b)) bs))"
    unfolding output_len_eq [abs_def] by (rule rmap_rbind)
  show ?thesis
    by (cases "rmap (input_part index ls extended) (enumerate 0 (Inputs tx)) :: 'a fault + _";
        cases "rmap TxOut_Bytes (Outputs tx) :: 'a fault + _")
      (auto simp: toBytesHelper_def total_len_def i o tx_data_def fill_def sum_list_lengths VarInt_Length_eq
        nat_add_distrib)
qed

subsection \<open>Outputs and inputs are codecs\<close>

definition script_ok :: "bytes option \<Rightarrow> bool" where
  "script_ok s = (case s of Some b \<Rightarrow> length b \<le> maxAlloc | None \<Rightarrow> False)"

definition out_ok :: "TransactionOutput \<Rightarrow> bool" where
  "out_ok out = (script_ok (LockingScript out) \<and> \<not> Change out)"

definition out_enc :: "TransactionOutput \<Rightarrow> bytes" where
  "out_enc out = (case LockingScript out of None \<Rightarrow> []
     | Some s \<Rightarrow> PutUint64 (Satoshis out) @ VarInt_Bytes (varlen s) @ s)"

definition in_ok :: "bool \<Rightarrow> TransactionInput \<Rightarrow> bool" where
  "in_ok ext i = ((case SourceTXID i of Some h \<Rightarrow> length h = 32 | None \<Rightarrow> False)
     \<and> script_ok (UnlockingScript i) \<and> SourceTransaction i = None \<and> UnlockingScriptTemplate i = None
     \<and> (case sourceOutput i of Some out \<Rightarrow> ext \<and> out_ok out | None \<Rightarrow> \<not> ext))"

definition in_enc :: "bool \<Rightarrow> TransactionInput \<Rightarrow> bytes" where
  "in_enc ext i = (case (SourceTXID i, UnlockingScript i) of
     (Some h, Some s) \<Rightarrow> h @ PutUint32 (SourceTxOutIndex i) @ VarInt_Bytes (varlen s) @ s
         @ PutUint32 (SequenceNumber i)
         @ (case sourceOutput i of Some out \<Rightarrow> out_enc out | None \<Rightarrow> [])
   | _ \<Rightarrow> [])"

lemma unat_varlen: "length xs < 2 ^ 64 \<Longrightarrow> unat (varlen xs) = length xs"
  by (simp add: unsigned_of_nat take_bit_eq_mod)

lemma make_ReadFull_varlen [simp]:
  "length s \<le> maxAlloc \<Longrightarrow> make_ReadFull (varlen s) (s @ r) = Inr (s, int (length s), r)"
  by (simp add: make_ReadFull_def unat_varlen maxAlloc_def)

lemma PutUint_decode [simp]:
  "Uint32 (PutUint32 v) = v" "Uint64 (PutUint64 w) = w"
  using Uint32_PutUint32 [of v "[]"] Uint64_PutUint64 [of w "[]"] by simp_all

lemma TxOut_ReadFrom_enc:
  "out_ok out \<Longrightarrow> TxOut_ReadFrom (out_enc out @ r) = Inr (out, int (length (out_enc out)), r)"
  by (cases out) (auto simp: TxOut_ReadFrom_def out_enc_def out_ok_def script_ok_def
      VarInt_ReadFrom_Bytes split: option.splits)

lemma TxOut_ReadFrom_consumes:
  "TxOut_ReadFrom r = Inr (out, k, r') \<Longrightarrow> \<exists>p. r = p @ r' \<and> k = int (length p)"
  by (auto simp: TxOut_ReadFrom_def res_simps ReadFull_Inr make_ReadFull_Inr dest!: VarInt_ReadFrom_consumes)

interpretation txout: codec TxOut_ReadFrom out_enc out_ok
  by unfold_locales (auto dest: TxOut_ReadFrom_consumes simp: TxOut_ReadFrom_enc)

lemma TxIn_readFrom_enc:
  "in_ok ext i \<Longrightarrow> TxIn_readFrom ext (in_enc ext i @ r) = Inr (i, int (length (in_enc ext i)), r)"
  by (cases i) (auto simp: TxIn_readFrom_def in_enc_def in_ok_def out_ok_def out_enc_def script_ok_def
      SetSourceTxOutput_def VarInt_ReadFrom_Bytes Let_def split: option.splits)

lemma TxIn_readFrom_consumes:
  "TxIn_readFrom ext r = Inr (i, k, r') \<Longrightarrow> \<exists>p. r = p @ r' \<and> k = int (length p)"
  by (auto simp: TxIn_readFrom_def Let_def res_simps ReadFull_Inr make_ReadFull_Inr
      dest!: VarInt_ReadFrom_consumes split: if_splits)

interpretation txin: codec "TxIn_readFrom ext" "in_enc ext" "in_ok ext" for ext
  by unfold_locales (auto dest: TxIn_readFrom_consumes simp: TxIn_readFrom_enc)

subsection \<open>Whole transactions\<close>

text \<open>What of a transaction goes on the wire: everything but the Merkle path, the templates, the change marks
  and the source transactions; in the extended format the spent outputs stay.\<close>

definition source_out :: "TransactionInput \<Rightarrow> TransactionOutput option" where
  "source_out i = (case SourceTransaction i of
       Some t \<Rightarrow> Some (Outputs t ! unat (SourceTxOutIndex i)) | None \<Rightarrow> sourceOutput i)"

definition wire_out :: "TransactionOutput \<Rightarrow> TransactionOutput" where
  "wire_out out = out\<lparr>Change := False\<rparr>"

definition wire_in :: "bool \<Rightarrow> TransactionInput \<Rightarrow> TransactionInput" where
  "wire_in ext i = TransactionInput (SourceTXID i)
     (Some (case UnlockingScript i of None \<Rightarrow> [] | Some s \<Rightarrow> s)) (SourceTxOutIndex i) (SequenceNumber i)
     None (if ext then map_option wire_out (source_out i) else None) None"

definition wire_tx :: "bool \<Rightarrow> Transaction \<Rightarrow> Transaction" where
  "wire_tx ext tx = Transaction (Version tx) (map (wire_in ext) (Inputs tx)) (map wire_out (Outputs tx))
     (LockTime tx) None"

text \<open>Hashes have 32 bytes, as their type says, and no slice is longer than memory allows.\<close>

definition sizes_ok :: "Transaction \<Rightarrow> bool" where
  "sizes_ok tx = (length (Inputs tx) < 2 ^ 64 \<and> length (Outputs tx) < 2 ^ 64
     \<and> list_all (\<lambda>i. (case SourceTXID i of Some h \<Rightarrow> length h = 32 | None \<Rightarrow> True)
         \<and> (case UnlockingScript i of Some s \<Rightarrow> length s \<le> maxAlloc | None \<Rightarrow> True)
         \<and> (case source_out i of Some out \<Rightarrow>
              (case LockingScript out of Some s \<Rightarrow> length s \<le> maxAlloc | None \<Rightarrow> True) | None \<Rightarrow> True))
         (Inputs tx)
     \<and> list_all (\<lambda>out. case LockingScript out of Some s \<Rightarrow> length s \<le> maxAlloc | None \<Rightarrow> True) (Outputs tx))"

lemma TxOut_Bytes_wire:
  "TxOut_Bytes out = Inr b \<Longrightarrow> b = out_enc (wire_out out)"
  by (auto simp: TxOut_Bytes_def out_enc_def wire_out_def split: option.splits)

lemma TxOut_Bytes_ok:
  "TxOut_Bytes out = Inr b \<Longrightarrow> (case LockingScript out of Some s \<Rightarrow> length s \<le> maxAlloc | None \<Rightarrow> True)
   \<Longrightarrow> out_ok (wire_out out)"
  by (auto simp: TxOut_Bytes_def out_ok_def script_ok_def wire_out_def split: option.splits)

lemma VarInt_Bytes_0: "VarInt_Bytes 0 = [0]"
  by (simp add: VarInt_Bytes_def)

lemma SourceTxOutput_Inr: "SourceTxOutput i = Inr out \<Longrightarrow> out = source_out i"
  by (auto simp: SourceTxOutput_def source_out_def split: option.splits if_splits)

lemma ext_part_wire:
  assumes "ext_part i = Inr e" "source_out i \<noteq> None"
  shows "\<exists>out s. source_out i = Some out \<and> LockingScript out = Some s \<and> e = out_enc (wire_out out)"
proof -
  obtain out where out: "SourceTxOutput i = (Inr out :: 'a fault + _)"
    using assms(1) by (auto simp: ext_part_def res_simps)
  then have "out = source_out i" by (rule SourceTxOutput_Inr)
  then show ?thesis
    using assms out by (auto simp: ext_part_def out_enc_def wire_out_def split: option.splits)
qed

lemma input_part_wire:
  assumes "input_part ix None ext (k, i) = Inr b" "ext \<Longrightarrow> source_out i \<noteq> None"
  shows "b = in_enc ext (wire_in ext i)"
  using assms
  by (auto simp: input_part_def TxIn_Bytes_def in_enc_def wire_in_def VarInt_Bytes_0 res_simps
      dest: ext_part_wire split: option.splits if_splits)

lemma input_part_ok:
  assumes "input_part ix None ext (k, i) = Inr b" "ext \<Longrightarrow> source_out i \<noteq> None"
    "case SourceTXID i of Some h \<Rightarrow> length h = 32 | None \<Rightarrow> True"
    "case UnlockingScript i of Some s \<Rightarrow> length s \<le> maxAlloc | None \<Rightarrow> True"
    "case source_out i of Some out \<Rightarrow>
       (case LockingScript out of Some s \<Rightarrow> length s \<le> maxAlloc | None \<Rightarrow> True) | None \<Rightarrow> True"
  shows "in_ok ext (wire_in ext i)"
  using assms
  by (auto simp: input_part_def TxIn_Bytes_def in_ok_def wire_in_def out_ok_def script_ok_def
      wire_out_def res_simps dest: ext_part_wire split: option.splits if_splits)

lemma rmap_map: "rmap f xs = Inr ys \<Longrightarrow> (\<And>x y. x \<in> set xs \<Longrightarrow> f x = Inr y \<Longrightarrow> y = g x) \<Longrightarrow> ys = map g xs"
  by (induction xs arbitrary: ys) (auto simp: res_simps)

lemma rmap_Inr_elem: "rmap f xs = Inr ys \<Longrightarrow> x \<in> set xs \<Longrightarrow> \<exists>y. f x = Inr y"
  by (induction xs arbitrary: ys) (auto simp: res_simps)

lemma map_enumerate_snd: "map (\<lambda>(k, i). g i) (enumerate n xs) = map g xs"
proof -
  have "map (\<lambda>(k, i). g i) (enumerate n xs) = map g (map snd (enumerate n xs))"
    by (simp only: map_map comp_def case_prod_unfold)
  then show ?thesis by simp
qed

lemma toBytesHelper_wire:
  assumes "toBytesHelper tx ix None ext = (Inr b :: 's fault + bytes)" "sizes_ok tx"
    "ext \<Longrightarrow> \<forall>i\<in>set (Inputs tx). source_out i \<noteq> None"
  shows "b = tx_data (wire_tx ext tx) ext (map (in_enc ext) (Inputs (wire_tx ext tx)))
        (map out_enc (Outputs (wire_tx ext tx)))
    \<and> (\<forall>i\<in>set (Inputs (wire_tx ext tx)). in_ok ext i) \<and> (\<forall>out\<in>set (Outputs (wire_tx ext tx)). out_ok out)"
proof -
  obtain ins outs where ins: "rmap (input_part ix None ext) (enumerate 0 (Inputs tx)) = (Inr ins :: 's fault + _)"
    and outs: "rmap TxOut_Bytes (Outputs tx) = (Inr outs :: 's fault + _)"
    and b: "b = tx_data tx ext ins outs"
    using assms(1) by (auto simp: toBytesHelper_eq res_simps)
  have mem: "i \<in> set (Inputs tx)" if "(k, i) \<in> set (enumerate 0 (Inputs tx))" for k i
    using that by (auto simp: in_set_enumerate_eq)
  have "ins = map (\<lambda>(k, i). in_enc ext (wire_in ext i)) (enumerate 0 (Inputs tx))"
    by (rule rmap_map [OF ins]) (use assms(3) mem in \<open>auto dest!: input_part_wire\<close>)
  also have "\<dots> = map (\<lambda>i. in_enc ext (wire_in ext i)) (Inputs tx)"
    by (rule map_enumerate_snd)
  finally have i: "ins = map (in_enc ext) (Inputs (wire_tx ext tx))"
    by (simp add: wire_tx_def)
  have o: "outs = map out_enc (Outputs (wire_tx ext tx))"
  proof -
    have "outs = map (out_enc \<circ> wire_out) (Outputs tx)"
      by (rule rmap_map [OF outs]) (simp add: TxOut_Bytes_wire)
    then show ?thesis by (simp add: wire_tx_def)
  qed
  have "in_ok ext (wire_in ext x)" if x: "x \<in> set (Inputs tx)" for x
  proof -
    obtain k where "k < length (Inputs tx)" "Inputs tx ! k = x"
      using x by (auto simp: in_set_conv_nth)
    then have "(k, x) \<in> set (enumerate 0 (Inputs tx))"
      by (auto simp: in_set_enumerate_eq)
    then obtain y where "input_part ix None ext (k, x) = (Inr y :: 's fault + _)"
      using rmap_Inr_elem [OF ins] by blast
    then show ?thesis
      using assms(2,3) x by (intro input_part_ok) (auto simp: sizes_ok_def list_all_iff)
  qed
  moreover have "out_ok (wire_out x)" if "x \<in> set (Outputs tx)" for x
    using rmap_Inr_elem [OF outs that] assms(2) that TxOut_Bytes_ok by (auto simp: sizes_ok_def list_all_iff)
  ultimately show ?thesis
    using b i o by (simp add: wire_tx_def tx_data_def)
qed

lemma read_rest_enc:
  assumes "\<forall>i\<in>set ins. in_ok ext i" "\<forall>out\<in>set outs. out_ok out"
    "unat ic = length ins" "unat oc = length outs" "\<not> (ic > 0 \<or> ext) \<Longrightarrow> oc = oc0"
  shows "read_rest v ext ic oc0 n (concat (map (in_enc ext) ins)
      @ (if ic > 0 \<or> ext then VarInt_Bytes oc else []) @ concat (map out_enc outs) @ PutUint32 lt @ r)
    = Inr (Transaction v ins outs lt None, n + int (length (concat (map (in_enc ext) ins)))
        + (if ic > 0 \<or> ext then VarInt_Length oc else 0) + int (length (concat (map out_enc outs))) + 4, r)"
proof -
  have i: "read_n (TxIn_readFrom ext) (unat ic) (concat (map (in_enc ext) ins) @ z)
      = Inr (ins, int (length (concat (map (in_enc ext) ins))), z)" for z
    unfolding assms(3) by (rule txin.read_n_enc [OF assms(1)])
  have o: "read_n TxOut_ReadFrom (unat oc) (concat (map out_enc outs) @ z)
      = Inr (outs, int (length (concat (map out_enc outs))), z)" for z
    unfolding assms(4) by (rule txout.read_n_enc [OF assms(2)])
  show ?thesis
  proof (cases "ic > 0 \<or> ext")
    case True
    show ?thesis
      unfolding read_rest_def i rbind_Inr split if_P [OF True] VarInt_ReadFrom_Bytes o append_assoc
      by (simp add: VarInt_Length_eq)
  next
    case False
    then have "oc0 = oc" using assms(5) by simp
    then show ?thesis
      unfolding read_rest_def i rbind_Inr split if_not_P [OF False] append_Nil by (simp add: o)
  qed
qed

lemma input_part_in_enc: "in_ok False i \<Longrightarrow> input_part ix None False (k, i) = Inr (in_enc False i)"
  by (auto simp: input_part_def TxIn_Bytes_def in_enc_def in_ok_def script_ok_def split: option.splits)

lemma TxOut_Bytes_out_enc: "out_ok out \<Longrightarrow> TxOut_Bytes out = Inr (out_enc out)"
  by (auto simp: TxOut_Bytes_def out_enc_def out_ok_def script_ok_def split: option.splits)

lemma toBytesHelper_ok:
  assumes "\<forall>i\<in>set (Inputs tx). in_ok False i" "\<forall>out\<in>set (Outputs tx). out_ok out"
  shows "toBytesHelper tx ix None False
    = (Inr (tx_data tx False (map (in_enc False) (Inputs tx)) (map out_enc (Outputs tx))) :: 's fault + bytes)"
proof -
  have "rmap (input_part ix None False) (enumerate 0 (Inputs tx))
      = (Inr (map (\<lambda>(k, i). in_enc False i) (enumerate 0 (Inputs tx))) :: 's fault + _)"
    by (rule rmap_total) (use assms(1) in \<open>auto simp: input_part_in_enc in_set_enumerate_eq\<close>)
  moreover have "rmap TxOut_Bytes (Outputs tx) = (Inr (map out_enc (Outputs tx)) :: 's fault + _)"
    by (rule rmap_total) (use assms(2) in \<open>auto simp: TxOut_Bytes_out_enc\<close>)
  ultimately show ?thesis
    by (simp add: toBytesHelper_eq map_enumerate_snd)
qed

lemma rmap_Inl: "rmap f xs = Inl e \<Longrightarrow> \<exists>x\<in>set xs. f x = Inl e"
  by (induction xs) (auto simp: res_simps)

lemma ext_part_panics: "ext_part i = Inl e \<Longrightarrow> e = Panic"
proof (cases "SourceTxOutput i :: 'a fault + _")
  case (Inl e')
  then have "e' = Panic" by (auto simp: SourceTxOutput_def split: option.splits if_splits)
  then show "ext_part i = Inl e \<Longrightarrow> e = Panic" using Inl by (simp add: ext_part_def)
qed (auto simp: ext_part_def split: option.splits)

lemma toBytesHelper_panics: "toBytesHelper tx ix ls ext = (Inl e :: 's fault + bytes) \<Longrightarrow> e = Panic"
  by (auto simp: toBytesHelper_eq res_simps input_part_def TxIn_Bytes_def TxOut_Bytes_def
      dest!: rmap_Inl dest: ext_part_panics split: option.splits if_splits)

lemma ReadFull_PutUint32 [simp]: "ReadFull 4 (PutUint32 v @ r) = Inr (PutUint32 v, 4, r)"
  by simp

lemma Tx_ReadFrom_plain:
  assumes ok: "\<forall>i\<in>set (Inputs tx). in_ok False i" "\<forall>out\<in>set (Outputs tx). out_ok out"
    and len: "length (Inputs tx) < 2 ^ 64" "length (Outputs tx) < 2 ^ 64"
    and amb: "Inputs tx = [] \<Longrightarrow> Outputs tx = [] \<Longrightarrow> PutUint32 (LockTime tx) \<noteq> [0, 0, 0, 0xEF]"
    and m: "MerklePath tx = None"
  shows "Tx_ReadFrom (tx_data tx False (map (in_enc False) (Inputs tx)) (map out_enc (Outputs tx)) @ r)
    = Inr (tx, int (length (tx_data tx False (map (in_enc False) (Inputs tx)) (map out_enc (Outputs tx)))), r)"
proof -
  obtain v ins outs lt where tx: "tx = Transaction v ins outs lt None"
    using m by (cases tx) auto
  have u: "unat (varlen ins) = length ins" "unat (varlen outs) = length outs"
    using len by (simp_all only: tx Transaction.sel unat_varlen)
  note ok' = ok [unfolded tx Transaction.sel]
  note rest = read_rest_enc [where ext = False and ins = ins and outs = outs, OF ok']
  consider (none) "ins = []" "outs = []" | (outs) "ins = []" "outs \<noteq> []" | (ins) "ins \<noteq> []" by blast
  then show ?thesis
  proof cases
    case none
    then show ?thesis
      using amb by (simp add: tx tx_data_def Tx_ReadFrom_def VarInt_ReadFrom_Bytes)
  next
    case outs
    then have "varlen outs \<noteq> 0" using u(2) by (metis length_0_conv unat_0)
    then show ?thesis
      using outs rest [of 0 "varlen outs" "varlen outs" v "4 + VarInt_Length 0 + VarInt_Length (varlen outs)" lt r] u
      by (simp add: tx tx_data_def Tx_ReadFrom_def VarInt_ReadFrom_Bytes VarInt_Length_eq)
  next
    case ins
    then have "varlen ins \<noteq> 0" "0 < varlen ins"
      using u(1) by (metis length_0_conv unat_0, metis length_0_conv unat_0 word_gt_0)
    then show ?thesis
      using rest [of "varlen ins" "varlen outs" 0 v "4 + VarInt_Length (varlen ins)" lt r] u
      by (simp add: tx tx_data_def Tx_ReadFrom_def VarInt_ReadFrom_Bytes VarInt_Length_eq)
  qed
qed

lemma Tx_ReadFrom_extended:
  assumes ok: "\<forall>i\<in>set (Inputs tx). in_ok True i" "\<forall>out\<in>set (Outputs tx). out_ok out"
    and len: "length (Inputs tx) < 2 ^ 64" "length (Outputs tx) < 2 ^ 64"
    and m: "MerklePath tx = None"
  shows "Tx_ReadFrom (tx_data tx True (map (in_enc True) (Inputs tx)) (map out_enc (Outputs tx)) @ r)
    = Inr (tx, int (length (tx_data tx True (map (in_enc True) (Inputs tx)) (map out_enc (Outputs tx)))), r)"
proof -
  obtain v ins outs lt where tx: "tx = Transaction v ins outs lt None"
    using m by (cases tx) auto
  have u: "unat (varlen ins) = length ins" "unat (varlen outs) = length outs"
    using len by (simp_all only: tx Transaction.sel unat_varlen)
  note ok' = ok [unfolded tx Transaction.sel]
  have hdr: "VarInt_ReadFrom (0 # z) = Inr (0, 1, z)" "ReadFull 4 (0 # 0 # 0 # 0xEF # z) = Inr ([0, 0, 0, 0xEF], 4, z)" for z
    using VarInt_ReadFrom_Bytes [of 0 z] by (simp_all add: VarInt_Bytes_0 ReadFull_def)
  show ?thesis
    using read_rest_enc [where ext = True, OF ok' u, of 0 v "10 + VarInt_Length (varlen ins)" lt r]
    by (simp add: tx tx_data_def Tx_ReadFrom_def hdr VarInt_ReadFrom_Bytes VarInt_Length_eq)
qed

lemma wire_tx_simps [simp]:
  "length (Inputs (wire_tx ext tx)) = length (Inputs tx)" "length (Outputs (wire_tx ext tx)) = length (Outputs tx)"
  "Inputs (wire_tx ext tx) = [] \<longleftrightarrow> Inputs tx = []" "Outputs (wire_tx ext tx) = [] \<longleftrightarrow> Outputs tx = []"
  "LockTime (wire_tx ext tx) = LockTime tx" "MerklePath (wire_tx ext tx) = None"
  by (simp_all add: wire_tx_def)

lemma Tx_Bytes_read:
  assumes "Tx_Bytes tx = (Inr b :: 's fault + bytes)" "sizes_ok tx"
    "Inputs tx = [] \<and> Outputs tx = [] \<longrightarrow> PutUint32 (LockTime tx) \<noteq> [0, 0, 0, 0xEF]"
  shows "Tx_ReadFrom (b @ r) = (Inr (wire_tx False tx, int (length b), r) :: 's fault + _)
    \<and> Tx_Bytes (wire_tx False tx) = (Inr b :: 's fault + bytes)"
proof -
  let ?w = "wire_tx False tx"
  have b: "b = tx_data ?w False (map (in_enc False) (Inputs ?w)) (map out_enc (Outputs ?w))"
    and ok: "\<forall>i\<in>set (Inputs ?w). in_ok False i" "\<forall>out\<in>set (Outputs ?w). out_ok out"
    using toBytesHelper_wire [OF assms(1) [unfolded Tx_Bytes_def] assms(2)] by auto
  have "Tx_ReadFrom (b @ r) = (Inr (?w, int (length b), r) :: 's fault + _)"
    unfolding b by (rule Tx_ReadFrom_plain [OF ok]) (use assms(2,3) in \<open>auto simp: sizes_ok_def\<close>)
  moreover have "Tx_Bytes ?w = (Inr b :: 's fault + bytes)"
    unfolding Tx_Bytes_def b by (rule toBytesHelper_ok [OF ok])
  ultimately show ?thesis ..
qed

text \<open>(C31) Wire format round trip. When \<open>Bytes\<close> of a transaction does not panic (no nil hash or locking
  script), reading the bytes back, alone or in front of other data, gives the transaction that was written,
  up to what the format does not carry, and counts exactly the bytes of the transaction. The one exception is
  a transaction with no inputs and no outputs whose lock time reads as the marker of the extended format.\<close>

theorem Tx_Bytes_roundtrip:
  assumes "Tx_Bytes tx = (Inr b :: 's fault + bytes)" "sizes_ok tx"
    "Inputs tx = [] \<and> Outputs tx = [] \<longrightarrow> PutUint32 (LockTime tx) \<noteq> [0, 0, 0, 0xEF]"
  shows "Tx_ReadFrom (b @ r) = (Inr (wire_tx False tx, int (length b), r) :: 's fault + _)
    \<and> NewTransactionFromBytes b = (Inr (wire_tx False tx) :: 's fault + _)
    \<and> Tx_Bytes (wire_tx False tx) = (Inr b :: 's fault + bytes)"
proof -
  have "NewTransactionFromBytes b = (Inr (wire_tx False tx) :: 's fault + _)"
    using Tx_Bytes_read [OF assms, of "[]"] by (simp add: NewTransactionFromBytes_def NewTransactionFromStream_def)
  then show ?thesis
    using Tx_Bytes_read [OF assms] by blast
qed

text \<open>(C32) Extended format round trip. \<open>EF\<close> fails with \<open>ErrEmptyPreviousTx\<close> exactly when an input knows
  neither its source transaction nor its source output; otherwise, when it does not panic, reading the
  bytes back gives the transaction with the spent outputs attached.\<close>

theorem EF_roundtrip:
  assumes "sizes_ok tx"
  shows "(EF tx = (Inl (FailTx ErrEmptyPreviousTx) :: 's fault + bytes)) =
      list_ex (\<lambda>i. SourceTransaction i = None \<and> sourceOutput i = None) (Inputs tx)
    \<and> (\<forall>b. EF tx = (Inr b :: 's fault + bytes) \<longrightarrow>
        Tx_ReadFrom (b @ r) = (Inr (wire_tx True tx, int (length b), r) :: 's fault + _)
        \<and> NewTransactionFromBytes b = (Inr (wire_tx True tx) :: 's fault + _))"
proof (intro conjI allI impI)
  show "(EF tx = (Inl (FailTx ErrEmptyPreviousTx) :: 's fault + bytes)) =
      list_ex (\<lambda>i. SourceTransaction i = None \<and> sourceOutput i = None) (Inputs tx)"
    using toBytesHelper_panics [of tx 0 None True, where 's = 's] by (auto simp: EF_def)
next
  fix b
  assume b': "EF tx = (Inr b :: 's fault + bytes)"
  let ?w = "wire_tx True tx"
  have "source_out i \<noteq> None" if "i \<in> set (Inputs tx)" for i
    using b' that by (auto simp: EF_def source_out_def list_ex_iff split: if_splits option.splits)
  then have b: "b = tx_data ?w True (map (in_enc True) (Inputs ?w)) (map out_enc (Outputs ?w))"
    and ok: "\<forall>i\<in>set (Inputs ?w). in_ok True i" "\<forall>out\<in>set (Outputs ?w). out_ok out"
    using toBytesHelper_wire [of tx 0 True b, where 's = 's] b' assms by (auto simp: EF_def split: if_splits)
  have rd: "Tx_ReadFrom (b @ r) = (Inr (?w, int (length b), r) :: 's fault + _)" for r
    unfolding b by (rule Tx_ReadFrom_extended [OF ok]) (use assms in \<open>auto simp: sizes_ok_def\<close>)
  show "Tx_ReadFrom (b @ r) = (Inr (?w, int (length b), r) :: 's fault + _)"
    by (rule rd)
  show "NewTransactionFromBytes b = (Inr ?w :: 's fault + _)"
    using rd [of "[]"] by (simp add: NewTransactionFromBytes_def NewTransactionFromStream_def)
qed

definition sample_tx :: Transaction where
  "sample_tx = Transaction 2
     [TransactionInput (Some (replicate 32 7)) None 1 5
        (Some (Transaction 1 [] [\<lparr>Satoshis = 5, LockingScript = Some [0x51], Change = False\<rparr>,
           \<lparr>Satoshis = 600, LockingScript = Some [0x52, 0x53], Change = True\<rparr>] 0 None)) None (Some 3)]
     [\<lparr>Satoshis = 500, LockingScript = Some [0x6a], Change = True\<rparr>] 9 None"

lemma sample_tx_sizes: "sizes_ok sample_tx"
  by (simp add: sizes_ok_def sample_tx_def source_out_def maxAlloc_def)

theorem Tx_Bytes_roundtrip_witness:
  "\<exists>b. Tx_Bytes sample_tx = (Inr b :: unit fault + bytes) \<and> length b = 61
     \<and> NewTransactionFromBytes b = (Inr (wire_tx False sample_tx) :: unit fault + _)"
proof -
  have "rbind (Tx_Bytes sample_tx) (\<lambda>b. Inr (length b)) = (Inr 61 :: unit fault + nat)"
    by code_simp
  then obtain b where b: "Tx_Bytes sample_tx = (Inr b :: unit fault + bytes)" "length b = 61"
    by (auto simp: res_simps)
  then show ?thesis
    using Tx_Bytes_roundtrip [OF b(1) sample_tx_sizes] by (simp add: sample_tx_def)
qed

theorem EF_roundtrip_witness:
  "\<exists>b. EF sample_tx = (Inr b :: unit fault + bytes)
     \<and> NewTransactionFromBytes b = (Inr (wire_tx True sample_tx) :: unit fault + _)"
proof -
  have "is_ok (EF sample_tx :: unit fault + bytes)"
    by code_simp
  then obtain b where "EF sample_tx = (Inr b :: unit fault + bytes)"
    by (auto simp: is_ok_iff)
  then show ?thesis
    using EF_roundtrip [OF sample_tx_sizes, where 's = unit] by blast
qed

text \<open>A length field is trusted before the data is seen: an input whose script length is larger than any
  slice makes the reader panic in \<open>make\<close>, where a short read should be an error. 51 bytes are enough.\<close>

theorem oversized_script_length_panics:
  assumes "length txid = 32" "length ix = 4" "maxAlloc < unat l"
  shows "NewTransactionFromBytes (PutUint32 v @ VarInt_Bytes 1 @ txid @ ix @ VarInt_Bytes l @ rest)
     = (Inl Panic :: 's fault + Transaction)"
proof -
  have "TxIn_readFrom False (txid @ ix @ VarInt_Bytes l @ rest) = (Inl Panic :: 's fault + _)"
    using assms by (simp add: TxIn_readFrom_def VarInt_ReadFrom_Bytes make_ReadFull_def)
  then show ?thesis
    by (simp add: NewTransactionFromBytes_def NewTransactionFromStream_def Tx_ReadFrom_def VarInt_ReadFrom_Bytes
        read_rest_def)
qed

theorem oversized_script_length_panics_witness:
  "NewTransactionFromBytes (PutUint32 1 @ VarInt_Bytes 1 @ replicate 32 0 @ [0, 0, 0, 0] @ VarInt_Bytes 0xFFFFFFFFFFFFFFFF)
     = (Inl Panic :: unit fault + Transaction)"
proof -
  have "maxAlloc < unat (0xFFFFFFFFFFFFFFFF :: u64)"
    by (simp add: maxAlloc_def)
  then show ?thesis
    using oversized_script_length_panics [of "replicate 32 0" "[0, 0, 0, 0]" "0xFFFFFFFFFFFFFFFF" 1 "[]", where 's = unit]
    by simp
qed

text \<open>\<open>BytesWithClearedInputs\<close> leaves the outpoint and the sequence number of the input it is called for out
  of the serialization: only the length and the bytes of the given script are written in its place.\<close>

theorem BytesWithClearedInputs_omits_input:
  assumes "SourceTXID i = Some h" "rmap TxOut_Bytes outs = (Inr bs :: 's fault + _)"
  shows "BytesWithClearedInputs (Transaction v [i] outs lt m) 0 (Some ls)
    = (Inr (PutUint32 v @ [1] @ VarInt_Bytes (varlen ls) @ ls @ VarInt_Bytes (varlen outs) @ concat bs @ PutUint32 lt)
        :: 's fault + bytes)"
  using assms by (simp add: BytesWithClearedInputs_def toBytesHelper_eq input_part_def TxIn_Bytes_def tx_data_def VarInt_Bytes_def split: option.splits)

theorem BytesWithClearedInputs_omits_input_witness:
  "BytesWithClearedInputs (Transaction 1 [TransactionInput (Some (replicate 32 7)) None 3 4 None None None] [] 0 None) 0
     (Some [0x51]) = (Inr [1, 0, 0, 0, 1, 1, 0x51, 0, 0, 0, 0, 0] :: unit fault + bytes)"
proof -
  have "PutUint32 1 = [1, 0, 0, 0]" "PutUint32 0 = [0, 0, 0, 0]" "VarInt_Bytes 0 = [0]" "VarInt_Bytes 1 = [1]"
    by code_simp+
  then show ?thesis
    using BytesWithClearedInputs_omits_input [of "TransactionInput (Some (replicate 32 7)) None 3 4 None None None"
        "replicate 32 7" "[]" "[]" 1 0 None "[0x51]", where 's = unit]
    by simp
qed

end
