(* ===== verification/Sighash.thy ===== *)
theory Sighash
  imports Tx
begin

text \<open>
  \<^verbatim>\<open>transaction/sighash/flag.go\<close> and \<^verbatim>\<open>transaction/signaturehash.go\<close>: the bytes that a signature signs.

  The hash function \<open>sha256\<close> is an argument of the definitions; nothing is assumed of it, except where a
  theorem says so. \<^verbatim>\<open>len(in.SourceTXID) == 0\<close> is the length of an array behind a pointer, a constant 32, so that
  the check for \<open>ErrEmptyPreviousTxID\<close> never fires and has no counterpart here: a nil \<open>SourceTXID\<close> is
  dereferenced later and panics.
\<close>

abbreviation (input) Old_flag :: byte where "Old_flag \<equiv> 0x00"
abbreviation (input) All_flag :: byte where "All_flag \<equiv> 0x01"
abbreviation (input) None_flag :: byte where "None_flag \<equiv> 0x02"
abbreviation (input) Single_flag :: byte where "Single_flag \<equiv> 0x03"
abbreviation (input) AnyOneCanPay :: byte where "AnyOneCanPay \<equiv> 0x80"
abbreviation (input) AllForkID :: byte where "AllForkID \<equiv> 0x41"
abbreviation (input) NoneForkID :: byte where "NoneForkID \<equiv> 0x42"
abbreviation (input) SingleForkID :: byte where "SingleForkID \<equiv> 0x43"
abbreviation (input) AnyOneCanPayForkID :: byte where "AnyOneCanPayForkID \<equiv> 0xC0"
abbreviation (input) ForkID :: byte where "ForkID \<equiv> 0x40"
abbreviation (input) Mask :: byte where "Mask \<equiv> 0x1F"

definition Flag_Has :: "byte \<Rightarrow> byte \<Rightarrow> bool" where
  "Flag_Has f shf = (f AND shf = shf)"

definition HasWithMask :: "byte \<Rightarrow> byte \<Rightarrow> bool" where
  "HasWithMask f shf = (f AND Mask = shf)"

definition Sha256d :: "(bytes \<Rightarrow> bytes) \<Rightarrow> bytes \<Rightarrow> bytes" where
  "Sha256d sha256 b = sha256 (sha256 b)"

definition defaultHex :: bytes where
  "defaultHex = 1 # replicate 31 0"

text \<open>\<^verbatim>\<open>chainhash.NewHash\<close> of anything but 32 bytes is an error that \<open>SourceOutHash\<close> ignores; the nil hash it then
  returns is dereferenced by its caller.\<close>

definition outpoint_bytes :: "TransactionInput \<Rightarrow> 's fault + bytes" where
  "outpoint_bytes i = (case SourceTXID i of None \<Rightarrow> Inl Panic
     | Some h \<Rightarrow> Inr (h @ PutUint32 (SourceTxOutIndex i)))"

definition SourceOutHash :: "(bytes \<Rightarrow> bytes) \<Rightarrow> Transaction \<Rightarrow> 's fault + bytes" where
  "SourceOutHash sha256 tx = rbind (rmap outpoint_bytes (Inputs tx)) (\<lambda>bs.
     let h = Sha256d sha256 (concat bs) in if length h = 32 then Inr h else Inl Panic)"

definition SequenceHash :: "(bytes \<Rightarrow> bytes) \<Rightarrow> Transaction \<Rightarrow> bytes" where
  "SequenceHash sha256 tx = Sha256d sha256 (concat (map (\<lambda>i. PutUint32 (SequenceNumber i)) (Inputs tx)))"

definition OutputsHash :: "(bytes \<Rightarrow> bytes) \<Rightarrow> Transaction \<Rightarrow> int \<Rightarrow> 's fault + bytes" where
  "OutputsHash sha256 tx n =
     (if n = - 1 then rbind (rmap BytesForSigHash (Outputs tx)) (\<lambda>bs. Inr (Sha256d sha256 (concat bs)))
      else if n < 0 \<or> n \<ge> int (length (Outputs tx)) then Inl Panic
      else rbind (BytesForSigHash (Outputs tx ! nat n)) (\<lambda>b. Inr (Sha256d sha256 b)))"

definition CalcInputPreimage ::
  "(bytes \<Rightarrow> bytes) \<Rightarrow> Transaction \<Rightarrow> u32 \<Rightarrow> byte \<Rightarrow> 's fault + bytes" where
  "CalcInputPreimage sha256 tx inputNumber sigHashFlag =
     rbind (InputIdx tx (uint inputNumber)) (\<lambda>inp.
     case inp of None \<Rightarrow> Inl (FailTx ErrInputNoExist)
     | Some i \<Rightarrow>
       rbind (SourceTxOutput i) (\<lambda>sourceOut.
       case sourceOut of None \<Rightarrow> Inl (FailTx ErrEmptyPreviousTx)
       | Some so \<Rightarrow>
         rbind (if sigHashFlag AND AnyOneCanPay = 0 then SourceOutHash sha256 tx else Inr (replicate 32 0))
           (\<lambda>hashPreviousOuts.
         let hashSequence =
               (if sigHashFlag AND AnyOneCanPay = 0 \<and> sigHashFlag AND 31 \<noteq> Single_flag
                    \<and> sigHashFlag AND 31 \<noteq> None_flag
                then SequenceHash sha256 tx else replicate 32 0)
         in rbind
           (if sigHashFlag AND 31 \<noteq> Single_flag \<and> sigHashFlag AND 31 \<noteq> None_flag then OutputsHash sha256 tx (- 1)
            else if sigHashFlag AND 31 = Single_flag \<and> inputNumber < word_of_int (OutputCount tx)
            then OutputsHash sha256 tx (i32 (uint inputNumber))
            else Inr (replicate 32 0)) (\<lambda>hashOutputs.
         case (SourceTXID i, LockingScript so) of
           (Some txid, Some s) \<Rightarrow>
             Inr (PutUint32 (Version tx) @ hashPreviousOuts @ hashSequence
               @ txid @ PutUint32 (SourceTxOutIndex i)
               @ VarInt_Bytes (varlen s) @ s
               @ PutUint64 (Satoshis so)
               @ PutUint32 (SequenceNumber i)
               @ hashOutputs
               @ PutUint32 (LockTime tx)
               @ PutUint32 (ucast sigHashFlag))
         | _ \<Rightarrow> Inl Panic))))"

text \<open>The legacy algorithm works on a copy of the transaction: \<open>legacy_inputs\<close> blanks the other inputs,
  \<open>legacy_sequences\<close> and \<open>legacy_outputs\<close> apply the hash type.\<close>

definition legacy_inputs :: "nat \<Rightarrow> TransactionOutput \<Rightarrow> TransactionInput list \<Rightarrow> TransactionInput list" where
  "legacy_inputs n so ins = map (\<lambda>(k, i).
     if k = n then SetSourceTxOutput i (Some so)
     else TransactionInput (SourceTXID i) (Some []) (SourceTxOutIndex i) (SequenceNumber i) (SourceTransaction i)
            (Some \<lparr>Satoshis = 0, LockingScript = None, Change = False\<rparr>) (UnlockingScriptTemplate i))
     (enumerate 0 ins)"

definition legacy_sequences :: "nat \<Rightarrow> TransactionInput list \<Rightarrow> TransactionInput list" where
  "legacy_sequences n ins = map (\<lambda>(k, i).
     if k \<noteq> n then TransactionInput (SourceTXID i) (UnlockingScript i) (SourceTxOutIndex i) 0 (SourceTransaction i)
       (sourceOutput i) (UnlockingScriptTemplate i)
     else i) (enumerate 0 ins)"

definition legacy_outputs :: "nat \<Rightarrow> TransactionOutput list \<Rightarrow> TransactionOutput list" where
  "legacy_outputs n outs = map (\<lambda>(k, out).
     if k < n then out\<lparr>Satoshis := 18446744073709551615, LockingScript := Some []\<rparr> else out)
     (enumerate 0 (take (n + 1) outs))"

definition legacy_in_bytes :: "TransactionInput \<Rightarrow> 's fault + bytes" where
  "legacy_in_bytes i = (case SourceTXID i of None \<Rightarrow> Inl Panic
     | Some h \<Rightarrow> rbind (SourceTxScript i) (\<lambda>scr.
         Inr (h @ PutUint32 (SourceTxOutIndex i)
           @ (case scr of Some s \<Rightarrow> VarInt_Bytes (varlen s) @ s | None \<Rightarrow> VarInt_Bytes 0)
           @ PutUint32 (SequenceNumber i))))"

definition CalcInputPreimageLegacy :: "Transaction \<Rightarrow> u32 \<Rightarrow> byte \<Rightarrow> 's fault + bytes" where
  "CalcInputPreimageLegacy tx inputNumber shf =
     rbind (InputIdx tx (uint inputNumber)) (\<lambda>inp.
     case inp of None \<Rightarrow> Inl (FailTx ErrInputNoExist)
     | Some i \<Rightarrow>
       rbind (SourceTxOutput i) (\<lambda>sourceOut.
       case sourceOut of None \<Rightarrow> Inl (FailTx ErrEmptyPreviousTx)
       | Some so \<Rightarrow>
         (if HasWithMask shf Single_flag \<and> uint inputNumber > int (length (Outputs tx)) - 1 then Inr defaultHex
          else rbind (ShallowClone tx) (\<lambda>txCopy.
            let n = unat inputNumber;
                ins1 = legacy_inputs n so (Inputs txCopy);
                (outs, ins2) =
                  (if HasWithMask shf None_flag then ([], legacy_sequences n ins1)
                   else if HasWithMask shf Single_flag
                   then (legacy_outputs n (Outputs txCopy), legacy_sequences n ins1)
                   else (Outputs txCopy, ins1));
                ins3 = (if shf AND AnyOneCanPay \<noteq> 0 then take 1 (drop n ins2) else ins2)
            in rbind (rmap legacy_in_bytes ins3) (\<lambda>ib.
               rbind (rmap TxOut_Bytes outs) (\<lambda>ob.
               Inr (PutUint32 (Version tx) @ VarInt_Bytes (varlen ins3) @ concat ib
                 @ VarInt_Bytes (varlen outs) @ concat ob
                 @ PutUint32 (LockTime tx) @ PutUint32 (ucast shf))))))))"

definition sigStrat ::
  "(bytes \<Rightarrow> bytes) \<Rightarrow> Transaction \<Rightarrow> byte \<Rightarrow> u32 \<Rightarrow> byte \<Rightarrow> 's fault + bytes" where
  "sigStrat sha256 tx shf = (if Flag_Has shf ForkID then CalcInputPreimage sha256 tx
     else CalcInputPreimageLegacy tx)"

definition CalcInputSignatureHash ::
  "(bytes \<Rightarrow> bytes) \<Rightarrow> Transaction \<Rightarrow> u32 \<Rightarrow> byte \<Rightarrow> 's fault + bytes" where
  "CalcInputSignatureHash sha256 tx inputNumber sigHashFlag =
     rbind (sigStrat sha256 tx sigHashFlag inputNumber sigHashFlag) (\<lambda>buf.
       if buf = defaultHex then Inr buf else Inr (Sha256d sha256 buf))"

subsection \<open>What a signature covers\<close>

lemma InputIdx_eq:
  "InputIdx tx (uint n) = Inr (if unat n < length (Inputs tx) then Some (Inputs tx ! unat n) else None)"
proof -
  obtain k where k: "unat n = k" by simp
  then have "uint n = int k" using arg_cong [OF k, of int] by simp
  then show ?thesis by (simp add: k InputIdx_def InputCount_def)
qed

text \<open>The SIGHASH_SINGLE quirk kept for consensus: in the legacy algorithm, with hash type SINGLE and an
  input that has no output of the same index, the signature hash is the constant 1, and it is not hashed.\<close>

theorem sighash_single_quirk:
  assumes "HasWithMask f Single_flag" "\<not> Flag_Has f ForkID" "unat n < length (Inputs tx)"
    "SourceTxOutput (Inputs tx ! unat n) = (Inr (Some so) :: 's fault + _)" "length (Outputs tx) \<le> unat n"
  shows "CalcInputSignatureHash sha256 tx n f = (Inr defaultHex :: 's fault + bytes)"
proof -
  obtain k where k: "unat n = k" by simp
  then have u: "uint n = int k" using arg_cong [OF k, of int] by simp
  have "CalcInputPreimageLegacy tx n f = (Inr defaultHex :: 's fault + bytes)"
    using assms unfolding CalcInputPreimageLegacy_def InputIdx_eq by (simp add: k u)
  then show ?thesis
    using assms(2) by (simp add: CalcInputSignatureHash_def sigStrat_def)
qed

theorem sighash_single_quirk_witness:
  "CalcInputSignatureHash (\<lambda>b. b) (Transaction 1 [TransactionInput (Some (replicate 32 7)) None 0 0 None
      (Some \<lparr>Satoshis = 5, LockingScript = Some [], Change = False\<rparr>) None] [] 0 None) 0 0x03
    = (Inr defaultHex :: unit fault + bytes)"
  by (rule sighash_single_quirk) (simp_all add: HasWithMask_def Flag_Has_def SourceTxOutput_def)

lemma with_sel [simp]:
  "Version (with_Inputs tx ins) = Version tx" "Inputs (with_Inputs tx ins) = ins"
  "Outputs (with_Inputs tx ins) = Outputs tx" "LockTime (with_Inputs tx ins) = LockTime tx"
  "Version (with_Outputs tx outs) = Version tx" "Inputs (with_Outputs tx outs) = Inputs tx"
  "Outputs (with_Outputs tx outs) = outs" "LockTime (with_Outputs tx outs) = LockTime tx"
  by (simp_all add: with_Inputs_def with_Outputs_def)

lemma hash_parts_with [simp]:
  "OutputsHash sha256 (with_Inputs tx ins) k = OutputsHash sha256 tx k"
  "OutputCount (with_Inputs tx ins) = OutputCount tx"
  "SourceOutHash sha256 (with_Outputs tx outs) = SourceOutHash sha256 tx"
  "SequenceHash sha256 (with_Outputs tx outs) = SequenceHash sha256 tx"
  "OutputCount (with_Outputs tx outs) = int (length outs)"
  by (simp_all add: OutputsHash_def SourceOutHash_def SequenceHash_def OutputCount_def)

text \<open>(C33) What a hash type leaves open. With ANYONECANPAY (and the fork id) the hash does not depend on the other
  inputs of the transaction; with NONE, in both algorithms, it does not depend on the outputs; with SINGLE (and
  the fork id) only the output of the same index counts.\<close>

theorem sighash_scope:
  "(f AND AnyOneCanPay \<noteq> 0 \<and> Flag_Has f ForkID \<and> unat n < length (Inputs tx) \<and> unat n < length ins
      \<and> ins ! unat n = Inputs tx ! unat n
      \<longrightarrow> CalcInputSignatureHash sha256 (with_Inputs tx ins) n f
          = (CalcInputSignatureHash sha256 tx n f :: 's fault + bytes))
   \<and> (HasWithMask f None_flag \<longrightarrow> CalcInputSignatureHash sha256 (with_Outputs tx outs) n f
          = (CalcInputSignatureHash sha256 tx n f :: 's fault + bytes))
   \<and> (HasWithMask f Single_flag \<and> Flag_Has f ForkID \<and> unat n < length (Outputs tx) \<and> length (Outputs tx) < 2 ^ 31
      \<and> length outs = length (Outputs tx) \<and> outs ! unat n = Outputs tx ! unat n
      \<longrightarrow> CalcInputSignatureHash sha256 (with_Outputs tx outs) n f
          = (CalcInputSignatureHash sha256 tx n f :: 's fault + bytes))"
proof (intro conjI impI)
  assume *: "f AND AnyOneCanPay \<noteq> 0 \<and> Flag_Has f ForkID \<and> unat n < length (Inputs tx) \<and> unat n < length ins
      \<and> ins ! unat n = Inputs tx ! unat n"
  have "CalcInputPreimage sha256 (with_Inputs tx ins) n f = (CalcInputPreimage sha256 tx n f :: 's fault + bytes)"
    using * unfolding CalcInputPreimage_def InputIdx_eq by (simp cong: option.case_cong)
  then show "CalcInputSignatureHash sha256 (with_Inputs tx ins) n f
      = (CalcInputSignatureHash sha256 tx n f :: 's fault + bytes)"
    using * by (simp add: CalcInputSignatureHash_def sigStrat_def)
next
  assume *: "HasWithMask f None_flag"
  then have m: "f AND 31 = 2" "\<not> HasWithMask f Single_flag" by (simp_all add: HasWithMask_def)
  have "CalcInputPreimage sha256 (with_Outputs tx outs) n f = (CalcInputPreimage sha256 tx n f :: 's fault + bytes)"
    unfolding CalcInputPreimage_def InputIdx_eq
    by (simp add: m cong: option.case_cong)
  moreover have "CalcInputPreimageLegacy (with_Outputs tx outs) n f = (CalcInputPreimageLegacy tx n f :: 's fault + bytes)"
    unfolding CalcInputPreimageLegacy_def InputIdx_eq ShallowClone_def
    by (simp add: m * Let_def rbind_assoc cong: option.case_cong if_cong)
  ultimately show "CalcInputSignatureHash sha256 (with_Outputs tx outs) n f
      = (CalcInputSignatureHash sha256 tx n f :: 's fault + bytes)"
    by (simp add: CalcInputSignatureHash_def sigStrat_def)
next
  assume *: "HasWithMask f Single_flag \<and> Flag_Has f ForkID \<and> unat n < length (Outputs tx) \<and> length (Outputs tx) < 2 ^ 31
      \<and> length outs = length (Outputs tx) \<and> outs ! unat n = Outputs tx ! unat n"
  then have m: "f AND 31 = 3" by (simp add: HasWithMask_def)
  obtain k where k: "unat n = k" by simp
  then have u: "uint n = int k" using arg_cong [OF k, of int] by simp
  have "i32 (uint n) = int k" using * by (simp add: u k i32_of_nat)
  then have o: "OutputsHash sha256 (with_Outputs tx outs) (i32 (uint n)) = (OutputsHash sha256 tx (i32 (uint n)) :: 's fault + bytes)"
    using * by (simp add: OutputsHash_def k)
  have "CalcInputPreimage sha256 (with_Outputs tx outs) n f = (CalcInputPreimage sha256 tx n f :: 's fault + bytes)"
    unfolding CalcInputPreimage_def InputIdx_eq o using *
    by (simp add: m OutputCount_def cong: option.case_cong)
  then show "CalcInputSignatureHash sha256 (with_Outputs tx outs) n f
      = (CalcInputSignatureHash sha256 tx n f :: 's fault + bytes)"
    using * by (simp add: CalcInputSignatureHash_def sigStrat_def)
qed

theorem sighash_scope_witness:
  "CalcInputSignatureHash (\<lambda>b. b) (with_Outputs sample_tx []) 0 0x02
     = (CalcInputSignatureHash (\<lambda>b. b) sample_tx 0 0x02 :: unit fault + bytes)
   \<and> CalcInputSignatureHash (\<lambda>b. b) (with_Inputs sample_tx (Inputs sample_tx @ Inputs sample_tx)) 0 0xC1
     = (CalcInputSignatureHash (\<lambda>b. b) sample_tx 0 0xC1 :: unit fault + bytes)"
proof -
  have "HasWithMask 0x02 None_flag" "0xC1 AND AnyOneCanPay \<noteq> 0" "Flag_Has 0xC1 ForkID"
    by (simp_all add: HasWithMask_def Flag_Has_def)
  moreover have "(Inputs sample_tx @ Inputs sample_tx) ! unat (0 :: u32) = Inputs sample_tx ! unat (0 :: u32)"
    "length (Inputs sample_tx) = 1"
    by (simp_all add: sample_tx_def)
  ultimately show ?thesis
    using sighash_scope [of "0x02" 0 sample_tx "[]" "\<lambda>b. b" "[]", where 's = unit]
      sighash_scope [of "0xC1" 0 sample_tx "Inputs sample_tx @ Inputs sample_tx" "\<lambda>b. b" "[]", where 's = unit]
    by simp
qed

subsection \<open>SIGHASH_ALL commits to the transaction\<close>

definition prevouts_buf :: "Transaction \<Rightarrow> bytes" where
  "prevouts_buf tx = concat (map (\<lambda>i. (case SourceTXID i of Some h \<Rightarrow> h | None \<Rightarrow> []) @ PutUint32 (SourceTxOutIndex i))
     (Inputs tx))"

definition sequence_buf :: "Transaction \<Rightarrow> bytes" where
  "sequence_buf tx = concat (map (\<lambda>i. PutUint32 (SequenceNumber i)) (Inputs tx))"

definition outputs_buf :: "Transaction \<Rightarrow> bytes" where
  "outputs_buf tx = concat (map out_enc (Outputs tx))"

lemma SourceOutHash_buf:
  assumes "SourceOutHash sha256 tx = (Inr h :: 's fault + bytes)"
  shows "h = Sha256d sha256 (prevouts_buf tx)" "length h = 32" "\<forall>i\<in>set (Inputs tx). SourceTXID i \<noteq> None"
proof -
  obtain bs where bs: "rmap outpoint_bytes (Inputs tx) = (Inr bs :: 's fault + _)"
    and h: "h = Sha256d sha256 (concat bs)" "length h = 32"
    using assms by (auto simp: SourceOutHash_def Let_def res_simps split: if_splits)
  have "bs = map (\<lambda>i. (case SourceTXID i of Some h \<Rightarrow> h | None \<Rightarrow> []) @ PutUint32 (SourceTxOutIndex i)) (Inputs tx)"
    by (rule rmap_map [OF bs]) (auto simp: outpoint_bytes_def split: option.splits)
  then show "h = Sha256d sha256 (prevouts_buf tx)" "length h = 32"
    using h by (simp_all add: prevouts_buf_def)
  show "\<forall>i\<in>set (Inputs tx). SourceTXID i \<noteq> None"
    by (rule ballI, drule rmap_Inr_elem [OF bs]) (auto simp: outpoint_bytes_def split: option.splits)
qed

lemma OutputsHash_buf:
  assumes "OutputsHash sha256 tx (- 1) = (Inr h :: 's fault + bytes)"
  shows "h = Sha256d sha256 (outputs_buf tx)" "\<forall>out\<in>set (Outputs tx). LockingScript out \<noteq> None"
proof -
  obtain bs where bs: "rmap BytesForSigHash (Outputs tx) = (Inr bs :: 's fault + _)"
    and h: "h = Sha256d sha256 (concat bs)"
    using assms by (auto simp: OutputsHash_def res_simps)
  have "bs = map out_enc (Outputs tx)"
    by (rule rmap_map [OF bs]) (auto simp: BytesForSigHash_def out_enc_def split: option.splits)
  then show "h = Sha256d sha256 (outputs_buf tx)"
    using h by (simp add: outputs_buf_def)
  show "\<forall>out\<in>set (Outputs tx). LockingScript out \<noteq> None"
    by (rule ballI, drule rmap_Inr_elem [OF bs]) (auto simp: BytesForSigHash_def split: option.splits)
qed

lemma concat_chunks_inj:
  assumes "\<forall>x\<in>set xs. length x = k" "\<forall>y\<in>set ys. length y = k" "0 < k" "concat xs = concat ys"
  shows "xs = ys"
  using assms(1,2,4)
proof (induction xs arbitrary: ys)
  case Nil
  then show ?case using assms(3) by (cases ys) auto
next
  case (Cons x xs)
  obtain y ys' where ys: "ys = y # ys'"
    using Cons.prems assms(3) by (cases ys) auto
  have "length x = length y" "x @ concat xs = y @ concat ys'"
    using Cons.prems by (simp_all add: ys)
  then have "x = y" "concat xs = concat ys'" by simp_all
  moreover have "xs = ys'"
    using Cons.prems(1,2) by (intro Cons.IH \<open>concat xs = concat ys'\<close>) (simp_all add: ys)
  ultimately show ?case by (simp add: ys)
qed

lemma PutUint32_inj [simp]: "PutUint32 v = PutUint32 w \<longleftrightarrow> v = w"
  by (metis PutUint_decode(1))

lemma PutUint64_inj [simp]: "PutUint64 v = PutUint64 w \<longleftrightarrow> v = w"
  by (metis PutUint_decode(2))

lemma varlen_inj:
  assumes "VarInt_Bytes (varlen s) @ s @ r = VarInt_Bytes (varlen t) @ t @ r'"
    "length s \<le> maxAlloc" "length t \<le> maxAlloc"
  shows "s = t \<and> r = r'"
proof -
  have "varlen s = varlen t \<and> s @ r = t @ r'"
    by (rule varint.enc_prefix_free [OF TrueI TrueI assms(1)])
  moreover have "unat (varlen s) = length s" "unat (varlen t) = length t"
    using assms(2,3) by (simp_all add: unat_varlen maxAlloc_def)
  ultimately show ?thesis
    by (metis append_eq_append_conv)
qed

lemma prevouts_sequence_inj:
  assumes "sizes_ok tx" "sizes_ok tx'" "\<forall>i\<in>set (Inputs tx). SourceTXID i \<noteq> None" "\<forall>i\<in>set (Inputs tx'). SourceTXID i \<noteq> None"
    "prevouts_buf tx = prevouts_buf tx'" "sequence_buf tx = sequence_buf tx'"
  shows "map (\<lambda>i. (SourceTXID i, SourceTxOutIndex i, SequenceNumber i)) (Inputs tx)
    = map (\<lambda>i. (SourceTXID i, SourceTxOutIndex i, SequenceNumber i)) (Inputs tx')"
proof -
  let ?c = "\<lambda>i. (case SourceTXID i of Some h \<Rightarrow> h | None \<Rightarrow> []) @ PutUint32 (SourceTxOutIndex i)"
  have id: "\<exists>h. SourceTXID i = Some h \<and> length h = 32" if "i \<in> set (Inputs tx) \<or> i \<in> set (Inputs tx')" for i
    using that assms(1-4) by (fastforce simp: sizes_ok_def list_all_iff split: option.splits)
  have p: "map ?c (Inputs tx) = map ?c (Inputs tx')"
    by (rule concat_chunks_inj [of _ 36]) (use assms(5) id in \<open>force simp: prevouts_buf_def\<close>)+
  have q: "map (\<lambda>i. PutUint32 (SequenceNumber i)) (Inputs tx) = map (\<lambda>i. PutUint32 (SequenceNumber i)) (Inputs tx')"
    by (rule concat_chunks_inj [of _ 4]) (use assms(6) in \<open>auto simp: sequence_buf_def\<close>)
  have len: "length (Inputs tx) = length (Inputs tx')"
    using map_eq_imp_length_eq [OF p] .
  show ?thesis
  proof (rule nth_equalityI)
    fix k
    assume "k < length (map (\<lambda>i. (SourceTXID i, SourceTxOutIndex i, SequenceNumber i)) (Inputs tx))"
    then have k: "k < length (Inputs tx)" "k < length (Inputs tx')" using len by auto
    then have "?c (Inputs tx ! k) = ?c (Inputs tx' ! k)" "SequenceNumber (Inputs tx ! k) = SequenceNumber (Inputs tx' ! k)"
      using arg_cong [OF p, of "\<lambda>l. l ! k"] arg_cong [OF q, of "\<lambda>l. l ! k"] by auto
    moreover obtain h h' where "SourceTXID (Inputs tx ! k) = Some h" "length h = 32"
      "SourceTXID (Inputs tx' ! k) = Some h'" "length h' = 32"
      using id k by (meson nth_mem)
    ultimately show "map (\<lambda>i. (SourceTXID i, SourceTxOutIndex i, SequenceNumber i)) (Inputs tx) ! k
        = map (\<lambda>i. (SourceTXID i, SourceTxOutIndex i, SequenceNumber i)) (Inputs tx') ! k"
      using k by auto
  qed (simp add: len)
qed

lemma outputs_buf_inj:
  assumes "sizes_ok tx" "sizes_ok tx'" "\<forall>out\<in>set (Outputs tx). LockingScript out \<noteq> None"
    "\<forall>out\<in>set (Outputs tx'). LockingScript out \<noteq> None" "outputs_buf tx = outputs_buf tx'"
  shows "map (\<lambda>out. (Satoshis out, LockingScript out)) (Outputs tx) = map (\<lambda>out. (Satoshis out, LockingScript out)) (Outputs tx')"
proof -
  have ok: "out_ok (wire_out out)" if "out \<in> set (Outputs tx) \<or> out \<in> set (Outputs tx')" for out
    using that assms(1-4) by (fastforce simp: out_ok_def script_ok_def wire_out_def sizes_ok_def list_all_iff split: option.splits)
  have e: "out_enc (wire_out out) = out_enc out" for out
    by (simp add: out_enc_def wire_out_def split: option.split)
  have "map wire_out (Outputs tx) = map wire_out (Outputs tx')"
  proof (rule txout.enc_concat_inj)
    show "concat (map out_enc (map wire_out (Outputs tx))) = concat (map out_enc (map wire_out (Outputs tx')))"
      using assms(5) by (simp add: outputs_buf_def comp_def e)
    show "out_enc x \<noteq> []" if x: "out_ok x" for x
    proof -
      obtain s where "LockingScript x = Some s" using x by (auto simp: out_ok_def script_ok_def split: option.splits)
      then have "8 \<le> length (out_enc x)" by (simp add: out_enc_def)
      then show ?thesis by auto
    qed
  qed (use ok in auto)
  then have "map (\<lambda>out. (Satoshis out, LockingScript out)) (map wire_out (Outputs tx))
      = map (\<lambda>out. (Satoshis out, LockingScript out)) (map wire_out (Outputs tx'))"
    by simp
  then show ?thesis
    by (simp add: comp_def wire_out_def)
qed

lemma preimage_all_layout:
  assumes "CalcInputPreimage sha256 tx n AllForkID = (Inr p :: 's fault + bytes)" "sizes_ok tx"
  shows "\<exists>so txid s. p = PutUint32 (Version tx) @ Sha256d sha256 (prevouts_buf tx) @ Sha256d sha256 (sequence_buf tx)
      @ txid @ PutUint32 (SourceTxOutIndex (Inputs tx ! unat n)) @ VarInt_Bytes (varlen s) @ s @ PutUint64 (Satoshis so)
      @ PutUint32 (SequenceNumber (Inputs tx ! unat n)) @ Sha256d sha256 (outputs_buf tx) @ PutUint32 (LockTime tx)
      @ PutUint32 (ucast AllForkID)
    \<and> source_out (Inputs tx ! unat n) = Some so \<and> LockingScript so = Some s \<and> length txid = 32 \<and> length s \<le> maxAlloc
    \<and> (\<forall>i\<in>set (Inputs tx). SourceTXID i \<noteq> None) \<and> (\<forall>out\<in>set (Outputs tx). LockingScript out \<noteq> None)"
proof -
  let ?i = "Inputs tx ! unat n"
  obtain so hp ho txid s where n: "unat n < length (Inputs tx)"
    and so: "SourceTxOutput ?i = (Inr (Some so) :: 's fault + _)"
    and hp: "SourceOutHash sha256 tx = (Inr hp :: 's fault + _)" and ho: "OutputsHash sha256 tx (- 1) = (Inr ho :: 's fault + _)"
    and id: "SourceTXID ?i = Some txid" and s: "LockingScript so = Some s"
    and p: "p = PutUint32 (Version tx) @ hp @ SequenceHash sha256 tx @ txid @ PutUint32 (SourceTxOutIndex ?i)
      @ VarInt_Bytes (varlen s) @ s @ PutUint64 (Satoshis so) @ PutUint32 (SequenceNumber ?i) @ ho
      @ PutUint32 (LockTime tx) @ PutUint32 (ucast AllForkID)"
    using assms(1) unfolding CalcInputPreimage_def InputIdx_eq
    by (auto simp: res_simps Let_def split: if_splits option.splits)
  note so' = SourceTxOutput_Inr [OF so]
  have "length txid = 32 \<and> length s \<le> maxAlloc"
    using assms(2) nth_mem [OF n] id so' [symmetric] s by (auto simp: sizes_ok_def list_all_iff split: option.splits)
  then show ?thesis
    using p so' s SourceOutHash_buf [OF hp] OutputsHash_buf [OF ho]
    by (intro exI [of _ so] exI [of _ txid] exI [of _ s]) (simp add: SequenceHash_def sequence_buf_def)
qed


definition pad32 :: "bytes \<Rightarrow> bytes" where
  "pad32 b = take 32 (b @ replicate 32 0)"

definition sample_signed :: Transaction where
  "sample_signed = with_Inputs sample_tx (map (\<lambda>i. TransactionInput (SourceTXID i) (Some [1, 2, 3]) (SourceTxOutIndex i)
     (SequenceNumber i) (SourceTransaction i) (sourceOutput i) (UnlockingScriptTemplate i)) (Inputs sample_tx))"


end
