(* ===== verification/Thread.thy ===== *)
theory Thread
  imports Opcode_Parser Sighash
begin

text \<open>
  \<^verbatim>\<open>script/interpreter/thread.go\<close>: the state of one script execution and the checks the opcode handlers share. The
  engine proper (\<open>executeOpcode\<close>, \<open>Step\<close>, \<open>apply\<close>, \<open>execute\<close>) is in theory \<open>Engine\<close>.

  The record \<open>thread\<close> has the fields of the struct, less the debugger and the state handler, which only
  observe. The parser is its single setting \<open>ErrorOnCheckSig\<close>. Script positions are natural numbers: the code
  only ever increments them from 0.

  The cryptographic functions are code of other packages. The record \<open>crypto\<close> has what the interpreter calls,
  for any types of parsed keys and signatures: \<^verbatim>\<open>crypto/sha256\<close>, \<^verbatim>\<open>crypto/sha1\<close>, \<^verbatim>\<open>ripemd160\<close>, and package
  \<open>ec\<close> (\<open>None\<close> is the error return of a parser). It is an argument of the handlers that need it.
\<close>

record ('pk, 'sg) crypto =
  sha256 :: "bytes \<Rightarrow> bytes"
  sha1 :: "bytes \<Rightarrow> bytes"
  ripemd160 :: "bytes \<Rightarrow> bytes"
  ParsePubKey :: "bytes \<Rightarrow> 'pk option"
  ParseSignature :: "bytes \<Rightarrow> 'sg option"
  ParseDERSignature :: "bytes \<Rightarrow> 'sg option"
  ToDER :: "'sg \<Rightarrow> bytes option"
  Verify :: "'sg \<Rightarrow> bytes \<Rightarrow> 'pk \<Rightarrow> bool"
  externalVerifySignatureFn :: "(bytes \<Rightarrow> bytes \<Rightarrow> bytes \<Rightarrow> bool) option"

record thread =
  dstack :: stack
  astack :: stack
  elseStack :: boolStack
  cfg :: config
  scripts :: "ParsedScript list"
  condStack :: "int list"
  savedFirstStack :: "bytes list"
  errorOnCheckSig :: bool
  scriptIdx :: nat
  scriptOff :: nat
  lastCodeSep :: nat
  thTx :: "Transaction option"
  inputIdx :: int
  prevOutput :: "TransactionOutput option"
  numOps :: int
  thFlags :: u32
  bip16 :: bool
  afterGenesis :: bool
  afterChronicle :: bool
  earlyReturnAfterGenesis :: bool

abbreviation (input) opCondFalse :: int where "opCondFalse \<equiv> 0"
abbreviation (input) opCondTrue :: int where "opCondTrue \<equiv> 1"
abbreviation (input) opCondSkip :: int where "opCondSkip \<equiv> 2"
abbreviation (input) LockTimeThreshold :: int where "LockTimeThreshold \<equiv> 500000000"

type_synonym outcome = "thread fault + thread"

definition hasFlag :: "thread \<Rightarrow> u32 \<Rightarrow> bool" where
  "hasFlag t flag = HasFlag (thFlags t) flag"

definition hasAny :: "thread \<Rightarrow> u32 list \<Rightarrow> bool" where
  "hasAny t ff = HasAny (thFlags t) ff"

definition addFlag :: "thread \<Rightarrow> u32 \<Rightarrow> thread" where
  "addFlag t flag = t\<lparr>thFlags := AddFlag (thFlags t) flag\<rparr>"

definition isBranchExecuting :: "thread \<Rightarrow> bool" where
  "isBranchExecuting t = (condStack t = [] \<or> last (condStack t) = opCondTrue)"

definition shouldExec :: "thread \<Rightarrow> ParsedOpcode \<Rightarrow> bool" where
  "shouldExec t pop = (if \<not> afterGenesis t then True
     else let cf = \<not> list_ex (\<lambda>v. v = opCondFalse) (condStack t)
          in cf \<and> (\<not> earlyReturnAfterGenesis t \<or> opval (op pop) = OpRETURN))"

definition validPC :: "thread \<Rightarrow> 's fault + unit" where
  "validPC t = (if scriptIdx t \<ge> length (scripts t) then Inl (Fail ErrInvalidProgramCounter)
     else if scriptOff t \<ge> length (scripts t ! scriptIdx t) then Inl (Fail ErrInvalidProgramCounter)
     else Inr ())"

definition CheckErrorCondition :: "bool \<Rightarrow> thread \<Rightarrow> outcome" where
  "CheckErrorCondition finalScript t =
     (if Depth (dstack t) < 1 then Inl (Fail ErrEmptyStack)
      else if finalScript \<and> hasFlag t VerifyCleanStack \<and> Depth (dstack t) \<noteq> 1 then Inl (Fail ErrCleanStack)
      else rbind (PopBool (dstack t)) (\<lambda>(v, s).
        if \<not> v then Inl (Fail ErrEvalFalse) else Inr (t\<lparr>dstack := s\<rparr>)))"

definition GetStack :: "thread \<Rightarrow> bytes list" where
  "GetStack t = getStack (dstack t)"

definition SetStack :: "thread \<Rightarrow> bytes list \<Rightarrow> thread" where
  "SetStack t data = t\<lparr>dstack := setStack (dstack t) data\<rparr>"

text \<open>The callers hold a valid \<open>scriptIdx\<close>; a start beyond the end of the script panics.\<close>

definition subScript :: "thread \<Rightarrow> 's fault + ParsedScript" where
  "subScript t =
     (let skip = (if lastCodeSep t > 0 then lastCodeSep t + 1 else 0)
      in if scriptIdx t \<ge> length (scripts t) then Inl Panic
         else if skip > length (scripts t ! scriptIdx t) then Inl Panic
         else Inr (drop skip (scripts t ! scriptIdx t)))"

definition shiftScript :: "thread \<Rightarrow> thread" where
  "shiftScript t = t\<lparr>numOps := 0, scriptOff := 0, scriptIdx := scriptIdx t + 1, earlyReturnAfterGenesis := False\<rparr>"

definition checkHashTypeEncoding :: "thread \<Rightarrow> byte \<Rightarrow> 's fault + unit" where
  "checkHashTypeEncoding t shf =
     (if \<not> hasFlag t VerifyStrictEncoding then Inr ()
      else
        let sigHashType0 = shf AND NOT AnyOneCanPay;
            bip143 = hasFlag t VerifyBip143SigHash;
            sigHashType = (if bip143 then sigHashType0 XOR ForkID else sigHashType0)
        in if bip143 \<and> shf AND ForkID = 0 then Inl (Fail ErrInvalidSigHashType)
           else if \<not> Flag_Has sigHashType ForkID then
             (if sigHashType < All_flag \<or> sigHashType > Single_flag then Inl (Fail ErrInvalidSigHashType) else Inr ())
           else if sigHashType < AllForkID \<or> sigHashType > SingleForkID then Inl (Fail ErrInvalidSigHashType)
           else if \<not> hasFlag t EnableSighashForkID \<and> Flag_Has shf ForkID then Inl (Fail ErrIllegalForkID)
           else if hasFlag t EnableSighashForkID \<and> \<not> Flag_Has shf ForkID then Inl (Fail ErrIllegalForkID)
           else Inr ())"

definition checkPubKeyEncoding :: "thread \<Rightarrow> bytes \<Rightarrow> 's fault + unit" where
  "checkPubKeyEncoding t pubKey =
     (if \<not> hasFlag t VerifyStrictEncoding then Inr ()
      else if length pubKey = 33 \<and> (pubKey ! 0 = 0x02 \<or> pubKey ! 0 = 0x03) then Inr ()
      else if length pubKey = 65 \<and> pubKey ! 0 = 0x04 then Inr ()
      else Inl (Fail ErrPubKeyType))"

text \<open>\<open>halfOrder\<close>: the order of the group of secp256k1 (\<^verbatim>\<open>primitives/ec/ec.go\<close>), halved. \<open>be_val\<close> is \<^verbatim>\<open>big.Int.SetBytes\<close>.\<close>

definition halfOrder :: int where
  "halfOrder = 0xFFFFFFFFFFFFFFFFFFFFFFFFFFFFFFFEBAAEDCE6AF48A03BBFD25E8CD0364141 div 2"

definition be_val :: "bytes \<Rightarrow> nat" where
  "be_val bs = le_val (rev bs)"

definition checkSignatureEncoding :: "thread \<Rightarrow> bytes \<Rightarrow> 's fault + unit" where
  "checkSignatureEncoding t sig =
     (if \<not> hasAny t [VerifyDERSignatures, VerifyLowS, VerifyStrictEncoding] then Inr ()
      else
        let sigLen = length sig
        in if sigLen < 8 then Inl (Fail ErrSigTooShort)
           else if sigLen > 72 then Inl (Fail ErrSigTooLong)
           else if sig ! 0 \<noteq> 0x30 then Inl (Fail ErrSigInvalidSeqID)
           else if unat (sig ! 1) \<noteq> sigLen - 2 then Inl (Fail ErrSigInvalidDataLen)
           else
             let rLen = unat (sig ! 3); sTypeOffset = 4 + rLen; sLenOffset = sTypeOffset + 1
             in if sTypeOffset \<ge> sigLen then Inl (Fail ErrSigMissingSTypeID)
                else if sLenOffset \<ge> sigLen then Inl (Fail ErrSigMissingSLen)
                else
                  let sOffset = sLenOffset + 1; sLen = unat (sig ! sLenOffset)
                  in if sOffset + sLen \<noteq> sigLen then Inl (Fail ErrSigInvalidSLen)
                     else if sig ! 2 \<noteq> 0x02 then Inl (Fail ErrSigInvalidRIntID)
                     else if rLen = 0 then Inl (Fail ErrSigZeroRLen)
                     else if sig ! 4 AND 0x80 \<noteq> 0 then Inl (Fail ErrSigNegativeR)
                     else if rLen > 1 \<and> sig ! 4 = 0x00 \<and> sig ! 5 AND 0x80 = 0 then Inl (Fail ErrSigTooMuchRPadding)
                     else if sig ! sTypeOffset \<noteq> 0x02 then Inl (Fail ErrSigInvalidSIntID)
                     else if sLen = 0 then Inl (Fail ErrSigZeroSLen)
                     else if sig ! sOffset AND 0x80 \<noteq> 0 then Inl (Fail ErrSigNegativeS)
                     else if sLen > 1 \<and> sig ! sOffset = 0x00 \<and> sig ! (sOffset + 1) AND 0x80 = 0
                       then Inl (Fail ErrSigTooMuchSPadding)
                     else if hasFlag t VerifyLowS \<and> int (be_val (take sLen (drop sOffset sig))) > halfOrder
                       then Inl (Fail ErrSigHighS)
                     else Inr ())"

end
