(* ===== verification/Operations.thy ===== *)
theory Operations
  imports Thread
begin

text \<open>
  \<^verbatim>\<open>script/interpreter/operations.go\<close>: the opcode handlers, less the signature opcodes (theory \<open>Signature_Ops\<close>). A
  handler takes the opcode and the thread and returns the thread, an error, or the early success of OP_RETURN.
  When a handler fails the execution stops, so the half-updated thread of an error return is dropped.
\<close>

abbreviation num :: "thread \<Rightarrow> int \<Rightarrow> ScriptNumber" where
  "num t n \<equiv> \<lparr>Val = n, AfterGenesis = afterGenesis t\<rparr>"

subsection \<open>Reserved opcodes and pushes\<close>

definition opcodeDisabled :: "ParsedOpcode \<Rightarrow> thread \<Rightarrow> outcome" where
  "opcodeDisabled pop t = Inl (Fail ErrDisabledOpcode)"

definition opcodeReserved :: "ParsedOpcode \<Rightarrow> thread \<Rightarrow> outcome" where
  "opcodeReserved pop t = Inl (Fail ErrReservedOpcode)"

definition opcodeInvalid :: "ParsedOpcode \<Rightarrow> thread \<Rightarrow> outcome" where
  "opcodeInvalid pop t = Inl (Fail ErrReservedOpcode)"

definition opcodeFalse :: "ParsedOpcode \<Rightarrow> thread \<Rightarrow> outcome" where
  "opcodeFalse pop t = Inr (t\<lparr>dstack := PushByteArray (dstack t) []\<rparr>)"

definition opcodePushData :: "ParsedOpcode \<Rightarrow> thread \<Rightarrow> outcome" where
  "opcodePushData pop t = Inr (t\<lparr>dstack := PushByteArray (dstack t) (Data pop)\<rparr>)"

definition opcode1Negate :: "ParsedOpcode \<Rightarrow> thread \<Rightarrow> outcome" where
  "opcode1Negate pop t = Inr (t\<lparr>dstack := PushInt (dstack t) (num t (- 1))\<rparr>)"

definition opcodeN :: "ParsedOpcode \<Rightarrow> thread \<Rightarrow> outcome" where
  "opcodeN pop t = Inr (t\<lparr>dstack := PushByteArray (dstack t) [opval (op pop) - (Op1 - 1)]\<rparr>)"

definition opcodeNop :: "ParsedOpcode \<Rightarrow> thread \<Rightarrow> outcome" where
  "opcodeNop pop t =
     (if opval (op pop) \<in> {OpNOP1, OpNOP4, OpNOP5, OpNOP6, OpNOP7, OpNOP8, OpNOP9, OpNOP10}
        \<and> hasFlag t DiscourageUpgradableNops
      then Inl (Fail ErrDiscourageUpgradableNOPs) else Inr t)"

subsection \<open>Flow control\<close>

definition popIfBool :: "thread \<Rightarrow> 's fault + bool \<times> thread" where
  "popIfBool t =
     (if hasFlag t VerifyMinimalIf then
        rbind (PopByteArray (dstack t)) (\<lambda>(b, s).
          if length b > 1 then Inl (Fail ErrMinimalIf)
          else if length b = 1 \<and> b ! 0 \<noteq> 1 then Inl (Fail ErrMinimalIf)
          else Inr (asBool b, t\<lparr>dstack := s\<rparr>))
      else rbind (PopBool (dstack t)) (\<lambda>(b, s). Inr (b, t\<lparr>dstack := s\<rparr>)))"

definition push_cond :: "thread \<Rightarrow> int \<Rightarrow> thread" where
  "push_cond t condVal = t\<lparr>condStack := condStack t @ [condVal], elseStack := bsPushBool (elseStack t) False\<rparr>"

definition opcodeIf :: "ParsedOpcode \<Rightarrow> thread \<Rightarrow> outcome" where
  "opcodeIf pop t =
     (if shouldExec t pop then
        if isBranchExecuting t then
          rbind (popIfBool t) (\<lambda>(ok, t). Inr (push_cond t (if ok then opCondTrue else opCondFalse)))
        else Inr (push_cond t opCondSkip)
      else Inr (push_cond t opCondFalse))"

definition opcodeNotIf :: "ParsedOpcode \<Rightarrow> thread \<Rightarrow> outcome" where
  "opcodeNotIf pop t =
     (if shouldExec t pop then
        if isBranchExecuting t then
          rbind (popIfBool t) (\<lambda>(ok, t). Inr (push_cond t (if \<not> ok then opCondTrue else opCondFalse)))
        else Inr (push_cond t opCondSkip)
      else Inr (push_cond t opCondFalse))"

definition opcodeElse :: "ParsedOpcode \<Rightarrow> thread \<Rightarrow> outcome" where
  "opcodeElse pop t =
     (if condStack t = [] then Inl (Fail ErrUnbalancedConditional)
      else rbind (bsPopBool (elseStack t)) (\<lambda>(ok, es).
        if ok then Inl (Fail ErrUnbalancedConditional)
        else
          let conditionalIdx = length (condStack t) - 1; c = condStack t ! conditionalIdx;
              cs = (if c = opCondTrue then (condStack t)[conditionalIdx := opCondFalse]
                    else if c = opCondFalse then (condStack t)[conditionalIdx := opCondTrue]
                    else condStack t)
          in Inr (t\<lparr>condStack := cs, elseStack := bsPushBool es True\<rparr>)))"

definition opcodeEndif :: "ParsedOpcode \<Rightarrow> thread \<Rightarrow> outcome" where
  "opcodeEndif pop t =
     (if condStack t = [] then Inl (Fail ErrUnbalancedConditional)
      else rbind (bsPopBool (elseStack t)) (\<lambda>(_, es).
        Inr (t\<lparr>condStack := take (length (condStack t) - 1) (condStack t), elseStack := es\<rparr>)))"

definition abstractVerify :: "ParsedOpcode \<Rightarrow> thread \<Rightarrow> ErrorCode \<Rightarrow> outcome" where
  "abstractVerify pop t c = rbind (PopBool (dstack t)) (\<lambda>(verified, s).
     if \<not> verified then Inl (Fail c) else Inr (t\<lparr>dstack := s\<rparr>))"

definition opcodeVerify :: "ParsedOpcode \<Rightarrow> thread \<Rightarrow> outcome" where
  "opcodeVerify pop t = abstractVerify pop t ErrVerify"

definition opcodeReturn :: "ParsedOpcode \<Rightarrow> thread \<Rightarrow> outcome" where
  "opcodeReturn pop t =
     (if \<not> afterGenesis t then Inl (Fail ErrEarlyReturn)
      else
        let t' = t\<lparr>earlyReturnAfterGenesis := True\<rparr>
        in if condStack t' = [] then Inl (Success t') else Inr t')"

definition verifyLockTime :: "int \<Rightarrow> int \<Rightarrow> int \<Rightarrow> 's fault + unit" where
  "verifyLockTime txLockTime threshold lockTime =
     (if (txLockTime < threshold \<and> lockTime \<ge> threshold) \<or> (txLockTime \<ge> threshold \<and> lockTime < threshold)
      then Inl (Fail ErrUnsatisfiedLockTime)
      else if lockTime > txLockTime then Inl (Fail ErrUnsatisfiedLockTime)
      else Inr ())"

text \<open>The input the thread is spending: a nil transaction or a bad index panics.\<close>

definition spending_input :: "thread \<Rightarrow> 's fault + Transaction \<times> TransactionInput" where
  "spending_input t = (case thTx t of None \<Rightarrow> Inl Panic
     | Some tr \<Rightarrow> if 0 \<le> inputIdx t \<and> inputIdx t < int (length (Inputs tr))
         then Inr (tr, Inputs tr ! nat (inputIdx t)) else Inl Panic)"

definition opcodeCheckLockTimeVerify :: "ParsedOpcode \<Rightarrow> thread \<Rightarrow> outcome" where
  "opcodeCheckLockTimeVerify pop t =
     (if \<not> hasFlag t VerifyCheckLockTimeVerify \<or> afterGenesis t then
        (if hasFlag t DiscourageUpgradableNops then Inl (Fail ErrDiscourageUpgradableNOPs) else Inr t)
      else rbind (PeekByteArray (dstack t) 0) (\<lambda>so.
        rbind (MakeScriptNumber so 5 (verifyMinimalData (dstack t)) (afterGenesis t)) (\<lambda>lockTime.
          if LessThanInt lockTime 0 then Inl (Fail ErrNegativeLockTime)
          else case thTx t of None \<Rightarrow> Inl Panic
            | Some tr \<Rightarrow>
                rbind (verifyLockTime (uint (LockTime tr)) LockTimeThreshold (Int64 lockTime)) (\<lambda>_.
                rbind (spending_input t) (\<lambda>(_, i).
                  if SequenceNumber i = MaxTxInSequenceNum then Inl (Fail ErrUnsatisfiedLockTime)
                  else Inr t)))))"

definition opcodeCheckSequenceVerify :: "ParsedOpcode \<Rightarrow> thread \<Rightarrow> outcome" where
  "opcodeCheckSequenceVerify pop t =
     (if \<not> hasFlag t VerifyCheckSequenceVerify \<or> afterGenesis t then
        (if hasFlag t DiscourageUpgradableNops then Inl (Fail ErrDiscourageUpgradableNOPs) else Inr t)
      else rbind (PeekByteArray (dstack t) 0) (\<lambda>so.
        rbind (MakeScriptNumber so 5 (verifyMinimalData (dstack t)) (afterGenesis t)) (\<lambda>stackSequence.
          if LessThanInt stackSequence 0 then Inl (Fail ErrNegativeLockTime)
          else
            let sequence = Int64 stackSequence
            in if sequence AND SequenceLockTimeDisabled \<noteq> 0 then Inr t
               else case thTx t of None \<Rightarrow> Inl Panic
                 | Some tr \<Rightarrow>
                     if Version tr < 2 then Inl (Fail ErrUnsatisfiedLockTime)
                     else rbind (spending_input t) (\<lambda>(_, i).
                       let txSequence = uint (SequenceNumber i);
                           lockTimeMask = SequenceLockTimeIsSeconds OR SequenceLockTimeMask
                       in if txSequence AND SequenceLockTimeDisabled \<noteq> 0 then Inl (Fail ErrUnsatisfiedLockTime)
                          else rbind (verifyLockTime (txSequence AND lockTimeMask) SequenceLockTimeIsSeconds
                                 (sequence AND lockTimeMask)) (\<lambda>_. Inr t)))))"

subsection \<open>Stack\<close>

definition opcodeToAltStack :: "ParsedOpcode \<Rightarrow> thread \<Rightarrow> outcome" where
  "opcodeToAltStack pop t = rbind (PopByteArray (dstack t)) (\<lambda>(so, s).
     Inr (t\<lparr>dstack := s, astack := PushByteArray (astack t) so\<rparr>))"

definition opcodeFromAltStack :: "ParsedOpcode \<Rightarrow> thread \<Rightarrow> outcome" where
  "opcodeFromAltStack pop t = rbind (PopByteArray (astack t)) (\<lambda>(so, s).
     Inr (t\<lparr>astack := s, dstack := PushByteArray (dstack t) so\<rparr>))"

text \<open>\<open>on_dstack\<close>: the handlers whose body is a call of a stack operation.\<close>

definition on_dstack :: "thread \<Rightarrow> thread fault + stack \<Rightarrow> outcome" where
  "on_dstack t r = rbind r (\<lambda>s. Inr (t\<lparr>dstack := s\<rparr>))"

definition opcode2Drop :: "ParsedOpcode \<Rightarrow> thread \<Rightarrow> outcome" where
  "opcode2Drop pop t = on_dstack t (DropN (dstack t) 2)"

definition opcode2Dup :: "ParsedOpcode \<Rightarrow> thread \<Rightarrow> outcome" where
  "opcode2Dup pop t = on_dstack t (DupN (dstack t) 2)"

definition opcode3Dup :: "ParsedOpcode \<Rightarrow> thread \<Rightarrow> outcome" where
  "opcode3Dup pop t = on_dstack t (DupN (dstack t) 3)"

definition opcode2Over :: "ParsedOpcode \<Rightarrow> thread \<Rightarrow> outcome" where
  "opcode2Over pop t = on_dstack t (OverN (dstack t) 2)"

definition opcode2Rot :: "ParsedOpcode \<Rightarrow> thread \<Rightarrow> outcome" where
  "opcode2Rot pop t = on_dstack t (RotN (dstack t) 2)"

definition opcode2Swap :: "ParsedOpcode \<Rightarrow> thread \<Rightarrow> outcome" where
  "opcode2Swap pop t = on_dstack t (SwapN (dstack t) 2)"

definition opcodeIfDup :: "ParsedOpcode \<Rightarrow> thread \<Rightarrow> outcome" where
  "opcodeIfDup pop t = rbind (PeekByteArray (dstack t) 0) (\<lambda>so.
     if asBool so then Inr (t\<lparr>dstack := PushByteArray (dstack t) so\<rparr>) else Inr t)"

definition opcodeDepth :: "ParsedOpcode \<Rightarrow> thread \<Rightarrow> outcome" where
  "opcodeDepth pop t = Inr (t\<lparr>dstack := PushInt (dstack t) (num t (Depth (dstack t)))\<rparr>)"

definition opcodeDrop :: "ParsedOpcode \<Rightarrow> thread \<Rightarrow> outcome" where
  "opcodeDrop pop t = on_dstack t (DropN (dstack t) 1)"

definition opcodeDup :: "ParsedOpcode \<Rightarrow> thread \<Rightarrow> outcome" where
  "opcodeDup pop t = on_dstack t (DupN (dstack t) 1)"

definition opcodeNip :: "ParsedOpcode \<Rightarrow> thread \<Rightarrow> outcome" where
  "opcodeNip pop t = on_dstack t (NipN (dstack t) 1)"

definition opcodeOver :: "ParsedOpcode \<Rightarrow> thread \<Rightarrow> outcome" where
  "opcodeOver pop t = on_dstack t (OverN (dstack t) 1)"

definition opcodePick :: "ParsedOpcode \<Rightarrow> thread \<Rightarrow> outcome" where
  "opcodePick pop t = rbind (PopInt (dstack t)) (\<lambda>(val, s). on_dstack t (PickN s (Int32 val)))"

definition opcodeRoll :: "ParsedOpcode \<Rightarrow> thread \<Rightarrow> outcome" where
  "opcodeRoll pop t = rbind (PopInt (dstack t)) (\<lambda>(val, s). on_dstack t (RollN s (Int32 val)))"

definition opcodeRot :: "ParsedOpcode \<Rightarrow> thread \<Rightarrow> outcome" where
  "opcodeRot pop t = on_dstack t (RotN (dstack t) 1)"

definition opcodeSwap :: "ParsedOpcode \<Rightarrow> thread \<Rightarrow> outcome" where
  "opcodeSwap pop t = on_dstack t (SwapN (dstack t) 1)"

definition opcodeTuck :: "ParsedOpcode \<Rightarrow> thread \<Rightarrow> outcome" where
  "opcodeTuck pop t = on_dstack t (Tuck (dstack t))"

subsection \<open>Splice\<close>

definition opcodeCat :: "ParsedOpcode \<Rightarrow> thread \<Rightarrow> outcome" where
  "opcodeCat pop t = rbind (PopByteArray (dstack t)) (\<lambda>(b, s).
     rbind (PopByteArray s) (\<lambda>(a, s).
       let c = a @ b
       in if int (length c) > MaxScriptElementSize (cfg t) then Inl (Fail ErrElementTooBig)
          else Inr (t\<lparr>dstack := PushByteArray s c\<rparr>)))"

text \<open>A slice bound that is negative or beyond the end panics.\<close>

definition opcodeSplit :: "ParsedOpcode \<Rightarrow> thread \<Rightarrow> outcome" where
  "opcodeSplit pop t = rbind (PopInt (dstack t)) (\<lambda>(n, s).
     rbind (PopByteArray s) (\<lambda>(c, s).
       if Int32 n > i32 (int (length c)) then Inl (Fail ErrNumberTooBig)
       else if LessThanInt n 0 then Inl (Fail ErrNumberTooSmall)
       else if Int_int n < 0 \<or> Int_int n > int (length c) then Inl Panic
       else Inr (t\<lparr>dstack := PushByteArray (PushByteArray s (take (nat (Int_int n)) c)) (drop (nat (Int_int n)) c)\<rparr>)))"

function pad_loop :: "ScriptNumber \<Rightarrow> bytes \<Rightarrow> bytes" where
  "pad_loop n b = (if GreaterThanInt n (int (length b + 1)) then pad_loop n (b @ [0]) else b)"
  by pat_completeness auto
termination
  by (relation "measure (\<lambda>(n, b). nat (Val n) - length b)") (auto simp: sn_arith_defs)

declare pad_loop.simps [simp del]

definition opcodeNum2bin :: "ParsedOpcode \<Rightarrow> thread \<Rightarrow> outcome" where
  "opcodeNum2bin pop t = rbind (PopInt (dstack t)) (\<lambda>(n, s).
     rbind (PopByteArray s) (\<lambda>(a, s).
       if GreaterThanInt n (MaxScriptElementSize (cfg t)) then Inl (Fail ErrNumberTooBig)
       else rbind (MakeScriptNumber a (int (length a)) False (afterGenesis t)) (\<lambda>sn.
         let b = Bytes sn
         in if LessThanInt n (int (length b)) then Inl (Fail ErrNumberTooSmall)
            else if EqualInt n (int (length b)) then Inr (t\<lparr>dstack := PushByteArray s b\<rparr>)
            else
              let signbit = (if length b > 0 then last b AND 0x80 else 0);
                  b = (if length b > 0 then b[length b - 1 := last b AND 0x7f] else b)
              in Inr (t\<lparr>dstack := PushByteArray s (pad_loop n b @ [signbit])\<rparr>))))"

definition opcodeBin2num :: "ParsedOpcode \<Rightarrow> thread \<Rightarrow> outcome" where
  "opcodeBin2num pop t = rbind (PopByteArray (dstack t)) (\<lambda>(a, s).
     let b = MinimallyEncode a
     in if int (length b) > MaxScriptNumberLength (cfg t) then Inl (Fail ErrNumberTooBig)
        else Inr (t\<lparr>dstack := PushByteArray s b\<rparr>))"

definition opcodeSize :: "ParsedOpcode \<Rightarrow> thread \<Rightarrow> outcome" where
  "opcodeSize pop t = rbind (PeekByteArray (dstack t) 0) (\<lambda>so.
     Inr (t\<lparr>dstack := PushInt (dstack t) (num t (int (length so)))\<rparr>))"

subsection \<open>Bitwise logic\<close>

definition opcodeInvert :: "ParsedOpcode \<Rightarrow> thread \<Rightarrow> outcome" where
  "opcodeInvert pop t = rbind (PopByteArray (dstack t)) (\<lambda>(ba, s).
     Inr (t\<lparr>dstack := PushByteArray s (map (\<lambda>x. x XOR 0xFF) ba)\<rparr>))"

text \<open>The shared body of OP_AND, OP_OR and OP_XOR.\<close>

definition bitwise :: "(byte \<Rightarrow> byte \<Rightarrow> byte) \<Rightarrow> thread \<Rightarrow> outcome" where
  "bitwise f t = rbind (PopByteArray (dstack t)) (\<lambda>(a, s).
     rbind (PopByteArray s) (\<lambda>(b, s).
       if length a \<noteq> length b then Inl (Fail ErrInvalidInputLength)
       else Inr (t\<lparr>dstack := PushByteArray s (map2 f a b)\<rparr>)))"

definition opcodeAnd :: "ParsedOpcode \<Rightarrow> thread \<Rightarrow> outcome" where
  "opcodeAnd pop t = bitwise (\<lambda>x y. x AND y) t"

definition opcodeOr :: "ParsedOpcode \<Rightarrow> thread \<Rightarrow> outcome" where
  "opcodeOr pop t = bitwise (\<lambda>x y. x OR y) t"

definition opcodeXor :: "ParsedOpcode \<Rightarrow> thread \<Rightarrow> outcome" where
  "opcodeXor pop t = bitwise (\<lambda>x y. x XOR y) t"

definition opcodeEqual :: "ParsedOpcode \<Rightarrow> thread \<Rightarrow> outcome" where
  "opcodeEqual pop t = rbind (PopByteArray (dstack t)) (\<lambda>(a, s).
     rbind (PopByteArray s) (\<lambda>(b, s). Inr (t\<lparr>dstack := PushBool s (a = b)\<rparr>)))"

definition opcodeEqualVerify :: "ParsedOpcode \<Rightarrow> thread \<Rightarrow> outcome" where
  "opcodeEqualVerify pop t = rbind (opcodeEqual pop t) (\<lambda>t. abstractVerify pop t ErrEqualVerify)"

subsection \<open>Arithmetic\<close>

text \<open>The shapes of the numeric handlers: one, two or three operands popped as numbers, a number pushed. The first
  number popped is the top of the stack.\<close>

definition unary_num :: "thread \<Rightarrow> (ScriptNumber \<Rightarrow> ScriptNumber) \<Rightarrow> outcome" where
  "unary_num t f = rbind (PopInt (dstack t)) (\<lambda>(m, s). Inr (t\<lparr>dstack := PushInt s (f m)\<rparr>))"

definition binary_num ::
  "thread \<Rightarrow> (ScriptNumber \<Rightarrow> ScriptNumber \<Rightarrow> thread fault + ScriptNumber) \<Rightarrow> outcome" where
  "binary_num t f = rbind (PopInt (dstack t)) (\<lambda>(v0, s).
     rbind (PopInt s) (\<lambda>(v1, s).
     rbind (f v0 v1) (\<lambda>n. Inr (t\<lparr>dstack := PushInt s n\<rparr>))))"

abbreviation truth :: "thread \<Rightarrow> bool \<Rightarrow> ScriptNumber" where
  "truth t b \<equiv> num t (if b then 1 else 0)"

definition opcode1Add :: "ParsedOpcode \<Rightarrow> thread \<Rightarrow> outcome" where
  "opcode1Add pop t = unary_num t (\<lambda>m. Incr m)"

definition opcode1Sub :: "ParsedOpcode \<Rightarrow> thread \<Rightarrow> outcome" where
  "opcode1Sub pop t = unary_num t (\<lambda>m. Decr m)"

definition opcodeNegate :: "ParsedOpcode \<Rightarrow> thread \<Rightarrow> outcome" where
  "opcodeNegate pop t = unary_num t (\<lambda>m. Neg m)"

definition opcodeAbs :: "ParsedOpcode \<Rightarrow> thread \<Rightarrow> outcome" where
  "opcodeAbs pop t = unary_num t (\<lambda>m. Abs m)"

definition opcodeNot :: "ParsedOpcode \<Rightarrow> thread \<Rightarrow> outcome" where
  "opcodeNot pop t = unary_num t (\<lambda>m. truth t (IsZero m))"

definition opcode0NotEqual :: "ParsedOpcode \<Rightarrow> thread \<Rightarrow> outcome" where
  "opcode0NotEqual pop t = unary_num t (\<lambda>m. if \<not> IsZero m then Set_Int m 1 else m)"

definition opcodeAdd :: "ParsedOpcode \<Rightarrow> thread \<Rightarrow> outcome" where
  "opcodeAdd pop t = binary_num t (\<lambda>v0 v1. Inr (Add v0 v1))"

definition opcodeSub :: "ParsedOpcode \<Rightarrow> thread \<Rightarrow> outcome" where
  "opcodeSub pop t = binary_num t (\<lambda>v0 v1. Inr (Sub v1 v0))"

definition opcodeMul :: "ParsedOpcode \<Rightarrow> thread \<Rightarrow> outcome" where
  "opcodeMul pop t = binary_num t (\<lambda>v0 v1. Inr (Mul v0 v1))"

definition opcodeDiv :: "ParsedOpcode \<Rightarrow> thread \<Rightarrow> outcome" where
  "opcodeDiv pop t = binary_num t (\<lambda>v0 v1. if IsZero v0 then Inl (Fail ErrDivideByZero) else Inr (Div v1 v0))"

definition opcodeMod :: "ParsedOpcode \<Rightarrow> thread \<Rightarrow> outcome" where
  "opcodeMod pop t = binary_num t (\<lambda>v0 v1. if IsZero v0 then Inl (Fail ErrDivideByZero) else Inr (Mod v1 v0))"

text \<open>The byte shifts. The loop of OP_LSHIFT runs from the last byte to the first, the one of OP_RSHIFT from
  the first to the last; each byte is split by the masks into the part that stays and the part carried over.\<close>

definition lshift_step :: "bytes \<Rightarrow> nat \<Rightarrow> nat \<Rightarrow> bytes \<Rightarrow> nat \<Rightarrow> bytes" where
  "lshift_step x bitShift byteShift result i =
     (let mask = [0xFF, 0x7F, 0x3F, 0x1F, 0x0F, 0x07, 0x03, 0x01] ! bitShift; overflowMask = NOT mask
      in if byteShift \<le> i then
           let k = i - byteShift;
               val = push_bit bitShift (x ! i AND mask);
               result = result[k := result ! k OR val]
           in if k \<ge> 1 then
                let carryval = drop_bit (8 - bitShift) (x ! i AND overflowMask)
                in result[k - 1 := result ! (k - 1) OR carryval]
              else result
         else result)"

definition lshift_bytes :: "nat \<Rightarrow> bytes \<Rightarrow> bytes" where
  "lshift_bytes n x = foldl (lshift_step x (n mod 8) (n div 8)) (replicate (length x) 0) (rev [0..<length x])"

definition opcodeLShift :: "ParsedOpcode \<Rightarrow> thread \<Rightarrow> outcome" where
  "opcodeLShift pop t = rbind (PopInt (dstack t)) (\<lambda>(m, s).
     let n = Int_int m
     in if n < 0 then Inl (Fail ErrNumberTooSmall)
        else rbind (PopByteArray s) (\<lambda>(x, s). Inr (t\<lparr>dstack := PushByteArray s (lshift_bytes (nat n) x)\<rparr>)))"

definition rshift_step :: "bytes \<Rightarrow> nat \<Rightarrow> nat \<Rightarrow> bytes \<Rightarrow> nat \<Rightarrow> bytes" where
  "rshift_step x bitShift byteShift result i =
     (let mask = [0xFF, 0xFE, 0xFC, 0xF8, 0xF0, 0xE0, 0xC0, 0x80] ! bitShift; overflowMask = NOT mask;
          k = i + byteShift;
          result = (if k < length x then
                      let val = drop_bit bitShift (x ! i AND mask) in result[k := result ! k OR val]
                    else result)
      in if k + 1 < length x then
           let carryval = push_bit (8 - bitShift) (x ! i AND overflowMask)
           in result[k + 1 := result ! (k + 1) OR carryval]
         else result)"

definition rshift_bytes :: "nat \<Rightarrow> bytes \<Rightarrow> bytes" where
  "rshift_bytes n x = foldl (rshift_step x (n mod 8) (n div 8)) (replicate (length x) 0) [0..<length x]"

definition opcodeRShift :: "ParsedOpcode \<Rightarrow> thread \<Rightarrow> outcome" where
  "opcodeRShift pop t = rbind (PopInt (dstack t)) (\<lambda>(m, s).
     let n = Int_int m
     in if n < 0 then Inl (Fail ErrNumberTooSmall)
        else rbind (PopByteArray s) (\<lambda>(x, s). Inr (t\<lparr>dstack := PushByteArray s (rshift_bytes (nat n) x)\<rparr>)))"

definition opcodeBoolAnd :: "ParsedOpcode \<Rightarrow> thread \<Rightarrow> outcome" where
  "opcodeBoolAnd pop t = binary_num t (\<lambda>v0 v1. Inr (truth t (\<not> IsZero v0 \<and> \<not> IsZero v1)))"

definition opcodeBoolOr :: "ParsedOpcode \<Rightarrow> thread \<Rightarrow> outcome" where
  "opcodeBoolOr pop t = binary_num t (\<lambda>v0 v1. Inr (truth t (\<not> IsZero v0 \<or> \<not> IsZero v1)))"

definition opcodeNumEqual :: "ParsedOpcode \<Rightarrow> thread \<Rightarrow> outcome" where
  "opcodeNumEqual pop t = binary_num t (\<lambda>v0 v1. Inr (truth t (Equal v0 v1)))"

definition opcodeNumEqualVerify :: "ParsedOpcode \<Rightarrow> thread \<Rightarrow> outcome" where
  "opcodeNumEqualVerify pop t = rbind (opcodeNumEqual pop t) (\<lambda>t. abstractVerify pop t ErrNumEqualVerify)"

definition opcodeNumNotEqual :: "ParsedOpcode \<Rightarrow> thread \<Rightarrow> outcome" where
  "opcodeNumNotEqual pop t = binary_num t (\<lambda>v0 v1. Inr (truth t (\<not> Equal v0 v1)))"

definition opcodeLessThan :: "ParsedOpcode \<Rightarrow> thread \<Rightarrow> outcome" where
  "opcodeLessThan pop t = binary_num t (\<lambda>v0 v1. Inr (truth t (LessThan v1 v0)))"

definition opcodeGreaterThan :: "ParsedOpcode \<Rightarrow> thread \<Rightarrow> outcome" where
  "opcodeGreaterThan pop t = binary_num t (\<lambda>v0 v1. Inr (truth t (GreaterThan v1 v0)))"

definition opcodeLessThanOrEqual :: "ParsedOpcode \<Rightarrow> thread \<Rightarrow> outcome" where
  "opcodeLessThanOrEqual pop t = binary_num t (\<lambda>v0 v1. Inr (truth t (LessThanOrEqual v1 v0)))"

definition opcodeGreaterThanOrEqual :: "ParsedOpcode \<Rightarrow> thread \<Rightarrow> outcome" where
  "opcodeGreaterThanOrEqual pop t = binary_num t (\<lambda>v0 v1. Inr (truth t (GreaterThanOrEqual v1 v0)))"

definition opcodeMin :: "ParsedOpcode \<Rightarrow> thread \<Rightarrow> outcome" where
  "opcodeMin pop t = binary_num t (\<lambda>v0 v1. Inr (if LessThan v1 v0 then v1 else v0))"

definition opcodeMax :: "ParsedOpcode \<Rightarrow> thread \<Rightarrow> outcome" where
  "opcodeMax pop t = binary_num t (\<lambda>v0 v1. Inr (if GreaterThan v1 v0 then v1 else v0))"

definition opcodeWithin :: "ParsedOpcode \<Rightarrow> thread \<Rightarrow> outcome" where
  "opcodeWithin pop t = rbind (PopInt (dstack t)) (\<lambda>(maxVal, s).
     rbind (PopInt s) (\<lambda>(minVal, s).
     rbind (PopInt s) (\<lambda>(x, s).
     Inr (t\<lparr>dstack := PushInt s (truth t (LessThanOrEqual minVal x \<and> LessThan x maxVal))\<rparr>))))"

definition opcode2Mul :: "ParsedOpcode \<Rightarrow> thread \<Rightarrow> outcome" where
  "opcode2Mul pop t = unary_num t (\<lambda>m. Mul m (num t 2))"

definition opcode2Div :: "ParsedOpcode \<Rightarrow> thread \<Rightarrow> outcome" where
  "opcode2Div pop t = unary_num t (\<lambda>m. Div m (num t 2))"

subsection \<open>Hashes\<close>

definition unary_bytes :: "thread \<Rightarrow> (bytes \<Rightarrow> bytes) \<Rightarrow> outcome" where
  "unary_bytes t f = rbind (PopByteArray (dstack t)) (\<lambda>(buf, s). Inr (t\<lparr>dstack := PushByteArray s (f buf)\<rparr>))"

definition opcodeRipemd160 :: "('pk, 'sg) crypto \<Rightarrow> ParsedOpcode \<Rightarrow> thread \<Rightarrow> outcome" where
  "opcodeRipemd160 c pop t = unary_bytes t (ripemd160 c)"

definition opcodeSha1 :: "('pk, 'sg) crypto \<Rightarrow> ParsedOpcode \<Rightarrow> thread \<Rightarrow> outcome" where
  "opcodeSha1 c pop t = unary_bytes t (sha1 c)"

definition opcodeSha256 :: "('pk, 'sg) crypto \<Rightarrow> ParsedOpcode \<Rightarrow> thread \<Rightarrow> outcome" where
  "opcodeSha256 c pop t = unary_bytes t (sha256 c)"

definition opcodeHash160 :: "('pk, 'sg) crypto \<Rightarrow> ParsedOpcode \<Rightarrow> thread \<Rightarrow> outcome" where
  "opcodeHash160 c pop t = unary_bytes t (\<lambda>buf. ripemd160 c (sha256 c buf))"

definition opcodeHash256 :: "('pk, 'sg) crypto \<Rightarrow> ParsedOpcode \<Rightarrow> thread \<Rightarrow> outcome" where
  "opcodeHash256 c pop t = unary_bytes t (Sha256d (sha256 c))"

definition opcodeCodeSeparator :: "ParsedOpcode \<Rightarrow> thread \<Rightarrow> outcome" where
  "opcodeCodeSeparator pop t = Inr (t\<lparr>lastCodeSep := scriptOff t\<rparr>)"

subsection \<open>Opcodes of the Chronicle upgrade\<close>

definition opcodeVer :: "ParsedOpcode \<Rightarrow> thread \<Rightarrow> outcome" where
  "opcodeVer pop t =
     (if \<not> afterChronicle t then opcodeReserved pop t
      else case thTx t of None \<Rightarrow> Inl (Fail ErrInvalidParams)
        | Some tr \<Rightarrow> Inr (t\<lparr>dstack := PushByteArray (dstack t) (PutUint32 (Version tr))\<rparr>))"

definition txVersionMatchesBytes :: "Transaction option \<Rightarrow> bytes \<Rightarrow> bool" where
  "txVersionMatchesBytes tr data = (case tr of None \<Rightarrow> False
     | Some tr \<Rightarrow> if length data \<noteq> 4 then False else PutUint32 (Version tr) = data)"

definition resolveVerCondition :: "ParsedOpcode \<Rightarrow> thread \<Rightarrow> thread fault + int \<times> thread" where
  "resolveVerCondition pop t =
     (if \<not> shouldExec t pop then Inr (opCondFalse, t)
      else if \<not> isBranchExecuting t then Inr (opCondSkip, t)
      else case (PopByteArray (dstack t) :: thread fault + bytes \<times> stack) of
        Inl _ \<Rightarrow> Inl (Fail ErrUnbalancedConditional)
      | Inr (top', s) \<Rightarrow>
          let match = txVersionMatchesBytes (thTx t) top';
              match = (if opval (op pop) = OpVERNOTIF then \<not> match else match)
          in Inr (if match then opCondTrue else opCondFalse, t\<lparr>dstack := s\<rparr>))"

definition opcodeVerConditional :: "ParsedOpcode \<Rightarrow> thread \<Rightarrow> outcome" where
  "opcodeVerConditional pop t =
     (if \<not> afterChronicle t then
        (if afterGenesis t \<and> \<not> shouldExec t pop then Inr t else opcodeReserved pop t)
      else rbind (resolveVerCondition pop t) (\<lambda>(condVal, t). Inr (push_cond t condVal)))"

text \<open>Before Chronicle the new opcodes are upgradable no-operations.\<close>

definition chronicle_nop :: "thread \<Rightarrow> outcome" where
  "chronicle_nop t = (if hasFlag t DiscourageUpgradableNops then Inl (Fail ErrDiscourageUpgradableNOPs) else Inr t)"

definition opcodeSubstr :: "ParsedOpcode \<Rightarrow> thread \<Rightarrow> outcome" where
  "opcodeSubstr pop t =
     (if \<not> afterChronicle t then chronicle_nop t
      else rbind (PopInt (dstack t)) (\<lambda>(len, s).
        rbind (PopInt s) (\<lambda>(begin', s).
        rbind (PopByteArray s) (\<lambda>(data, s).
          let offset64 = Int64 begin'; ln64 = Int64 len; size' = int (length data)
          in if offset64 < 0 \<or> offset64 \<ge> size' \<or> ln64 < 0 \<or> ln64 > size' - offset64
             then Inl (Fail ErrNumberTooBig)
             else Inr (t\<lparr>dstack := PushByteArray s (take (nat ln64) (drop (nat offset64) data))\<rparr>)))))"

definition opcodeSliceBytes :: "thread \<Rightarrow> bool \<Rightarrow> outcome" where
  "opcodeSliceBytes t fromRight = rbind (PopInt (dstack t)) (\<lambda>(len, s).
     rbind (PopByteArray s) (\<lambda>(data, s).
       let ln64 = Int64 len; size' = int (length data)
       in if ln64 < 0 \<or> ln64 > size' then Inl (Fail ErrNumberTooBig)
          else if fromRight then Inr (t\<lparr>dstack := PushByteArray s (drop (nat (size' - ln64)) data)\<rparr>)
          else Inr (t\<lparr>dstack := PushByteArray s (take (nat ln64) data)\<rparr>)))"

definition opcodeLeft :: "ParsedOpcode \<Rightarrow> thread \<Rightarrow> outcome" where
  "opcodeLeft pop t = (if \<not> afterChronicle t then chronicle_nop t else opcodeSliceBytes t False)"

definition opcodeRight :: "ParsedOpcode \<Rightarrow> thread \<Rightarrow> outcome" where
  "opcodeRight pop t = (if \<not> afterChronicle t then chronicle_nop t else opcodeSliceBytes t True)"

text \<open>\<open>Int64\<close> is clamped, and \<open>n\<close> is not negative, so the conversion to \<open>uint\<close> is exact. \<^verbatim>\<open>big.Int.Rsh\<close> is an
  arithmetic shift.\<close>

definition opcodeShiftNum :: "thread \<Rightarrow> bool \<Rightarrow> outcome" where
  "opcodeShiftNum t rightShift = rbind (PopInt (dstack t)) (\<lambda>(n, s).
     if LessThanInt n 0 then Inl (Fail ErrNumberTooSmall)
     else rbind (PopInt s) (\<lambda>(val, s).
       let maxShiftBits = MaxScriptNumberLengthAfterChronicle * 8;
           shift64 = Int64 n;
           shift64 = (if shift64 > maxShiftBits then maxShiftBits else shift64);
           shiftAmt = nat shift64;
           shifted = (if rightShift then drop_bit shiftAmt (Val val) else push_bit shiftAmt (Val val))
       in Inr (t\<lparr>dstack := PushInt s (num t shifted)\<rparr>)))"

definition opcodeLShiftNum :: "ParsedOpcode \<Rightarrow> thread \<Rightarrow> outcome" where
  "opcodeLShiftNum pop t = (if \<not> afterChronicle t then chronicle_nop t else opcodeShiftNum t False)"

definition opcodeRShiftNum :: "ParsedOpcode \<Rightarrow> thread \<Rightarrow> outcome" where
  "opcodeRShiftNum pop t = (if \<not> afterChronicle t then chronicle_nop t else opcodeShiftNum t True)"

end
