(* ===== verification/Signature_Ops.thy ===== *)
theory Signature_Ops
  imports Operations
begin

text \<open>
  The signature opcodes of \<^verbatim>\<open>script/interpreter/operations.go\<close>: OP_CHECKSIG, OP_CHECKMULTISIG and their VERIFY forms.
  Parsing and verification of keys and signatures are the functions of the record \<open>crypto\<close>.

  \<open>removeOpcodeByData\<close>, \<open>Unparse\<close>, \<open>ShallowClone\<close> and \<open>CalcInputSignatureHash\<close> are those of the previous theories.
  The clone of the transaction is private to the call, so setting the locking script of its source output does not
  touch the transaction of the thread.
\<close>

abbreviation sig_flags_der :: "thread \<Rightarrow> bool" where
  "sig_flags_der t \<equiv> hasAny t [VerifyStrictEncoding, VerifyDERSignatures]"

definition parse_sig :: "('pk, 'sg) crypto \<Rightarrow> thread \<Rightarrow> bytes \<Rightarrow> 'sg option" where
  "parse_sig c t sig = (if sig_flags_der t then ParseDERSignature c sig else ParseSignature c sig)"

text \<open>The script a signature covers: with \<open>ForkID\<close> the script as it is, otherwise without the signature and the
  code separators.\<close>

definition strip_sig :: "thread \<Rightarrow> byte \<Rightarrow> bytes \<Rightarrow> ParsedScript \<Rightarrow> ParsedScript" where
  "strip_sig t shf sig scr =
     (if \<not> hasFlag t EnableSighashForkID \<or> \<not> Flag_Has shf ForkID
      then removeOpcode (removeOpcodeByData scr sig) OpCODESEPARATOR else scr)"

text \<open>The clone of the transaction whose input \<open>inputIdx\<close> spends an output with the script \<open>up\<close>, hashed.
  \<open>needed\<close>: whether a missing source output is dereferenced (OP_CHECKSIG) or left (OP_CHECKMULTISIG).\<close>

definition sig_hash :: "('pk, 'sg) crypto \<Rightarrow> thread \<Rightarrow> bool \<Rightarrow> bytes \<Rightarrow> byte \<Rightarrow> thread fault + bytes" where
  "sig_hash c t needed up shf = (case thTx t of None \<Rightarrow> Inl Panic
     | Some tr \<Rightarrow> rbind (ShallowClone tr) (\<lambda>txCopy.
         if inputIdx t < 0 \<or> inputIdx t \<ge> int (length (Inputs txCopy)) then Inl Panic
         else
           let i = nat (inputIdx t); inp = Inputs txCopy ! i
           in rbind (SourceTxOutput inp) (\<lambda>sourceTxOut.
             if needed \<and> sourceTxOut = None then Inl Panic
             else
               let inp' = SetSourceTxOutput inp (map_option (\<lambda>out. out\<lparr>LockingScript := Some up\<rparr>) sourceTxOut)
               in CalcInputSignatureHash (sha256 c) (with_Inputs txCopy ((Inputs txCopy)[i := inp']))
                    (word_of_int (inputIdx t)) shf)))"

definition push_bool :: "thread \<Rightarrow> stack \<Rightarrow> bool \<Rightarrow> outcome" where
  "push_bool t s b = Inr (t\<lparr>dstack := PushBool s b\<rparr>)"

text \<open>The verification proper: \<open>Inr None\<close> is the early return that pushes false.\<close>

definition verify_sig ::
  "('pk, 'sg) crypto \<Rightarrow> thread \<Rightarrow> bytes \<Rightarrow> bytes \<Rightarrow> bytes \<Rightarrow> thread fault + bool option" where
  "verify_sig c t hash sigBytes pkBytes = (case externalVerifySignatureFn c of
       Some f \<Rightarrow>
         (if sig_flags_der t then Inr (Some (f hash sigBytes pkBytes))
          else case ParseSignature c sigBytes of None \<Rightarrow> Inr None
            | Some signature \<Rightarrow> (case ToDER c signature of None \<Rightarrow> Inl (FailTx ErrEc)
                | Some sigBytesDer \<Rightarrow> Inr (Some (f hash sigBytesDer pkBytes))))
     | None \<Rightarrow> (case ParsePubKey c pkBytes of None \<Rightarrow> Inr None
         | Some pubKey \<Rightarrow> (case parse_sig c t sigBytes of None \<Rightarrow> Inr None
             | Some signature \<Rightarrow> Inr (Some (Verify c signature hash pubKey)))))"

definition opcodeCheckSig :: "('pk, 'sg) crypto \<Rightarrow> ParsedOpcode \<Rightarrow> thread \<Rightarrow> outcome" where
  "opcodeCheckSig c pop t =
     rbind (PopByteArray (dstack t)) (\<lambda>(pkBytes, s).
     rbind (PopByteArray s) (\<lambda>(fullSigBytes, s).
       if length fullSigBytes < 1 then push_bool t s False
       else
         let shf = last fullSigBytes; sigBytes = butlast fullSigBytes
         in rbind (checkHashTypeEncoding t shf) (\<lambda>_.
            rbind (checkSignatureEncoding t sigBytes) (\<lambda>_.
            rbind (checkPubKeyEncoding t pkBytes) (\<lambda>_.
            rbind (subScript t) (\<lambda>sub.
            rbind (Unparse (strip_sig t shf fullSigBytes sub)) (\<lambda>up.
            rbind (sig_hash c t True up shf) (\<lambda>hash.
            rbind (verify_sig c t hash sigBytes pkBytes) (\<lambda>res. case res of
                None \<Rightarrow> push_bool t s False
              | Some ok \<Rightarrow>
                  if \<not> ok \<and> hasFlag t VerifyNullFail \<and> length sigBytes > 0 then Inl (Fail ErrNullFail)
                  else push_bool t s ok)))))))))"

definition opcodeCheckSigVerify :: "('pk, 'sg) crypto \<Rightarrow> ParsedOpcode \<Rightarrow> thread \<Rightarrow> outcome" where
  "opcodeCheckSigVerify c pop t = rbind (opcodeCheckSig c pop t) (\<lambda>t. abstractVerify pop t ErrCheckSigVerify)"

record 'sg parsedSigInfo =
  signature :: bytes
  parsedSignature :: "'sg option"
  parsed :: bool

primrec pop_n :: "nat \<Rightarrow> stack \<Rightarrow> bytes list \<Rightarrow> 's fault + bytes list \<times> stack" where
  "pop_n 0 s acc = Inr (acc, s)"
| "pop_n (Suc n) s acc = rbind (PopByteArray s) (\<lambda>(x, s). pop_n n s (acc @ [x]))"

text \<open>One round of the loop, after the check of the counts: \<open>Inr None\<close> is the early return that pushes false,
  \<open>Inr (Some (ok, info))\<close> goes on, \<open>ok\<close> if the key verified the signature, with the signature as parsed. A panic is
  not an error return.\<close>

definition or_false :: "'s fault + 'a \<Rightarrow> ('a \<Rightarrow> 's fault + 'b option) \<Rightarrow> 's fault + 'b option" where
  "or_false r f = (case r of Inl Panic \<Rightarrow> Inl Panic | Inl _ \<Rightarrow> Inr None | Inr x \<Rightarrow> f x)"

definition multisig_try ::
  "('pk, 'sg) crypto \<Rightarrow> thread \<Rightarrow> ParsedScript \<Rightarrow> 'sg parsedSigInfo \<Rightarrow> bytes
    \<Rightarrow> thread fault + (bool \<times> 'sg parsedSigInfo) option" where
  "multisig_try c t scr sigInfo pubKey =
     (let rawSig = signature sigInfo
      in if length rawSig = 0 then Inr (Some (False, sigInfo))
         else
           let shf = last rawSig; sig = butlast rawSig
           in rbind (if parsed sigInfo then Inr sigInfo
                     else rbind (checkHashTypeEncoding t shf) (\<lambda>_.
                          rbind (checkSignatureEncoding t sig) (\<lambda>_.
                          Inr (sigInfo\<lparr>parsed := True, parsedSignature := parse_sig c t sig\<rparr>)))) (\<lambda>sigInfo.
              case parsedSignature sigInfo of None \<Rightarrow> Inr (Some (False, sigInfo))
              | Some parsedSig \<Rightarrow>
                  rbind (checkPubKeyEncoding t pubKey) (\<lambda>_.
                  case ParsePubKey c pubKey of None \<Rightarrow> Inr (Some (False, sigInfo))
                  | Some parsedPubKey \<Rightarrow>
                      or_false (Unparse scr) (\<lambda>up.
                      or_false (sig_hash c t False up shf) (\<lambda>signatureHash.
                      Inr (Some (Verify c parsedSig signatureHash parsedPubKey, sigInfo)))))))"

text \<open>\<open>while numSignatures > 0\<close>. The result is the value of \<open>success\<close>, \<open>None\<close> for the early return.\<close>

function multisig_loop ::
  "('pk, 'sg) crypto \<Rightarrow> thread \<Rightarrow> ParsedScript \<Rightarrow> bytes list \<Rightarrow> int \<Rightarrow> int \<Rightarrow> int \<Rightarrow> nat
    \<Rightarrow> 'sg parsedSigInfo list \<Rightarrow> thread fault + bool option" where
  "multisig_loop c t scr pubKeys numSignatures numPubKeys pubKeyIdx signatureIdx signatures =
     (if numSignatures > 0 then
        let pubKeyIdx = pubKeyIdx + 1; numPubKeys' = numPubKeys - 1
        in if numSignatures > numPubKeys' then Inr (Some False)
           else if signatureIdx \<ge> length signatures \<or> pubKeyIdx < 0 \<or> pubKeyIdx \<ge> int (length pubKeys) then Inl Panic
           else case multisig_try c t scr (signatures ! signatureIdx) (pubKeys ! nat pubKeyIdx) of
               Inl e \<Rightarrow> Inl e
             | Inr None \<Rightarrow> Inr None
             | Inr (Some (ok, sigInfo)) \<Rightarrow>
                 multisig_loop c t scr pubKeys (if ok then numSignatures - 1 else numSignatures) numPubKeys' pubKeyIdx
                   (if ok then signatureIdx + 1 else signatureIdx) (signatures[signatureIdx := sigInfo])
      else Inr (Some True))"
  by pat_completeness auto
termination
  by (relation "measure (\<lambda>(c, t, scr, pks, ns, np, pi, si, sigs). nat np)") auto

declare multisig_loop.simps [simp del]

definition opcodeCheckMultiSig :: "('pk, 'sg) crypto \<Rightarrow> ParsedOpcode \<Rightarrow> thread \<Rightarrow> outcome" where
  "opcodeCheckMultiSig c pop t =
     rbind (PopInt (dstack t)) (\<lambda>(numKeys, s).
       let numPubKeys = Int_int numKeys
       in if numPubKeys < 0 then Inl (Fail ErrInvalidPubKeyCount)
          else if numPubKeys > MaxPubKeysPerMultiSig (cfg t) then Inl (Fail ErrInvalidPubKeyCount)
          else if numOps t + numPubKeys > MaxOps (cfg t) then Inl (Fail ErrTooManyOperations)
          else
            let t = t\<lparr>numOps := numOps t + numPubKeys\<rparr>
            in rbind (pop_n (nat numPubKeys) s []) (\<lambda>(pubKeys, s).
               rbind (PopInt s) (\<lambda>(numSigs, s).
                 let numSignatures = Int_int numSigs
                 in if numSignatures < 0 then Inl (Fail ErrInvalidSignatureCount)
                    else if numSignatures > numPubKeys then Inl (Fail ErrInvalidSignatureCount)
                    else rbind (pop_n (nat numSignatures) s []) (\<lambda>(sigs, s).
                         rbind (PopByteArray s) (\<lambda>(dummy, s).
                           if hasFlag t StrictMultiSig \<and> length dummy \<noteq> 0 then Inl (Fail ErrSigNullDummy)
                           else rbind (subScript t) (\<lambda>sub.
                             let scr = foldl (\<lambda>scr sig.
                                   strip_sig t (if length sig > 0 then last sig else 0) sig scr) sub sigs;
                                 infos = map (\<lambda>sig. \<lparr>signature = sig, parsedSignature = None, parsed = False\<rparr>) sigs
                             in rbind (multisig_loop c t scr pubKeys numSignatures (numPubKeys + 1) (- 1) 0 infos)
                                  (\<lambda>res. case res of None \<Rightarrow> push_bool t s False
                                    | Some success \<Rightarrow>
                                        if \<not> success \<and> hasFlag t VerifyNullFail \<and> list_ex (\<lambda>sig. length sig > 0) sigs
                                        then Inl (Fail ErrNullFail)
                                        else push_bool t s success)))))))"

definition opcodeCheckMultiSigVerify :: "('pk, 'sg) crypto \<Rightarrow> ParsedOpcode \<Rightarrow> thread \<Rightarrow> outcome" where
  "opcodeCheckMultiSigVerify c pop t =
     rbind (opcodeCheckMultiSig c pop t) (\<lambda>t. abstractVerify pop t ErrCheckMultiSigVerify)"

end
