(* ===== verification/Results.thy ===== *)
theory Results
  imports Errs
begin

text \<open>
  Conditions on results. \<open>wp E Q r\<close> says of a result that a value satisfies \<open>Q\<close> and a fault \<open>E\<close>; it passes
  through the sequencing of fallible steps, so a function is checked by applying one rule per call it makes. The
  rules are collected in \<open>wp_rules\<close>.
\<close>

definition wp :: "('s fault \<Rightarrow> bool) \<Rightarrow> ('a \<Rightarrow> bool) \<Rightarrow> 's fault + 'a \<Rightarrow> bool" where
  "wp E Q r = (case r of Inl e \<Rightarrow> E e | Inr x \<Rightarrow> Q x)"

text \<open>The faults of a handler: \<open>tame\<close> are all but the early success, \<open>calm\<close> are the error values.\<close>

definition tame :: "'s fault \<Rightarrow> bool" where
  "tame e = (case e of Success _ \<Rightarrow> False | _ \<Rightarrow> True)"

definition calm :: "'s fault \<Rightarrow> bool" where
  "calm e = (case e of Success _ \<Rightarrow> False | Panic \<Rightarrow> False | _ \<Rightarrow> True)"

definition allows_errors :: "('s fault \<Rightarrow> bool) \<Rightarrow> bool" where
  "allows_errors E = ((\<forall>c. E (Fail c)) \<and> (\<forall>c. E (FailTx c)))"

lemma fault_simps [simp]:
  "tame (Fail c)" "tame (FailTx x)" "tame Panic" "\<not> tame (Success u)"
  "calm (Fail c)" "calm (FailTx x)" "\<not> calm Panic" "\<not> calm (Success u)"
  "allows_errors tame" "allows_errors calm"
  by (simp_all add: tame_def calm_def allows_errors_def)

lemma calm_tame: "calm e \<Longrightarrow> tame e"
  by (cases e) auto

lemma wp_simps [simp]:
  "wp E Q (Inl e) = E e" "wp E Q (Inr x) = Q x"
  by (simp_all add: wp_def)

lemma wp_mono: "wp E Q r \<Longrightarrow> (\<And>e. E e \<Longrightarrow> E' e) \<Longrightarrow> (\<And>x. Q x \<Longrightarrow> Q' x) \<Longrightarrow> wp E' Q' r"
  by (cases r) auto

named_theorems wp_rules \<open>rules that reduce the condition of a result to those of its parts\<close>

lemma wp_rbind [wp_rules]: "wp E (\<lambda>x. wp E Q (f x)) r \<Longrightarrow> wp E Q (rbind r f)"
  by (cases r) auto

lemma wp_if [wp_rules]: "(b \<Longrightarrow> wp E Q r) \<Longrightarrow> (\<not> b \<Longrightarrow> wp E Q r') \<Longrightarrow> wp E Q (if b then r else r')"
  by simp

lemma wp_let [wp_rules]: "wp E Q (f x) \<Longrightarrow> wp E Q (Let x f)"
  by simp

lemma wp_case_option [wp_rules]:
  "(x = None \<Longrightarrow> wp E Q r) \<Longrightarrow> (\<And>y. x = Some y \<Longrightarrow> wp E Q (f y)) \<Longrightarrow> wp E Q (case x of None \<Rightarrow> r | Some y \<Rightarrow> f y)"
  by (cases x) auto

lemma wp_case_prod [wp_rules]: "(\<And>a b. x = (a, b) \<Longrightarrow> wp E Q (f a b)) \<Longrightarrow> wp E Q (case x of (a, b) \<Rightarrow> f a b)"
  by (cases x) auto

lemma wp_rmap [wp_rules]:
  assumes "\<And>x. x \<in> set xs \<Longrightarrow> wp E (\<lambda>_. True) (f x)" "\<And>ys. rmap f xs = Inr ys \<Longrightarrow> Q ys"
  shows "wp E Q (rmap f xs)"
proof -
  have "wp E (\<lambda>_. True) (rmap f xs)"
    using assms(1)
  proof (induction xs)
    case (Cons x xs)
    then show ?case using Cons.prems [of x] by (cases "f x"; cases "rmap f xs") auto
  qed simp
  then show ?thesis using assms(2) by (cases "rmap f xs") auto
qed

lemma wp_result: "wp E (\<lambda>_. True) r \<Longrightarrow> (\<And>x. r = Inr x \<Longrightarrow> Q x) \<Longrightarrow> wp E Q r"
  by (cases r) auto

lemma wp_tame_iff: "wp tame (\<lambda>_. True) r \<longleftrightarrow> (\<forall>u. r \<noteq> Inl (Success u))"
  by (cases r) (auto simp: tame_def split: fault.splits)

lemma wp_calm_iff: "wp calm (\<lambda>_. True) r \<longleftrightarrow> r \<noteq> Inl Panic \<and> (\<forall>u. r \<noteq> Inl (Success u))"
  by (cases r) (auto simp: calm_def split: fault.splits)

end
