(* ===== verification/Sighash_Safety.thy ===== *)
theory Sighash_Safety
  imports Sighash Results
begin

text \<open>
  When the signature hash panics. A transaction is complete when every input has the id and the output it spends, every
  output has a script, and the input indices are \<open>int32\<close> values; on a complete transaction the signature hash of any
  input and flag is an error or a value. The lemmas carry the alternative \<open>E Panic\<close>: with a condition that admits
  panics they need no completeness, and say that no early success comes out of the hashing code.
\<close>

definition complete_in :: "TransactionInput \<Rightarrow> bool" where
  "complete_in i = (SourceTXID i \<noteq> None \<and> (case (SourceTxOutput i :: unit fault + TransactionOutput option) of
     Inr (Some out) \<Rightarrow> LockingScript out \<noteq> None | _ \<Rightarrow> False))"

definition complete_tx :: "Transaction \<Rightarrow> bool" where
  "complete_tx tx = ((\<forall>i\<in>set (Inputs tx). complete_in i) \<and> (\<forall>out\<in>set (Outputs tx). LockingScript out \<noteq> None)
     \<and> length (Inputs tx) < 2 ^ 31)"

lemma complete_in_source:
  assumes "complete_in i"
  obtains h out s where "SourceTXID i = Some h" "SourceTxOutput i = Inr (Some out)" "LockingScript out = Some s"
  using assms by (auto simp: complete_in_def SourceTxOutput_def split: option.splits if_splits)

lemma wp_SourceTxOutput [wp_rules]:
  fixes E :: "'s fault \<Rightarrow> bool"
  assumes "E Panic \<or> complete_in i" "\<And>out. (SourceTxOutput i :: 's fault + _) = Inr out \<Longrightarrow> Q out"
  shows "wp E Q (SourceTxOutput i)"
  using assms by (cases "complete_in i") (auto simp: SourceTxOutput_def complete_in_def split: option.splits if_splits)

lemma wp_clone_input [wp_rules]:
  fixes E :: "'s fault \<Rightarrow> bool"
  assumes "E Panic \<or> complete_in i" "\<And>i'. (clone_input i :: 's fault + _) = Inr i' \<Longrightarrow> Q i'"
  shows "wp E Q (clone_input i)"
proof (rule wp_result [OF _ assms(2)])
  show "wp E (\<lambda>_. True) (clone_input i)"
    using assms(1) unfolding clone_input_def
    by (auto intro!: wp_rules elim: complete_in_source [where ?'a = 's])
qed

lemma wp_ShallowClone [wp_rules]:
  fixes E :: "'s fault \<Rightarrow> bool"
  assumes "E Panic \<or> complete_tx tx" "\<And>tx'. (ShallowClone tx :: 's fault + _) = Inr tx' \<Longrightarrow> Q tx'"
  shows "wp E Q (ShallowClone tx)"
proof (rule wp_result [OF _ assms(2)])
  show "wp E (\<lambda>_. True) (ShallowClone tx)"
    using assms(1) unfolding ShallowClone_def by (auto intro!: wp_rules simp: complete_tx_def)
qed

text \<open>A clone of a complete transaction is complete, and stays so when a script is put in a source output.\<close>

lemma clone_input_complete:
  assumes "complete_in i" "clone_input i = Inr i'"
  shows "complete_in i'"
proof -
  obtain h out s where "SourceTXID i = Some h" "SourceTxOutput i = (Inr (Some out) :: 'a fault + _)"
    "LockingScript out = Some s"
    using complete_in_source [OF assms(1)] by metis
  then show ?thesis
    using assms(2) by (auto simp: clone_input_def complete_in_def SourceTxOutput_def)
qed

lemma ShallowClone_complete:
  assumes "complete_tx tx" "(ShallowClone tx :: 's fault + _) = Inr tx'"
  shows "complete_tx tx'" "length (Inputs tx') = length (Inputs tx)"
proof -
  obtain ins where ins: "list_all2 (\<lambda>i i'. (clone_input i :: 's fault + _) = Inr i') (Inputs tx) ins"
    and tx': "tx' = Transaction (Version tx) ins (map (\<lambda>out. out\<lparr>Change := False\<rparr>) (Outputs tx)) (LockTime tx) None"
    using assms(2) by (auto simp: ShallowClone_def res_simps rmap_Inr_iff)
  have len: "length ins = length (Inputs tx)"
    using ins by (simp add: list_all2_lengthD)
  have "complete_in i'" if i': "i' \<in> set ins" for i'
  proof -
    obtain k where k: "k < length ins" "i' = ins ! k" using i' by (metis in_set_conv_nth)
    then show ?thesis
      using assms(1) clone_input_complete [OF _ list_all2_nthD2 [OF ins k(1)]] len by (simp add: complete_tx_def)
  qed
  then show "complete_tx tx'" "length (Inputs tx') = length (Inputs tx)"
    using assms(1) by (auto simp: complete_tx_def tx' len)
qed

lemma complete_set_source:
  assumes "complete_tx tx" "k < length (Inputs tx)" "SourceTransaction (Inputs tx ! k) = None"
    "LockingScript out \<noteq> None"
  shows "complete_tx (with_Inputs tx ((Inputs tx)[k := SetSourceTxOutput (Inputs tx ! k) (Some out)]))"
proof -
  have "complete_in (Inputs tx ! k)" using assms by (simp add: complete_tx_def)
  then have "complete_in (SetSourceTxOutput (Inputs tx ! k) (Some out))"
    using assms(3,4) by (auto simp: complete_in_def SetSourceTxOutput_def SourceTxOutput_def)
  then show ?thesis
    using assms by (auto simp: complete_tx_def dest!: set_update_subset_insert [THEN subsetD])
qed

subsection \<open>The signature hash\<close>

lemma wp_InputIdx [wp_rules]:
  assumes "\<And>i. i < length (Inputs tx) \<Longrightarrow> i = unat n \<Longrightarrow> Q (Some (Inputs tx ! i))" "Q None"
  shows "wp E Q (InputIdx tx (uint n))"
  using assms by (simp add: InputIdx_eq)

lemma wp_out_bytes [wp_rules]:
  assumes "E Panic \<or> LockingScript out \<noteq> None" "\<And>b. Q b"
  shows "wp E Q (TxOut_Bytes out)" "wp E Q (BytesForSigHash out)"
  using assms by (auto simp: TxOut_Bytes_def BytesForSigHash_def split: option.split)

lemma wp_SourceOutHash [wp_rules]:
  assumes "E Panic \<or> complete_tx tx \<and> (\<forall>b. length (sha256 b) = 32)" "\<And>h. Q h"
  shows "wp E Q (SourceOutHash sha256 tx)"
proof -
  have "wp E (\<lambda>_. True) (outpoint_bytes i)" if "i \<in> set (Inputs tx)" for i
    using assms(1) that by (auto simp: outpoint_bytes_def complete_tx_def complete_in_def split: option.split)
  then show ?thesis
    using assms unfolding SourceOutHash_def by (auto intro!: wp_rules simp: Sha256d_def)
qed

lemma wp_OutputsHash [wp_rules]:
  assumes "E Panic \<or> complete_tx tx \<and> (n = - 1 \<or> (0 \<le> n \<and> n < int (length (Outputs tx))))" "\<And>h. Q h"
  shows "wp E Q (OutputsHash sha256 tx n)"
  using assms unfolding OutputsHash_def by (auto intro!: wp_rules simp: complete_tx_def)

lemma i32_index:
  assumes "unat (n :: u32) < k" "k < 2 ^ 31" "n < word_of_int (int m)"
  shows "0 \<le> i32 (uint n)" "i32 (uint n) < int m"
proof -
  have n: "uint n < 2 ^ 31"
    using assms(1,2) by (metis less_trans nat_less_numeral_power_cancel_iff unat_eq_nat_uint)
  then have i: "i32 (uint n) = uint n"
    by (intro i32_id) (auto intro: order_trans [OF _ unsigned_greater_eq])
  have "uint n < uint (word_of_int (int m) :: u32)" using assms(3) by (simp add: word_less_def)
  also have "\<dots> \<le> int m" by (simp add: unsigned_of_nat take_bit_nat_less_eq_self)
  finally show "i32 (uint n) < int m" "0 \<le> i32 (uint n)" using i by simp_all
qed

lemma complete_nth: "complete_tx tx \<Longrightarrow> k < length (Inputs tx) \<Longrightarrow> complete_in (Inputs tx ! k)"
  by (simp add: complete_tx_def)

lemma wp_preimage_outputs:
  fixes n :: u32
  assumes "E Panic \<or> complete_tx tx" "unat n < length (Inputs tx)" "\<And>h. Q h"
  shows "wp E Q (if f AND 31 \<noteq> Single_flag \<and> f AND 31 \<noteq> None_flag then OutputsHash sha256 tx (- 1)
     else if f AND 31 = Single_flag \<and> n < word_of_int (OutputCount tx) then OutputsHash sha256 tx (i32 (uint n))
     else Inr (replicate 32 0))"
  using assms i32_index [of n "length (Inputs tx)" "length (Outputs tx)"]
  by (auto intro!: wp_rules simp: OutputCount_def complete_tx_def)

lemma wp_preimage_prevouts:
  assumes "E Panic \<or> complete_tx tx \<and> (\<forall>b. length (sha256 b) = 32)" "\<And>h. Q h"
  shows "wp E Q (if f AND AnyOneCanPay = 0 then SourceOutHash sha256 tx else Inr (replicate 32 0))"
  using assms by (auto intro!: wp_rules)

lemma wp_CalcInputPreimage:
  fixes E :: "'s fault \<Rightarrow> bool"
  assumes "allows_errors E" and panic: "E Panic \<or> complete_tx tx \<and> (\<forall>b. length (sha256 b) = 32)"
  shows "wp E (\<lambda>_. True) (CalcInputPreimage sha256 tx n f)"
proof (cases "unat n < length (Inputs tx)")
  case True
  let ?i = "Inputs tx ! unat n"
  have c: "E Panic \<or> complete_in ?i" using panic complete_nth True by blast
  have "wp E (\<lambda>_. True) (case (SourceTXID ?i, LockingScript so) of (Some txid, Some s) \<Rightarrow> Inr (g txid s) | _ \<Rightarrow> Inl Panic)"
    if "(SourceTxOutput ?i :: 's fault + _) = Inr (Some so)" for so and g :: "bytes \<Rightarrow> bytes \<Rightarrow> bytes"
    using c that by (auto elim!: complete_in_source [where ?'a = 's] split: option.split)
  note last_step = this
  show ?thesis
    unfolding CalcInputPreimage_def InputIdx_eq Let_def
    apply (simp only: True if_True rbind_Inr option.case)
    apply (rule wp_rbind, rule wp_SourceTxOutput, rule c, rule wp_case_option)
    subgoal using assms(1) by (simp add: allows_errors_def)
    subgoal for out so
      apply (rule wp_rbind, rule wp_preimage_prevouts, rule panic, rule wp_rbind, rule wp_preimage_outputs)
      using panic True last_step by auto
    done
qed (use assms(1) in \<open>simp add: CalcInputPreimage_def InputIdx_eq allows_errors_def\<close>)

lemma wp_legacy_in_bytes:
  assumes "E Panic \<or> SourceTXID i \<noteq> None \<and> SourceTransaction i = None"
  shows "wp E (\<lambda>_. True) (legacy_in_bytes i)"
  using assms by (auto simp: legacy_in_bytes_def SourceTxScript_def SourceTxOutput_def split: option.split)

lemma clone_input_source:
  "(clone_input i :: 's fault + _) = Inr i' \<Longrightarrow> SourceTXID i' \<noteq> None \<and> SourceTransaction i' = None"
  by (cases "SourceTxOutput i :: 's fault + _"; cases "SourceTXID i")
    (auto simp: clone_input_def split: option.splits)

lemma ShallowClone_inputs:
  assumes "(ShallowClone tx :: 's fault + _) = Inr tx'"
  shows "\<forall>i\<in>set (Inputs tx'). SourceTXID i \<noteq> None \<and> SourceTransaction i = None"
proof
  fix i'
  assume "i' \<in> set (Inputs tx')"
  moreover have "list_all2 (\<lambda>i i'. (clone_input i :: 's fault + _) = Inr i') (Inputs tx) (Inputs tx')"
    using assms by (auto simp: ShallowClone_def res_simps rmap_Inr_iff)
  ultimately obtain i where "(clone_input i :: 's fault + _) = Inr i'"
    by (auto simp: in_set_conv_nth list_all2_conv_all_nth)
  then show "SourceTXID i' \<noteq> None \<and> SourceTransaction i' = None" by (rule clone_input_source)
qed

lemma legacy_keeps:
  assumes "\<forall>i\<in>set ins. SourceTXID i \<noteq> None \<and> SourceTransaction i = None"
  shows "\<forall>i\<in>set (legacy_inputs n so ins). SourceTXID i \<noteq> None \<and> SourceTransaction i = None"
    "\<forall>i\<in>set (legacy_sequences n ins). SourceTXID i \<noteq> None \<and> SourceTransaction i = None"
  using assms
  by (auto simp: legacy_inputs_def legacy_sequences_def SetSourceTxOutput_def in_set_enumerate_eq)

lemma legacy_outputs_scripts:
  "\<forall>out\<in>set outs. LockingScript out \<noteq> None \<Longrightarrow> \<forall>out\<in>set (legacy_outputs n outs). LockingScript out \<noteq> None"
  by (auto simp: legacy_outputs_def in_set_enumerate_eq)

lemma ShallowClone_outputs:
  assumes "E Panic \<or> complete_tx tx" "(ShallowClone tx :: 's fault + _) = Inr tx'"
  shows "E Panic \<or> (\<forall>out\<in>set (Outputs tx'). LockingScript out \<noteq> None)"
proof (cases "E Panic")
  case False
  then have "complete_tx tx'" using assms ShallowClone_complete(1) by blast
  then show ?thesis by (simp add: complete_tx_def)
qed simp

lemma wp_legacy_serial:
  assumes "\<forall>i\<in>set ins. SourceTXID i \<noteq> None \<and> SourceTransaction i = None"
    "E Panic \<or> (\<forall>out\<in>set outs. LockingScript out \<noteq> None)"
  shows "wp E (\<lambda>_. True) (rbind (rmap legacy_in_bytes ins) (\<lambda>ib. rbind (rmap TxOut_Bytes outs) (\<lambda>ob. Inr (g ib ob))))"
  using assms by (auto intro!: wp_rules wp_legacy_in_bytes)

lemma wp_CalcInputPreimageLegacy:
  fixes E :: "'s fault \<Rightarrow> bool"
  assumes "allows_errors E" and panic: "E Panic \<or> complete_tx tx"
  shows "wp E (\<lambda>_. True) (CalcInputPreimageLegacy tx n f)"
proof (cases "unat n < length (Inputs tx)")
  case True
  have c: "E Panic \<or> complete_in (Inputs tx ! unat n)" using panic complete_nth True by blast
  show ?thesis
    unfolding CalcInputPreimageLegacy_def InputIdx_eq
    apply (simp only: True if_True rbind_Inr option.case)
    apply (rule wp_rbind, rule wp_SourceTxOutput, rule c, rule wp_case_option)
    subgoal using assms(1) by (simp add: allows_errors_def)
    apply (rule wp_if, simp)
    apply (rule wp_rbind, rule wp_ShallowClone, rule panic)
    subgoal for out so txCopy
      unfolding Let_def split_def
      apply (rule wp_legacy_serial)
      subgoal premises prems
        using legacy_keeps [OF ShallowClone_inputs [OF prems(4)]]
          legacy_keeps(2) [OF legacy_keeps(1) [OF ShallowClone_inputs [OF prems(4)]]]
        by (auto dest!: in_set_takeD in_set_dropD)
      subgoal premises prems
        using ShallowClone_outputs [where E = E, OF panic prems(4)] legacy_outputs_scripts [of "Outputs txCopy" "unat n"] by auto
      done
    done
qed (use assms(1) in \<open>simp add: CalcInputPreimageLegacy_def InputIdx_eq allows_errors_def\<close>)

lemma wp_CalcInputSignatureHash [wp_rules]:
  fixes E :: "'s fault \<Rightarrow> bool"
  assumes "allows_errors E" "E Panic \<or> complete_tx tx \<and> (\<forall>b. length (sha256 b) = 32)" "\<And>h. Q h"
  shows "wp E Q (CalcInputSignatureHash sha256 tx n f)"
proof -
  have "wp E (\<lambda>_. True) (sigStrat sha256 tx f n f)"
    using assms(2) wp_CalcInputPreimage [OF assms(1), of tx sha256 n f]
      wp_CalcInputPreimageLegacy [OF assms(1), of tx n f]
    by (auto simp: sigStrat_def)
  then show ?thesis
    unfolding CalcInputSignatureHash_def using assms(3) by (auto intro!: wp_rbind elim: wp_mono)
qed

end
