(* ===== verification/Handler_Laws.thy ===== *)
theory Handler_Laws
  imports Engine Sighash_Safety
begin

text \<open>
  What every opcode handler keeps, proved with the rules of theory \<open>Results\<close>.

  \<open>plain t t'\<close> is the contract of the handlers of unconditional opcodes: they touch the two stacks, the position of
  the last code separator and the operation count only, keep the limits of the stacks, and grow the stacks by at
  most three elements. \<open>frame t t'\<close> is the part of it that the conditional opcodes keep as well.
\<close>

subsection \<open>The stack operations\<close>

definition lim :: "stack \<Rightarrow> int \<times> bool \<times> bool" where
  "lim s = (maxNumLength s, stAfterGenesis s, verifyMinimalData s)"

text \<open>\<open>within k s s'\<close>: the limits are kept, and there are at most \<open>k\<close> more elements.\<close>

definition within :: "nat \<Rightarrow> stack \<Rightarrow> stack \<Rightarrow> bool" where
  "within k s s' = (lim s' = lim s \<and> length (stk s') \<le> length (stk s) + k)"

lemma lim_upd [simp]: "lim (s\<lparr>stk := xs\<rparr>) = lim s" "lim (PushByteArray s x) = lim s"
  "lim (PushInt s n) = lim s" "lim (PushBool s b) = lim s"
  by (simp_all add: lim_def PushInt_def PushBool_def)

lemma length_push [simp]: "length (stk (PushInt s n)) = Suc (length (stk s))"
  "length (stk (PushBool s b)) = Suc (length (stk s))"
  by (simp_all add: PushInt_def PushBool_def)

lemma within_refl [simp]: "within k s s"
  by (simp add: within_def)

lemma within_trans: "within j s s' \<Longrightarrow> within k s' s'' \<Longrightarrow> within (j + k) s s''"
  by (simp add: within_def)

lemma wp_nipN [wp_rules]:
  assumes "\<And>x s'. within 0 s s' \<Longrightarrow> Q (x, s')" "allows_errors E"
  shows "wp E Q (nipN s i)"
  using assms by (auto simp: nipN_def Let_def within_def allows_errors_def)

lemma wp_PopByteArray [wp_rules]:
  assumes "\<And>x s'. within 0 s s' \<Longrightarrow> Q (x, s')" "allows_errors E"
  shows "wp E Q (PopByteArray s)"
  unfolding PopByteArray_def using assms by (rule wp_nipN)

lemma PopByteArray_within: "(PopByteArray s :: 's fault + _) = Inr (x, s') \<Longrightarrow> within 0 s s'"
  using wp_PopByteArray [of s "\<lambda>(x, s'). within 0 s s'" "tame :: 's fault \<Rightarrow> bool"] by simp

lemma wp_MakeScriptNumber [wp_rules]:
  assumes "\<And>n. Q n" "allows_errors E"
  shows "wp E Q (MakeScriptNumber bb k m a)"
  using assms
  by (auto simp: MakeScriptNumber_def CheckMinimalDataEncoding_def Let_def allows_errors_def)

lemma wp_PopInt [wp_rules]:
  assumes "\<And>n s'. within 0 s s' \<Longrightarrow> Q (n, s')" "allows_errors E"
  shows "wp E Q (PopInt s)"
  unfolding PopInt_def by (rule wp_rules | simp add: assms)+

lemma wp_PopBool [wp_rules]:
  assumes "\<And>b s'. within 0 s s' \<Longrightarrow> Q (b, s')" "allows_errors E"
  shows "wp E Q (PopBool s)"
  unfolding PopBool_def by (rule wp_rules | simp add: assms)+

lemma wp_PeekByteArray [wp_rules]:
  assumes "\<And>x. Q x" "allows_errors E"
  shows "wp E Q (PeekByteArray s i)"
  using assms by (auto simp: PeekByteArray_def Let_def allows_errors_def)

lemma wp_drop_loop:
  assumes "\<And>s'. within 0 s s' \<Longrightarrow> Q s'" "allows_errors E"
  shows "wp E Q (drop_loop n s)"
  using assms(1)
proof (induction n arbitrary: s)
  case (Suc n)
  show ?case
    using Suc.prems within_trans [where j = 0 and k = 0] assms(2)
    by (auto intro!: wp_rules Suc.IH)
qed simp

lemma wp_peek_push_loop:
  assumes "\<And>s'. within n s s' \<Longrightarrow> Q s'" "allows_errors E"
  shows "wp E Q (peek_push_loop n i s)"
  using assms(1)
proof (induction n arbitrary: s)
  case (Suc n)
  show ?case
    using Suc.prems assms(2) by (auto intro!: wp_rules Suc.IH simp: within_def)
qed simp

lemma wp_nip_push_loop:
  assumes "\<And>s'. within n s s' \<Longrightarrow> Q s'" "allows_errors E"
  shows "wp E Q (nip_push_loop n i s)"
  using assms(1)
proof (induction n arbitrary: s)
  case (Suc n)
  show ?case
    using Suc.prems assms(2) by (auto intro!: wp_rules Suc.IH simp: within_def)
qed simp

lemma wp_counted [wp_rules]:
  assumes "\<And>s'. within (nat n) s s' \<Longrightarrow> Q s'" "allows_errors E"
  shows "wp E Q (DropN s n)" "wp E Q (DupN s n)" "wp E Q (OverN s n)" "wp E Q (RotN s n)" "wp E Q (SwapN s n)"
  unfolding DropN_def DupN_def OverN_def RotN_def SwapN_def
  using assms by (auto intro!: wp_drop_loop wp_peek_push_loop wp_nip_push_loop simp: within_def allows_errors_def)

lemma wp_indexed [wp_rules]:
  assumes "\<And>s'. within 1 s s' \<Longrightarrow> Q s'" "allows_errors E"
  shows "wp E Q (NipN s n)" "wp E Q (PickN s n)" "wp E Q (RollN s n)"
  unfolding NipN_def PickN_def RollN_def
  using assms by (auto intro!: wp_rules simp: within_def)

lemma wp_Tuck [wp_rules]:
  assumes "\<And>s'. within 3 s s' \<Longrightarrow> Q s'" "allows_errors E"
  shows "wp E Q (Tuck s)"
  unfolding Tuck_def using assms by (auto intro!: wp_rules simp: within_def)

subsection \<open>What a handler keeps\<close>

definition stack_total :: "thread \<Rightarrow> nat" where
  "stack_total t = length (stk (dstack t)) + length (stk (astack t))"

text \<open>What only the engine changes, between two opcodes or two scripts, or nobody.\<close>

definition pinned :: "thread \<Rightarrow> (config \<times> ParsedScript list \<times> bytes list \<times> bool \<times> nat \<times> nat)
    \<times> (Transaction option \<times> int \<times> TransactionOutput option) \<times> (u32 \<times> bool \<times> bool \<times> bool)" where
  "pinned t = ((cfg t, scripts t, savedFirstStack t, errorOnCheckSig t, scriptIdx t, scriptOff t),
     (thTx t, inputIdx t, prevOutput t), (thFlags t, bip16 t, afterGenesis t, afterChronicle t))"

definition frame :: "thread \<Rightarrow> thread \<Rightarrow> bool" where
  "frame t t' = (pinned t' = pinned t
     \<and> lim (dstack t') = lim (dstack t) \<and> lim (astack t') = lim (astack t)
     \<and> stack_total t' \<le> stack_total t + 3
     \<and> (lastCodeSep t' = lastCodeSep t \<or> lastCodeSep t' = scriptOff t)
     \<and> numOps t \<le> numOps t' \<and> (numOps t' = numOps t \<or> numOps t' \<le> MaxOps (cfg t)))"

definition plain :: "thread \<Rightarrow> thread \<Rightarrow> bool" where
  "plain t t' = (frame t t' \<and> condStack t' = condStack t \<and> elseStack t' = elseStack t
     \<and> earlyReturnAfterGenesis t' = earlyReturnAfterGenesis t)"

lemma plain_frame: "plain t t' \<Longrightarrow> frame t t'"
  by (simp add: plain_def)

lemma plain_refl [simp]: "plain t t"
  by (simp add: plain_def frame_def)

lemmas plain_defs = plain_def frame_def pinned_def stack_total_def within_def

lemma plain_dstack: "within 3 (dstack t) s \<Longrightarrow> plain t (t\<lparr>dstack := s\<rparr>)"
  by (auto simp: plain_defs)

lemma plain_lastCodeSep: "plain t (t\<lparr>lastCodeSep := scriptOff t\<rparr>)"
  by (simp add: plain_defs)

lemma plain_alt:
  "within 0 (dstack t) s \<Longrightarrow> plain t (t\<lparr>dstack := s, astack := PushByteArray (astack t) x\<rparr>)"
  "within 0 (astack t) s \<Longrightarrow> plain t (t\<lparr>astack := s, dstack := PushByteArray (dstack t) x\<rparr>)"
  by (auto simp: plain_defs)

text \<open>A handler of an unconditional opcode on one line: \<open>quiet\<close> collects these facts.\<close>

named_theorems quiet \<open>the handlers that keep \<open>plain\<close> and do not panic\<close>

lemmas handler_shapes = on_dstack_def unary_num_def binary_num_def unary_bytes_def bitwise_def abstractVerify_def
  chronicle_nop_def opcodeSliceBytes_def opcodeShiftNum_def

lemma wp_abstractVerify [wp_rules]:
  assumes "\<And>s. within 0 (dstack t) s \<Longrightarrow> Q (t\<lparr>dstack := s\<rparr>)" "allows_errors E"
  shows "wp E Q (abstractVerify pop t code)"
  unfolding abstractVerify_def using assms by (auto intro!: wp_rules simp: allows_errors_def)

lemma quiet_push [quiet]:
  "wp calm (plain t) (opcodeDisabled pop t)"
  "wp calm (plain t) (opcodeReserved pop t)"
  "wp calm (plain t) (opcodeInvalid pop t)"
  "wp calm (plain t) (opcodeFalse pop t)"
  "wp calm (plain t) (opcodePushData pop t)"
  "wp calm (plain t) (opcode1Negate pop t)"
  "wp calm (plain t) (opcodeN pop t)"
  "wp calm (plain t) (opcodeNop pop t)"
  "wp calm (plain t) (opcodeCodeSeparator pop t)"
  "wp calm (plain t) (opcodeVer pop t)"
  unfolding handler_shapes
    opcodeDisabled_def opcodeReserved_def opcodeInvalid_def opcodeFalse_def opcodePushData_def
    opcode1Negate_def opcodeN_def opcodeNop_def opcodeCodeSeparator_def opcodeVer_def
  by (auto intro!: wp_rules plain_dstack plain_lastCodeSep plain_alt simp: within_def)

lemma quiet_stack [quiet]:
  "wp calm (plain t) (opcodeToAltStack pop t)"
  "wp calm (plain t) (opcodeFromAltStack pop t)"
  "wp calm (plain t) (opcode2Drop pop t)"
  "wp calm (plain t) (opcode2Dup pop t)"
  "wp calm (plain t) (opcode3Dup pop t)"
  "wp calm (plain t) (opcode2Over pop t)"
  "wp calm (plain t) (opcode2Rot pop t)"
  "wp calm (plain t) (opcode2Swap pop t)"
  "wp calm (plain t) (opcodeIfDup pop t)"
  "wp calm (plain t) (opcodeDepth pop t)"
  "wp calm (plain t) (opcodeDrop pop t)"
  "wp calm (plain t) (opcodeDup pop t)"
  "wp calm (plain t) (opcodeNip pop t)"
  "wp calm (plain t) (opcodeOver pop t)"
  "wp calm (plain t) (opcodePick pop t)"
  "wp calm (plain t) (opcodeRoll pop t)"
  "wp calm (plain t) (opcodeRot pop t)"
  "wp calm (plain t) (opcodeSwap pop t)"
  "wp calm (plain t) (opcodeTuck pop t)"
  unfolding handler_shapes
    opcodeToAltStack_def opcodeFromAltStack_def opcode2Drop_def opcode2Dup_def opcode3Dup_def
    opcode2Over_def opcode2Rot_def opcode2Swap_def opcodeIfDup_def opcodeDepth_def opcodeDrop_def
    opcodeDup_def opcodeNip_def opcodeOver_def opcodePick_def opcodeRoll_def opcodeRot_def opcodeSwap_def
    opcodeTuck_def
  by (auto intro!: wp_rules plain_dstack plain_lastCodeSep plain_alt simp: within_def)

lemma quiet_splice [quiet]:
  "wp calm (plain t) (opcodeCat pop t)"
  "wp calm (plain t) (opcodeNum2bin pop t)"
  "wp calm (plain t) (opcodeBin2num pop t)"
  "wp calm (plain t) (opcodeSize pop t)"
  "wp calm (plain t) (opcodeInvert pop t)"
  "wp calm (plain t) (opcodeAnd pop t)"
  "wp calm (plain t) (opcodeOr pop t)"
  "wp calm (plain t) (opcodeXor pop t)"
  "wp calm (plain t) (opcodeEqual pop t)"
  "wp calm (plain t) (opcodeEqualVerify pop t)"
  "wp calm (plain t) (opcodeVerify pop t)"
  "wp calm (plain t) (opcodeSubstr pop t)"
  "wp calm (plain t) (opcodeLeft pop t)"
  "wp calm (plain t) (opcodeRight pop t)"
  unfolding handler_shapes
    opcodeCat_def opcodeNum2bin_def opcodeBin2num_def opcodeSize_def opcodeInvert_def opcodeAnd_def
    opcodeOr_def opcodeXor_def opcodeEqual_def opcodeEqualVerify_def opcodeVerify_def opcodeSubstr_def
    opcodeLeft_def opcodeRight_def
  by (auto intro!: wp_rules plain_dstack plain_lastCodeSep plain_alt simp: within_def)

lemma quiet_num [quiet]:
  "wp calm (plain t) (opcode1Add pop t)"
  "wp calm (plain t) (opcode1Sub pop t)"
  "wp calm (plain t) (opcodeNegate pop t)"
  "wp calm (plain t) (opcodeAbs pop t)"
  "wp calm (plain t) (opcodeNot pop t)"
  "wp calm (plain t) (opcode0NotEqual pop t)"
  "wp calm (plain t) (opcodeAdd pop t)"
  "wp calm (plain t) (opcodeSub pop t)"
  "wp calm (plain t) (opcodeMul pop t)"
  "wp calm (plain t) (opcodeDiv pop t)"
  "wp calm (plain t) (opcodeMod pop t)"
  "wp calm (plain t) (opcode2Mul pop t)"
  "wp calm (plain t) (opcode2Div pop t)"
  "wp calm (plain t) (opcodeLShift pop t)"
  "wp calm (plain t) (opcodeRShift pop t)"
  "wp calm (plain t) (opcodeLShiftNum pop t)"
  "wp calm (plain t) (opcodeRShiftNum pop t)"
  unfolding handler_shapes
    opcode1Add_def opcode1Sub_def opcodeNegate_def opcodeAbs_def opcodeNot_def opcode0NotEqual_def
    opcodeAdd_def opcodeSub_def opcodeMul_def opcodeDiv_def opcodeMod_def opcode2Mul_def opcode2Div_def
    opcodeLShift_def opcodeRShift_def opcodeLShiftNum_def opcodeRShiftNum_def
  by (auto intro!: wp_rules plain_dstack plain_lastCodeSep plain_alt simp: within_def)

lemma quiet_cmp [quiet]:
  "wp calm (plain t) (opcodeBoolAnd pop t)"
  "wp calm (plain t) (opcodeBoolOr pop t)"
  "wp calm (plain t) (opcodeNumEqual pop t)"
  "wp calm (plain t) (opcodeNumEqualVerify pop t)"
  "wp calm (plain t) (opcodeNumNotEqual pop t)"
  "wp calm (plain t) (opcodeLessThan pop t)"
  "wp calm (plain t) (opcodeGreaterThan pop t)"
  "wp calm (plain t) (opcodeLessThanOrEqual pop t)"
  "wp calm (plain t) (opcodeGreaterThanOrEqual pop t)"
  "wp calm (plain t) (opcodeMin pop t)"
  "wp calm (plain t) (opcodeMax pop t)"
  "wp calm (plain t) (opcodeWithin pop t)"
  unfolding handler_shapes
    opcodeBoolAnd_def opcodeBoolOr_def opcodeNumEqual_def opcodeNumEqualVerify_def opcodeNumNotEqual_def
    opcodeLessThan_def opcodeGreaterThan_def opcodeLessThanOrEqual_def opcodeGreaterThanOrEqual_def
    opcodeMin_def opcodeMax_def opcodeWithin_def
  by (auto intro!: wp_rules plain_dstack plain_lastCodeSep plain_alt simp: within_def)

lemma quiet_hash [quiet]:
  "wp calm (plain t) (opcodeRipemd160 c pop t)"
  "wp calm (plain t) (opcodeSha1 c pop t)"
  "wp calm (plain t) (opcodeSha256 c pop t)"
  "wp calm (plain t) (opcodeHash160 c pop t)"
  "wp calm (plain t) (opcodeHash256 c pop t)"
  unfolding handler_shapes
    opcodeRipemd160_def opcodeSha1_def opcodeSha256_def opcodeHash160_def opcodeHash256_def
  by (auto intro!: wp_rules plain_dstack plain_lastCodeSep plain_alt simp: within_def)


subsection \<open>The handlers that may panic\<close>

text \<open>OP_SPLIT panics on a position that wraps to a negative one; the lock time and signature opcodes read the
  transaction, and the signature opcodes cut the running script at the last code separator. As in theory
  \<open>Sighash_Safety\<close> the lemmas carry the alternative \<open>E Panic\<close>.\<close>

definition tx_ready :: "('pk, 'sg) crypto \<Rightarrow> thread \<Rightarrow> bool" where
  "tx_ready c t = ((case thTx t of None \<Rightarrow> False
     | Some tr \<Rightarrow> complete_tx tr \<and> 0 \<le> inputIdx t \<and> inputIdx t < int (length (Inputs tr)))
     \<and> (\<forall>b. length (sha256 c b) = 32))"

definition sub_ready :: "thread \<Rightarrow> bool" where
  "sub_ready t = (scriptIdx t < length (scripts t)
     \<and> (lastCodeSep t = 0 \<or> lastCodeSep t < length (scripts t ! scriptIdx t)))"

lemma wp_checks [wp_rules]:
  assumes "allows_errors E" "Q ()"
  shows "wp E Q (checkHashTypeEncoding t shf)" "wp E Q (checkPubKeyEncoding t pk)"
    "wp E Q (checkSignatureEncoding t sig)" "wp E Q (verifyLockTime a b d)"
  using assms
  by (auto simp: checkHashTypeEncoding_def checkPubKeyEncoding_def checkSignatureEncoding_def verifyLockTime_def
      Let_def allows_errors_def)

lemma wp_spending_input [wp_rules]:
  assumes "E Panic \<or> tx_ready c t" "\<And>tr i. Q (tr, i)"
  shows "wp E Q (spending_input t)"
  using assms by (auto simp: spending_input_def tx_ready_def split: option.splits)

lemma wp_subScript [wp_rules]:
  assumes "E Panic \<or> sub_ready t" "\<And>scr. Q scr"
  shows "wp E Q (subScript t)"
  using assms by (auto simp: subScript_def sub_ready_def Let_def)

lemma wp_Unparse [wp_rules]:
  assumes "allows_errors E" "\<And>b. Q b"
  shows "wp E Q (Unparse scr)"
proof -
  have "wp E (\<lambda>_. True) (pop_bytes pop)" for pop
    using assms(1) by (auto simp: pop_bytes_def Let_def allows_errors_def split: if_splits)
  then have "wp E Q (unparse_loop scr b)" for b
    using assms(2) by (induction scr arbitrary: b) (auto intro!: wp_rbind elim: wp_mono)
  then show ?thesis by (simp add: Unparse_def)
qed

lemma i32_le: "0 \<le> n \<Longrightarrow> n \<le> i32 (int k) \<Longrightarrow> n \<le> int k"
proof (cases "k < 2 ^ 31")
  case False
  then have "(2 :: int) ^ 31 \<le> int k" by simp
  then show "n \<le> i32 (int k) \<Longrightarrow> n \<le> int k" using i32_range(2) [of "int k"] by linarith
qed (simp add: i32_of_nat)

lemma loud_split:
  assumes "allows_errors E" "E Panic"
  shows "wp E (plain t) (opcodeSplit pop t)"
  unfolding opcodeSplit_def using assms by (auto intro!: wp_rules plain_dstack simp: within_def allows_errors_def)

lemma loud_locktime:
  assumes "allows_errors E" "E Panic \<or> tx_ready c t"
  shows "wp E (plain t) (opcodeCheckLockTimeVerify pop t)" "wp E (plain t) (opcodeCheckSequenceVerify pop t)"
  unfolding opcodeCheckLockTimeVerify_def opcodeCheckSequenceVerify_def
  using assms by (auto intro!: wp_rules simp: allows_errors_def tx_ready_def)


lemma sig_hash_clone:
  assumes "complete_tx tr" "(ShallowClone tr :: 's fault + _) = Inr tx" "k < length (Inputs tx)"
    "(SourceTxOutput (Inputs tx ! k) :: 's fault + _) = Inr so"
  shows "\<exists>out. so = Some out"
    "complete_tx (with_Inputs tx ((Inputs tx)[k := SetSourceTxOutput (Inputs tx ! k)
       (map_option (\<lambda>out. out\<lparr>LockingScript := Some up\<rparr>) so)]))"
proof -
  have tx: "complete_tx tx" by (rule ShallowClone_complete(1) [OF assms(1,2)])
  obtain out where so: "so = Some out"
    using complete_in_source [OF complete_nth [OF tx assms(3)]] assms(4)
    by (metis Inr_inject)
  have "SourceTransaction (Inputs tx ! k) = None" using ShallowClone_inputs [OF assms(2)] assms(3) by simp
  then show "\<exists>out. so = Some out" "complete_tx (with_Inputs tx ((Inputs tx)[k := SetSourceTxOutput (Inputs tx ! k)
       (map_option (\<lambda>out. out\<lparr>LockingScript := Some up\<rparr>) so)]))"
    using complete_set_source [OF tx assms(3)] by (auto simp: so)
qed

lemma wp_sig_hash [wp_rules]:
  assumes "allows_errors E" and ready: "E Panic \<or> tx_ready c t" and "\<And>h. Q h"
  shows "wp E Q (sig_hash c t needed up shf)"
proof (cases "E Panic")
  case True
  then show ?thesis
    unfolding sig_hash_def Let_def using assms by (auto intro!: wp_rules)
next
  case False
  then obtain tr where tr: "thTx t = Some tr" "complete_tx tr" "0 \<le> inputIdx t" "inputIdx t < int (length (Inputs tr))"
    and h: "\<forall>b. length (sha256 c b) = 32"
    using ready by (auto simp: tx_ready_def split: option.splits)
  have "wp (\<lambda>_. False) (\<lambda>_. True) (ShallowClone tr :: thread fault + _)"
    using tr by (intro wp_ShallowClone) auto
  then obtain tx where tx: "(ShallowClone tr :: thread fault + _) = Inr tx"
    by (cases "ShallowClone tr :: thread fault + _") auto
  note k = ShallowClone_complete [OF tr(2) tx]
  let ?i = "Inputs tx ! nat (inputIdx t)"
  have i: "nat (inputIdx t) < length (Inputs tx)" using tr k by auto
  have "wp (\<lambda>_. False) (\<lambda>_. True) (SourceTxOutput ?i :: thread fault + _)"
    using complete_nth [OF k(1) i] by (intro wp_SourceTxOutput) auto
  then obtain so where so: "(SourceTxOutput ?i :: thread fault + _) = Inr so"
    by (cases "SourceTxOutput ?i :: thread fault + _") auto
  show ?thesis
    unfolding sig_hash_def Let_def
    using tr h assms(1,3) k so sig_hash_clone(1) [OF tr(2) tx i so]
      sig_hash_clone(2) [OF tr(2) tx i so, of up]
    by (auto simp: tx intro!: wp_rules)
qed

lemma wp_verify_sig [wp_rules]:
  assumes "allows_errors E" "\<And>b. Q b"
  shows "wp E Q (verify_sig c t h s p)"
  using assms unfolding verify_sig_def by (auto intro!: wp_rules simp: allows_errors_def)

lemma wp_push_bool [wp_rules]:
  "within 2 (dstack t) s \<Longrightarrow> wp E (plain t) (push_bool t s b)"
  unfolding push_bool_def by (auto intro!: plain_dstack simp: within_def)

lemma loud_checksig:
  assumes "allows_errors E" "E Panic \<or> tx_ready c t \<and> sub_ready t"
  shows "wp E (plain t) (opcodeCheckSig c pop t)"
  unfolding opcodeCheckSig_def
  using assms by (auto intro!: wp_rules simp: within_def allows_errors_def)


text \<open>OP_CHECKMULTISIG: the loop indexes the keys and signatures it popped, and never runs past their ends.\<close>

lemma wp_pop_n [wp_rules]:
  assumes "\<And>xs s'. within 0 s s' \<Longrightarrow> length xs = length acc + n \<Longrightarrow> Q (xs, s')" "allows_errors E"
  shows "wp E Q (pop_n n s acc)"
  using assms(1)
proof (induction n arbitrary: s acc)
  case (Suc n)
  show ?case
    using Suc.prems assms(2) by (auto intro!: wp_rules Suc.IH simp: within_def)
qed simp

lemma wp_or_false:
  assumes "wp E (\<lambda>x. wp E Q (f x)) r" "Q None" "allows_errors E"
  shows "wp E Q (or_false r f)"
  using assms by (cases r) (auto simp: or_false_def split: fault.splits)

lemma wp_multisig_try [wp_rules]:
  assumes "allows_errors E" "E Panic \<or> tx_ready c t" "\<And>r. Q r"
  shows "wp E Q (multisig_try c t scr info pk)"
  unfolding multisig_try_def Let_def
  using assms by (auto intro!: wp_rules wp_or_false simp: allows_errors_def)

lemma wp_multisig_loop:
  assumes "allows_errors E" "E Panic \<or> tx_ready c t"
    and "pubKeyIdx + numPubKeys = int (length pubKeys)" "- 1 \<le> pubKeyIdx"
    and "int signatureIdx + numSignatures = int (length infos)"
  shows "wp E (\<lambda>_. True) (multisig_loop c t scr pubKeys numSignatures numPubKeys pubKeyIdx signatureIdx infos)"
  using assms
proof (induction c t scr pubKeys numSignatures numPubKeys pubKeyIdx signatureIdx infos rule: multisig_loop.induct)
  case (1 c t scr pubKeys numSignatures numPubKeys pubKeyIdx signatureIdx infos)
  let ?one = "multisig_try c t scr (infos ! signatureIdx) (pubKeys ! nat (pubKeyIdx + 1))"
  have "wp E (\<lambda>_. True) ?one" using "1.prems"(1,2) by (rule wp_multisig_try) simp
  show ?case
  proof (cases "numSignatures > 0 \<and> \<not> numSignatures > numPubKeys - 1")
    case True
    then have in_range: "signatureIdx < length infos" "0 \<le> pubKeyIdx + 1" "pubKeyIdx + 1 < int (length pubKeys)"
      using "1.prems" by auto
    show ?thesis
      using True in_range \<open>wp E (\<lambda>_. True) ?one\<close> "1.IH" [OF _ refl refl] "1.prems"
      by (subst multisig_loop.simps) (auto simp: wp_def split: sum.splits option.splits)
  qed (subst multisig_loop.simps, auto)
qed

lemma wp_multisig_loop_any [wp_rules]:
  assumes "allows_errors E" "E Panic \<or> tx_ready c t" "\<And>r. Q r"
    and "pubKeyIdx + numPubKeys = int (length pubKeys)" "- 1 \<le> pubKeyIdx"
    and "int signatureIdx + numSignatures = int (length infos)"
  shows "wp E Q (multisig_loop c t scr pubKeys numSignatures numPubKeys pubKeyIdx signatureIdx infos)"
  using assms by (intro wp_result [OF wp_multisig_loop])

lemma ready_numOps [simp]:
  "tx_ready c (t\<lparr>numOps := k\<rparr>) = tx_ready c t" "sub_ready (t\<lparr>numOps := k\<rparr>) = sub_ready t"
  by (auto simp: tx_ready_def sub_ready_def split: option.splits)

lemma wp_push_counted:
  assumes "within 2 (dstack t) s" "0 \<le> n" "numOps t + n \<le> MaxOps (cfg t)"
  shows "wp E (plain t) (push_bool (t\<lparr>numOps := numOps t + n\<rparr>) s b)"
  using assms by (simp add: push_bool_def plain_defs)

lemma loud_multisig:
  assumes "allows_errors E" "E Panic \<or> tx_ready c t \<and> sub_ready t"
  shows "wp E (plain t) (opcodeCheckMultiSig c pop t)"
  unfolding opcodeCheckMultiSig_def
  using assms by (auto intro!: wp_rules wp_push_counted simp: within_def allows_errors_def)

lemma plain_pop: "plain t t1 \<Longrightarrow> within 0 (dstack t1) s \<Longrightarrow> plain t (t1\<lparr>dstack := s\<rparr>)"
  by (auto simp: plain_defs)

lemma wp_then_verify:
  assumes "wp E (plain t) r" "allows_errors E"
  shows "wp E (plain t) (rbind r (\<lambda>t. abstractVerify pop t code))"
  using assms by (auto intro!: wp_rbind wp_abstractVerify plain_pop elim!: wp_mono)

lemma loud_verify:
  assumes "allows_errors E" "E Panic \<or> tx_ready c t \<and> sub_ready t"
  shows "wp E (plain t) (opcodeCheckSigVerify c pop t)" "wp E (plain t) (opcodeCheckMultiSigVerify c pop t)"
  unfolding opcodeCheckSigVerify_def opcodeCheckMultiSigVerify_def
  using assms by (auto intro!: wp_then_verify loud_checksig loud_multisig)

subsection \<open>The conditional opcodes and OP_RETURN\<close>

lemma wp_popIfBool [wp_rules]:
  assumes "\<And>b s. within 0 (dstack t) s \<Longrightarrow> Q (b, t\<lparr>dstack := s\<rparr>)" "allows_errors E"
  shows "wp E Q (popIfBool t)"
  unfolding popIfBool_def using assms by (auto intro!: wp_rules simp: allows_errors_def)

lemma wp_bsPopBool [wp_rules]:
  assumes "\<And>b bs. Q (b, bs)" "allows_errors E"
  shows "wp E Q (bsPopBool s)"
  unfolding bsPopBool_def using assms by (auto intro!: wp_rules split: boolStack.split)

lemma frame_cond:
  "within 0 (dstack t) s \<Longrightarrow> frame t (t\<lparr>dstack := s, condStack := cs, elseStack := es\<rparr>)"
  "frame t (t\<lparr>condStack := cs, elseStack := es\<rparr>)" "frame t (t\<lparr>elseStack := es\<rparr>)"
  "frame t (t\<lparr>earlyReturnAfterGenesis := b\<rparr>)" "frame t t"
  by (auto simp: plain_defs)

lemma frame_conditional:
  "wp calm (frame t) (opcodeIf pop t)" "wp calm (frame t) (opcodeNotIf pop t)"
  "wp calm (frame t) (opcodeElse pop t)" "wp calm (frame t) (opcodeEndif pop t)"
  unfolding opcodeIf_def opcodeNotIf_def opcodeElse_def opcodeEndif_def push_cond_def Let_def
  by (auto intro!: wp_rules frame_cond)

lemma frame_ver_conditional: "wp calm (frame t) (opcodeVerConditional pop t)"
  unfolding opcodeVerConditional_def resolveVerCondition_def push_cond_def opcodeReserved_def Let_def
  by (auto intro!: wp_rules frame_cond PopByteArray_within split: sum.split)

subsection \<open>The table\<close>

definition quiet_handler :: "(ParsedOpcode \<Rightarrow> thread \<Rightarrow> outcome) \<Rightarrow> bool" where
  "quiet_handler h = (\<forall>pop t. wp calm (plain t) (h pop t))"

text \<open>The positions of the handlers that are not quiet: the conditionals, OP_RETURN, OP_SPLIT, the signature and the
  lock time opcodes.\<close>

definition loud :: "nat set" where
  "loud = {0x63, 0x64, 0x65, 0x66, 0x67, 0x68, 0x6A, 0x7F, 0xAC, 0xAD, 0xAE, 0xAF, 0xB1, 0xB2}"

lemma quiet_table:
  "list_all (\<lambda>(n, h). n \<in> loud \<or> quiet_handler h) (enumerate 0x61 (opcodeExec_ops c))"
  unfolding opcodeExec_ops_def by (simp add: quiet_handler_def quiet loud_def)

lemma length_opcodeExec_parts [simp]:
  "length (opcodeExec_push c) = 0x61" "length (opcodeExec_ops c) = 0x59" "length (opcodeExec_undefined c) = 0x46"
  by (simp_all add: opcodeExec_push_def opcodeExec_ops_def opcodeExec_undefined_def)

lemma quiet_at:
  assumes "n < 256" "n \<notin> loud"
  shows "quiet_handler (opcodeExec c ! n)"
proof -
  have push: "\<forall>h\<in>set (opcodeExec_push c). quiet_handler h" "\<forall>h\<in>set (opcodeExec_undefined c). quiet_handler h"
    by (auto simp: opcodeExec_push_def opcodeExec_undefined_def quiet_handler_def quiet)
  have ops: "k + 0x61 \<in> loud \<or> quiet_handler (opcodeExec_ops c ! k)" if "k < 0x59" for k
    using quiet_table [of c] that by (auto simp: list_all_length nth_enumerate_eq add.commute)
  consider "n < 0x61" | "0x61 \<le> n" "n < 0xBA" | "0xBA \<le> n" by linarith
  then show ?thesis
  proof cases
    case 2
    then show ?thesis using ops [of "n - 0x61"] assms(2) by (auto simp: opcodeExec_def nth_append)
  qed (use push assms(1) in \<open>auto simp: opcodeExec_def nth_append\<close>)
qed

lemma loud_at:
  "opcodeExec c ! 0x63 = opcodeIf" "opcodeExec c ! 0x64 = opcodeNotIf" "opcodeExec c ! 0x65 = opcodeVerConditional"
  "opcodeExec c ! 0x66 = opcodeVerConditional" "opcodeExec c ! 0x67 = opcodeElse" "opcodeExec c ! 0x68 = opcodeEndif"
  "opcodeExec c ! 0x6A = opcodeReturn" "opcodeExec c ! 0x7F = opcodeSplit" "opcodeExec c ! 0xAC = opcodeCheckSig c"
  "opcodeExec c ! 0xAD = opcodeCheckSigVerify c" "opcodeExec c ! 0xAE = opcodeCheckMultiSig c"
  "opcodeExec c ! 0xAF = opcodeCheckMultiSigVerify c" "opcodeExec c ! 0xB1 = opcodeCheckLockTimeVerify"
  "opcodeExec c ! 0xB2 = opcodeCheckSequenceVerify"
  by (simp_all add: opcodeExec_def nth_append opcodeExec_ops_def)

end
