(* ===== verification/Engine_Laws.thy ===== *)
theory Engine_Laws
  imports Handler_Laws
begin

text \<open>
  What the engine keeps, and that it ends. Locale \<open>dispatch\<close> is the contract of the table of handlers, as the engine
  relies on it; \<open>guarded\<close> adds the checks that \<open>executeOpcode\<close> makes before it calls a handler. Both are interpreted
  on the model. Locale \<open>step_loop\<close> is a loop over a fallible step that decreases a rank: it returns, and carries
  invariants from the start to the end. It is interpreted on \<open>Step\<close> and the loop of \<open>execute\<close>.
\<close>

subsection \<open>The table of handlers as an interface\<close>

lemma loud_opcode:
  "unat (opval (op pop)) \<in> loud \<longleftrightarrow> IsConditional pop \<or> opval (op pop) = OpRETURN \<or> opval (op pop) = OpSPLIT
     \<or> RequiresTx pop \<or> opval (op pop) = OpCHECKLOCKTIMEVERIFY"
  by (auto simp: loud_def IsConditional_def RequiresTx_def word_unat_eq_iff)

lemma op_exec_quiet: "unat (opval (op pop)) \<notin> loud \<Longrightarrow> wp calm (plain t) (op_exec c pop t)"
  using quiet_at [of "unat (opval (op pop))" c] by (simp add: op_exec_def quiet_handler_def)

lemma op_exec_at:
  "opval (op pop) = OpIF \<Longrightarrow> op_exec c pop t = opcodeIf pop t"
  "opval (op pop) = OpNOTIF \<Longrightarrow> op_exec c pop t = opcodeNotIf pop t"
  "opval (op pop) = OpVERIF \<Longrightarrow> op_exec c pop t = opcodeVerConditional pop t"
  "opval (op pop) = OpVERNOTIF \<Longrightarrow> op_exec c pop t = opcodeVerConditional pop t"
  "opval (op pop) = OpELSE \<Longrightarrow> op_exec c pop t = opcodeElse pop t"
  "opval (op pop) = OpENDIF \<Longrightarrow> op_exec c pop t = opcodeEndif pop t"
  "opval (op pop) = OpRETURN \<Longrightarrow> op_exec c pop t = opcodeReturn pop t"
  "opval (op pop) = OpSPLIT \<Longrightarrow> op_exec c pop t = opcodeSplit pop t"
  "opval (op pop) = OpCHECKSIG \<Longrightarrow> op_exec c pop t = opcodeCheckSig c pop t"
  "opval (op pop) = OpCHECKSIGVERIFY \<Longrightarrow> op_exec c pop t = opcodeCheckSigVerify c pop t"
  "opval (op pop) = OpCHECKMULTISIG \<Longrightarrow> op_exec c pop t = opcodeCheckMultiSig c pop t"
  "opval (op pop) = OpCHECKMULTISIGVERIFY \<Longrightarrow> op_exec c pop t = opcodeCheckMultiSigVerify c pop t"
  "opval (op pop) = OpCHECKLOCKTIMEVERIFY \<Longrightarrow> op_exec c pop t = opcodeCheckLockTimeVerify pop t"
  "opval (op pop) = OpCHECKSEQUENCEVERIFY \<Longrightarrow> op_exec c pop t = opcodeCheckSequenceVerify pop t"
  by (simp_all add: op_exec_def loud_at)

lemma op_exec_conditional: "IsConditional pop \<Longrightarrow> wp calm (frame t) (op_exec c pop t)"
  unfolding IsConditional_def by (auto simp: op_exec_at frame_conditional frame_ver_conditional)

lemma op_exec_plain:
  assumes "\<not> IsConditional pop" "opval (op pop) \<noteq> OpRETURN" "allows_errors E"
    and "E Panic \<or> opval (op pop) \<noteq> OpSPLIT \<and> tx_ready c t \<and> sub_ready t"
  shows "wp E (plain t) (op_exec c pop t)"
proof (cases "unat (opval (op pop)) \<in> loud")
  case False
  have "E e" if "calm e" for e using that assms(3) by (cases e) (auto simp: allows_errors_def)
  with op_exec_quiet [OF False, of t c] show ?thesis by (auto elim!: wp_mono)
next
  case True
  then show ?thesis
    using assms
    by (auto simp: loud_opcode RequiresTx_def op_exec_at
        intro!: loud_split loud_locktime [where c = c] loud_checksig loud_multisig loud_verify)
qed

locale dispatch =
  fixes exec :: "ParsedOpcode \<Rightarrow> thread \<Rightarrow> outcome"
  assumes exec_frame: "exec pop t = Inr t' \<Longrightarrow> frame t t'"
    and exec_plain: "\<not> IsConditional pop \<Longrightarrow> opval (op pop) \<noteq> OpRETURN \<Longrightarrow> exec pop t = Inr t' \<Longrightarrow> plain t t'"
    and exec_success: "exec pop t = Inl (Success t') \<Longrightarrow>
      afterGenesis t \<and> condStack t = [] \<and> t' = t\<lparr>earlyReturnAfterGenesis := True\<rparr>"

lemma op_exec_success:
  assumes "op_exec c pop t = Inl (Success t')"
  shows "opval (op pop) = OpRETURN \<and> afterGenesis t \<and> condStack t = [] \<and> t' = t\<lparr>earlyReturnAfterGenesis := True\<rparr>"
proof (cases "IsConditional pop")
  case True
  then show ?thesis using op_exec_conditional [OF True, of t c] assms by simp
next
  case False
  then show ?thesis
    using op_exec_plain [OF False, of tame c t] assms
    by (cases "opval (op pop) = OpRETURN") (auto simp: op_exec_at opcodeReturn_def Let_def split: if_splits)
qed

lemma op_exec_value:
  assumes "op_exec c pop t = Inr t'"
  shows "frame t t'" "\<not> IsConditional pop \<Longrightarrow> opval (op pop) \<noteq> OpRETURN \<Longrightarrow> plain t t'"
proof -
  have ret: "frame t t'" if "opval (op pop) = OpRETURN"
    using that assms frame_cond(4) [of t True]
    by (auto simp: op_exec_at opcodeReturn_def Let_def split: if_splits)
  show pl: "plain t t'" if "\<not> IsConditional pop" "opval (op pop) \<noteq> OpRETURN"
    using op_exec_plain [OF that, of tame c t] assms by simp
  show "frame t t'"
    using op_exec_conditional [of pop t c] assms ret pl [THEN plain_frame] by fastforce
qed

interpretation table: dispatch "op_exec c" for c :: "('pk, 'sg) crypto"
  using op_exec_value op_exec_success by unfold_locales blast+


lemma frame_numOps:
  assumes "frame (t\<lparr>numOps := k\<rparr>) t'" "numOps t \<le> k" "k = numOps t \<or> k \<le> MaxOps (cfg t)"
  shows "frame t t'"
  using assms by (auto simp: plain_defs)

text \<open>The three outcomes of \<open>executeOpcode\<close>: the opcode is refused, or skipped, or handed to its handler. It counts as an
  operation first.\<close>

definition counted :: "ParsedOpcode \<Rightarrow> thread \<Rightarrow> thread" where
  "counted pop t = (if opval (op pop) > Op16 then t\<lparr>numOps := numOps t + 1\<rparr> else t)"

definition hidden :: "ParsedOpcode \<Rightarrow> thread \<Rightarrow> bool" where
  "hidden pop t = (\<not> IsConditional pop \<and> \<not> (isBranchExecuting t \<and> shouldExec t pop))"

lemma counted_sel [simp]:
  "condStack (counted pop t) = condStack t" "elseStack (counted pop t) = elseStack t" "cfg (counted pop t) = cfg t"
  "afterGenesis (counted pop t) = afterGenesis t" "dstack (counted pop t) = dstack t" "scripts (counted pop t) = scripts t"
  "earlyReturnAfterGenesis (counted pop t) = earlyReturnAfterGenesis t" "scriptOff (counted pop t) = scriptOff t"
  "isBranchExecuting (counted pop t) = isBranchExecuting t" "shouldExec (counted pop t) pop' = shouldExec t pop'"
  "scriptIdx (counted pop t) = scriptIdx t" "bip16 (counted pop t) = bip16 t" "astack (counted pop t) = astack t"
  "lastCodeSep (counted pop t) = lastCodeSep t" "savedFirstStack (counted pop t) = savedFirstStack t"
  by (simp_all add: counted_def isBranchExecuting_def shouldExec_def)

lemma enforce_fails: "enforceMinimumDataPush pop = Inl e \<Longrightarrow> \<exists>code. e = Fail code"
  by (auto simp: enforceMinimumDataPush_def Let_def split: if_splits)

lemma executeOpcode_cases:
  obtains (refused) e where "executeOpcode c pop t = Inl (Fail e)"
  | (skipped) "numOps (counted pop t) = numOps t \<or> numOps (counted pop t) \<le> MaxOps (cfg t)" "hidden pop t"
      "executeOpcode c pop t = Inr (counted pop t)"
  | (handled) "numOps (counted pop t) = numOps t \<or> numOps (counted pop t) \<le> MaxOps (cfg t)" "\<not> hidden pop t"
      "executeOpcode c pop t = op_exec c pop (counted pop t)"
proof -
  let ?min = "if verifyMinimalData (dstack (counted pop t)) \<and> isBranchExecuting (counted pop t)
      \<and> opval (op pop) \<le> OpPUSHDATA4 \<and> shouldExec t pop
    then (enforceMinimumDataPush pop :: thread fault + unit) else Inr ()"
  have eq: "(\<exists>e. executeOpcode c pop t = Inl (Fail e))
    \<or> (numOps (counted pop t) = numOps t \<or> numOps (counted pop t) \<le> MaxOps (cfg t)) \<and> executeOpcode c pop t =
      (if \<not> isBranchExecuting (counted pop t) \<and> \<not> IsConditional pop then Inr (counted pop t)
       else rbind ?min (\<lambda>_. if \<not> shouldExec t pop \<and> \<not> IsConditional pop then Inr (counted pop t)
          else op_exec c pop (counted pop t)))"
    unfolding executeOpcode_def Let_def counted_def [symmetric]
    by (auto simp: counted_def)
  show thesis
  proof (cases "?min")
    case (Inl e)
    then obtain code where "e = Fail code" using enforce_fails by (metis Inr_not_Inl)
    then show thesis
      using eq Inl that by (auto simp: hidden_def split: if_splits)
  next
    case (Inr u)
    then show thesis
      using eq that by (auto simp: hidden_def split: if_splits)
  qed
qed

locale guarded = dispatch exec for exec :: "ParsedOpcode \<Rightarrow> thread \<Rightarrow> outcome" +
  fixes run :: "ParsedOpcode \<Rightarrow> thread \<Rightarrow> outcome"
  assumes guard: "(\<exists>e. run pop t = Inl (Fail e))
    \<or> (numOps (counted pop t) = numOps t \<or> numOps (counted pop t) \<le> MaxOps (cfg t))
      \<and> (run pop t = Inr (counted pop t) \<or> run pop t = exec pop (counted pop t))"
begin

lemma run_frame:
  assumes "run pop t = Inr t'"
  shows "frame t t'"
proof -
  have "frame (counted pop t) t'"
    using guard [of pop t] assms exec_frame frame_cond(5) by fastforce
  then show ?thesis
    using guard [of pop t] assms by (auto simp: counted_def intro: frame_numOps split: if_splits)
qed

lemma run_success:
  assumes "run pop t = Inl (Success t')"
  shows "afterGenesis t \<and> condStack t = [] \<and> t' = (counted pop t)\<lparr>earlyReturnAfterGenesis := True\<rparr>"
proof -
  have "exec pop (counted pop t) = Inl (Success t')" using guard [of pop t] assms by auto
  from exec_success [OF this] show ?thesis by simp
qed

end

interpretation checked: guarded "op_exec c" "executeOpcode c" for c :: "('pk, 'sg) crypto"
proof
  fix pop t
  show "(\<exists>e. executeOpcode c pop t = Inl (Fail e))
    \<or> (numOps (counted pop t) = numOps t \<or> numOps (counted pop t) \<le> MaxOps (cfg t))
      \<and> (executeOpcode c pop t = Inr (counted pop t) \<or> executeOpcode c pop t = op_exec c pop (counted pop t))"
    by (cases rule: executeOpcode_cases [of c pop t]) auto
qed


subsection \<open>One step\<close>

text \<open>The thread between two scripts: \<open>bip16_shift\<close> is the pay-to-script-hash part of \<open>next_script\<close>.\<close>

definition drop_alt :: "thread \<Rightarrow> thread" where
  "drop_alt t = (case (DropN (astack t) (Depth (astack t)) :: thread fault + stack) of
     Inl _ \<Rightarrow> t | Inr s \<Rightarrow> t\<lparr>astack := s\<rparr>)"

definition bip16_shift :: "thread \<Rightarrow> outcome" where
  "bip16_shift t =
     (if bip16 t \<and> \<not> afterGenesis t \<and> scriptIdx t \<le> 2 then
        if scriptIdx t = 1 then Inr (t\<lparr>savedFirstStack := GetStack t\<rparr>)
        else if scriptIdx t = 2 then
          rbind (CheckErrorCondition False t) (\<lambda>t.
            if savedFirstStack t = [] then Inl Panic
            else rbind (Parse (errorOnCheckSig t) (last (savedFirstStack t))) (\<lambda>pops.
              Inr (SetStack (t\<lparr>scripts := scripts t @ [pops]\<rparr>) (butlast (savedFirstStack t)))))
        else Inr t
      else Inr t)"

definition skip_empty :: "thread \<Rightarrow> thread" where
  "skip_empty t = (if scriptIdx t < length (scripts t) \<and> scriptOff t \<ge> length (scripts t ! scriptIdx t)
     then t\<lparr>scriptIdx := scriptIdx t + 1, lastCodeSep := 0\<rparr> else t\<lparr>lastCodeSep := 0\<rparr>)"

lemma next_script_eq:
  "next_script t = rbind (bip16_shift (shiftScript (drop_alt t))) (\<lambda>t.
     Inr (scriptIdx (skip_empty t) \<ge> length (scripts (skip_empty t)), skip_empty t))"
  unfolding next_script_def bip16_shift_def drop_alt_def skip_empty_def Let_def
  by (rule arg_cong2 [where f = rbind]) (auto simp: fun_eq_iff)

lemma Step_cases [consumes 1]:
  assumes "Step c t = Inr (d, t')"
  obtains (returned) t1 where
      "executeOpcode c (scripts t ! scriptIdx t ! scriptOff t) t = Inl (Success t1)" "t' = shiftScript t1"
      "d \<longleftrightarrow> scriptIdx t' \<ge> length (scripts t')"
  | (next_op) t1 where
      "executeOpcode c (scripts t ! scriptIdx t ! scriptOff t) t = Inr t1" "frame t t1"
      "t' = t1\<lparr>scriptOff := scriptOff t1 + 1\<rparr>" "scriptOff t + 1 < length (scripts t ! scriptIdx t)" "\<not> d"
      "i32 (Depth (dstack t1) + Depth (astack t1)) \<le> i32 (MaxStackSize (cfg t1))"
  | (end_script) t1 t2 where
      "executeOpcode c (scripts t ! scriptIdx t ! scriptOff t) t = Inr t1" "frame t t1" "condStack t1 = []"
      "bip16_shift (shiftScript (drop_alt (t1\<lparr>scriptOff := scriptOff t1 + 1\<rparr>))) = Inr t2" "t' = skip_empty t2"
      "d \<longleftrightarrow> scriptIdx t' \<ge> length (scripts t')"
      "i32 (Depth (dstack t1) + Depth (astack t1)) \<le> i32 (MaxStackSize (cfg t1))"
proof -
  from assms have ok: "scriptIdx t < length (scripts t)" "scriptOff t < length (scripts t ! scriptIdx t)"
    by (auto simp: Step_def validPC_def res_simps split: if_splits)
  consider t1 where "executeOpcode c (scripts t ! scriptIdx t ! scriptOff t) t = Inl (Success t1)"
    | t1 where "executeOpcode c (scripts t ! scriptIdx t ! scriptOff t) t = Inr t1"
    using assms by (auto simp: Step_def res_simps split: sum.splits fault.splits)
  then show thesis
  proof cases
    case 1
    then show thesis using assms that(1) [OF 1] by (auto simp: Step_def res_simps Let_def)
  next
    case (2 t1)
    note f = checked.run_frame [OF 2]
    then show thesis
      using assms 2 that(2) [OF 2 f] that(3) [OF 2 f]
      by (auto simp: Step_def res_simps Let_def next_script_eq plain_defs linorder_not_less split: if_splits)
  qed
qed


text \<open>What the change of script keeps: the settings of the thread, and the scripts but for the one it may append.\<close>

definition settings :: "thread \<Rightarrow> (config \<times> bool) \<times> (Transaction option \<times> int \<times> TransactionOutput option)
    \<times> (u32 \<times> bool \<times> bool \<times> bool)" where
  "settings t = ((cfg t, errorOnCheckSig t), (thTx t, inputIdx t, prevOutput t),
     (thFlags t, bip16 t, afterGenesis t, afterChronicle t))"

lemma settings_frame: "frame t t' \<Longrightarrow> settings t' = settings t"
  by (simp add: frame_def pinned_def settings_def)

lemma shift_keeps [simp]:
  "settings (shiftScript t) = settings t" "settings (drop_alt t) = settings t" "settings (skip_empty t) = settings t"
  "settings (t\<lparr>scriptOff := k\<rparr>) = settings t"
  "scripts (shiftScript t) = scripts t" "scripts (drop_alt t) = scripts t" "scripts (skip_empty t) = scripts t"
  "scriptIdx (shiftScript t) = scriptIdx t + 1" "scriptIdx (drop_alt t) = scriptIdx t"
  "scriptOff (shiftScript t) = 0" "scriptOff (skip_empty t) = scriptOff t"
  "scriptIdx t \<le> scriptIdx (skip_empty t)"
  by (auto simp: shiftScript_def drop_alt_def skip_empty_def settings_def split: sum.split)

lemma bip16_shift_keeps:
  assumes "bip16_shift t = Inr t'"
  shows "settings t' = settings t" "scriptIdx t' = scriptIdx t" "scriptOff t' = scriptOff t"
    "scripts t' = scripts t \<or> (bip16 t \<and> \<not> afterGenesis t \<and> scriptIdx t = 2 \<and> (\<exists>s. scripts t' = scripts t @ [s]))"
  using assms
  by (auto simp: bip16_shift_def res_simps CheckErrorCondition_def SetStack_def settings_def split: if_splits)

subsection \<open>The loop ends\<close>

definition rank :: "(thread \<times> thread) set" where
  "rank = measures [\<lambda>t. length (scripts t) + (if bip16 t \<and> \<not> afterGenesis t \<and> scriptIdx t < 2 then 1 else 0) - scriptIdx t,
     \<lambda>t. length (scripts t ! scriptIdx t) - scriptOff t]"

lemma Step_decreases:
  assumes "Step c t = Inr (False, t')"
  shows "(t', t) \<in> rank"
  using assms
proof (cases rule: Step_cases)
  case (returned t1)
  then show ?thesis
    using checked.run_success [OF returned(1)] by (auto simp: rank_def shiftScript_def)
next
  case (next_op t1)
  then show ?thesis by (auto simp: rank_def plain_defs)
next
  case (end_script t1 t2)
  note kept = bip16_shift_keeps [OF end_script(4)]
  have t1: "scripts t1 = scripts t" "scriptIdx t1 = scriptIdx t" "bip16 t1 = bip16 t" "afterGenesis t1 = afterGenesis t"
    using end_script(2) by (simp_all add: frame_def pinned_def)
  have idx: "scriptIdx t2 = scriptIdx t + 1" "scriptIdx t2 \<le> scriptIdx t'" "scripts t' = scripts t2"
    using kept(2) end_script(5) t1 shift_keeps(12) [of t2] by simp_all
  have "settings t' = settings t"
    using kept(1) end_script(5) settings_frame [OF end_script(2)] by simp
  then have set': "bip16 t' = bip16 t" "afterGenesis t' = afterGenesis t" by (simp_all add: settings_def)
  have "scripts t2 = scripts t \<or> (bip16 t \<and> \<not> afterGenesis t \<and> scriptIdx t2 = 2 \<and> (\<exists>s. scripts t2 = scripts t @ [s]))"
    using kept(4) t1 by (simp add: shiftScript_def drop_alt_def idx split: sum.splits)
  then show ?thesis
    using end_script(6) idx set' by (auto simp: rank_def)
qed

locale step_loop =
  fixes step :: "'s \<Rightarrow> 'e + bool \<times> 's" and loop :: "'s \<Rightarrow> ('e + 's) option" and R :: "('s \<times> 's) set"
  assumes loop_eq: "loop s = (case step s of Inl e \<Rightarrow> Some (Inl e)
      | Inr (d, s') \<Rightarrow> if d then Some (Inr s') else loop s')"
    and wf: "wf R"
    and decreases: "step s = Inr (False, s') \<Longrightarrow> (s', s) \<in> R"
begin

lemma induct_steps: "(\<And>s. (\<And>s'. step s = Inr (False, s') \<Longrightarrow> P s') \<Longrightarrow> P s) \<Longrightarrow> P s"
  using wf by (induction s rule: wf_induct_rule) (blast intro: decreases)

lemma returns: "\<exists>r. loop s = Some r"
proof (induction s rule: induct_steps)
  case (1 s)
  then show ?case by (subst loop_eq) (auto split: sum.split)
qed

lemma ends_in_step:
  assumes "loop s = Some r" "I s" "\<And>s d s'. I s \<Longrightarrow> step s = Inr (d, s') \<Longrightarrow> I s'"
  shows "case r of Inr s' \<Rightarrow> I s' \<and> (\<exists>s0. I s0 \<and> step s0 = Inr (True, s')) | Inl e \<Rightarrow> \<exists>s0. I s0 \<and> step s0 = Inl e"
  using assms(1,2)
proof (induction s rule: induct_steps)
  case (1 s)
  show ?case
    using "1.prems" "1.IH" assms(3) [OF "1.prems"(2)] loop_eq [of s]
    by (auto split: sum.splits if_splits)
qed

end

interpretation engine: step_loop "Step c" "run_steps c" rank for c :: "('pk, 'sg) crypto"
proof
  show "run_steps c s = (case Step c s of Inl e \<Rightarrow> Some (Inl e)
      | Inr (d, s') \<Rightarrow> if d then Some (Inr s') else run_steps c s')" for s
    by (subst run_steps.simps) (rule refl)
  show "wf rank" by (simp add: rank_def)
qed (rule Step_decreases)

end
