(* ===== verification/Engine_Inv.thy ===== *)
theory Engine_Inv
  imports Engine_Laws
begin

text \<open>
  The reachable states of the engine and their invariants. \<open>reachable c o'\<close> holds of the threads that \<open>Step\<close>
  produces from the one that \<open>createThread\<close> builds from the options \<open>o'\<close>. The invariants are proved by rule
  induction, case by case over \<open>Step_cases\<close>.
\<close>

inductive reachable :: "('pk, 'sg) crypto \<Rightarrow> execOpts \<Rightarrow> thread \<Rightarrow> bool" for c o' where
  start: "createThread o' = Inr t \<Longrightarrow> reachable c o' t"
| step: "reachable c o' t \<Longrightarrow> Step c t = Inr (d, t') \<Longrightarrow> reachable c o' t'"

inductive_cases reachableE: "reachable c o' t"

subsection \<open>The thread that is created\<close>

lemma Parse_nonempty:
  assumes "Parse e scr = (Inr pops :: 's fault + _)"
  shows "pops = [] \<longleftrightarrow> scr = []"
proof -
  have p: "parse_ops e scr 0 0 [] = (Inr pops :: 's fault + _)"
    using assms by (auto simp: Parse_def res_simps)
  have "unparse_loop pops [] = (Inr scr :: 's fault + _)"
    using parse_ops_unparse [OF p, where 's = 's] by simp
  then show ?thesis
    using p by (auto simp: parse_ops_end)
qed

definition fresh :: "thread \<Rightarrow> bool" where
  "fresh t = (stk (dstack t) = [] \<and> stk (astack t) = [] \<and> condStack t = [] \<and> savedFirstStack t = []
     \<and> scriptOff t = 0 \<and> lastCodeSep t = 0 \<and> numOps t = 0 \<and> \<not> earlyReturnAfterGenesis t)"

text \<open>The settings agree: the limits follow the configuration, and the configuration the flags.\<close>

definition agrees :: "thread \<Rightarrow> bool" where
  "agrees t = (afterGenesis t = cfg_AfterGenesis (cfg t) \<and> afterChronicle t = cfg_AfterChronicle (cfg t)
     \<and> (afterGenesis t \<longleftrightarrow> hasFlag t UTXOAfterGenesis) \<and> (afterChronicle t \<longleftrightarrow> hasFlag t UTXOAfterChronicle)
     \<and> lim (dstack t) = lim (newStack (cfg t) (hasFlag t VerifyMinimalData))
     \<and> lim (astack t) = lim (newStack (cfg t) (hasFlag t VerifyMinimalData)))"

lemma set_source_keeps: "set_source t = Inr t' \<Longrightarrow> \<exists>tx. t' = t\<lparr>thTx := tx\<rparr>"
  by (auto simp: set_source_def Let_def split: option.splits intro: exI [of _ "thTx t"])

lemma apply_flags_fresh:
  assumes "apply_flags o' (zero_thread e) = Inr t"
  shows "t = (zero_thread e)\<lparr>thTx := optTx o', thFlags := thFlags t, inputIdx := optInputIdx o', prevOutput := previousTxOut o',
      elseStack := (if afterGenesis t then BoolStack zero_stack else NopBoolStack),
      afterGenesis := hasFlag t UTXOAfterGenesis, afterChronicle := hasFlag t UTXOAfterChronicle,
      cfg := (if hasFlag t UTXOAfterChronicle then AfterChronicleConfig
              else if hasFlag t UTXOAfterGenesis then AfterGenesisConfig else BeforeGenesisConfig)\<rparr>"
    "hasFlag t UTXOAfterChronicle \<longrightarrow> hasFlag t UTXOAfterGenesis"
  using assms
  by (auto simp: apply_flags_def zero_thread_def hasFlag_def addFlag_def Let_def split: if_splits)


text \<open>The thread that \<open>apply_opts\<close> hands to \<open>set_source\<close>.\<close>

definition built :: "thread \<Rightarrow> bytes \<Rightarrow> bytes \<Rightarrow> ParsedScript \<Rightarrow> ParsedScript \<Rightarrow> thread" where
  "built t u l us ls = t\<lparr>scripts := [us, ls], scriptIdx := (if u = [] then scriptIdx t + 1 else scriptIdx t),
     bip16 := (bip16 t \<or> hasFlag t Bip16 \<and> IsP2SH l),
     dstack := newStack (cfg t) (hasFlag t VerifyMinimalData),
     astack := newStack (cfg t) (hasFlag t VerifyMinimalData)\<rparr>"

lemma hasFlag_upd [simp]:
  "hasFlag (t\<lparr>scripts := a\<rparr>) f = hasFlag t f" "hasFlag (t\<lparr>scriptIdx := b\<rparr>) f = hasFlag t f"
  "hasFlag (t\<lparr>bip16 := d\<rparr>) f = hasFlag t f"
  by (simp_all add: hasFlag_def)

lemma apply_opts_built:
  assumes "apply_opts o' z = Inr t"
  obtains tf u l us ls where "apply_flags o' z = Inr tf" "u \<noteq> [] \<or> l \<noteq> []"
    "(Parse (errorOnCheckSig tf) u :: thread fault + _) = Inr us" "(Parse (errorOnCheckSig tf) l :: thread fault + _) = Inr ls"
    "hasFlag tf Bip16 \<and> IsP2SH l \<longrightarrow> IsPushOnly us" "set_source (built tf u l us ls) = Inr t"
    "int (length u) \<le> MaxScriptSize (cfg tf)" "int (length l) \<le> MaxScriptSize (cfg tf)"
    "(opts_unlocking o' :: thread fault + _) = Inr u" "(opts_locking o' :: thread fault + _) = Inr l"
proof -
  obtain u l tf where ul: "(opts_unlocking o' :: thread fault + _) = Inr u" "(opts_locking o' :: thread fault + _) = Inr l"
    and tf: "apply_flags o' z = Inr tf"
    using assms by (auto simp: apply_opts_def rbind_eq_Inr)
  note rest = assms [unfolded apply_opts_def ul tf rbind_Inr]
  then have ne: "\<not> (u = [] \<and> l = [])" and sz: "int (length u) \<le> MaxScriptSize (cfg tf)" "int (length l) \<le> MaxScriptSize (cfg tf)"
    by (auto simp: rbind_eq_Inr split: if_splits)
  obtain us ls where parsed: "(Parse (errorOnCheckSig tf) u :: thread fault + _) = Inr us"
      "(Parse (errorOnCheckSig tf) l :: thread fault + _) = Inr ls"
    using rest by (auto simp: rbind_eq_Inr split: if_splits)
  have "set_source (built tf u l us ls) = Inr t \<and> (hasFlag tf Bip16 \<and> IsP2SH l \<longrightarrow> IsPushOnly us)"
    using rest ne sz parsed by (auto simp: rbind_eq_Inr built_def Let_def split: if_splits)
  then show thesis using that [OF tf _ parsed _ _ sz ul] ne by blast
qed


lemma createThread_fresh:
  assumes "createThread o' = Inr t"
  shows "fresh t" "agrees t" "length (scripts t) = 2" "scriptIdx t \<le> 1" "scripts t ! scriptIdx t \<noteq> []"
    "elseStack t = (if afterGenesis t then BoolStack zero_stack else NopBoolStack)"
    "bip16 t \<Longrightarrow> IsPushOnly (scripts t ! 0)
       \<and> (\<exists>l. IsP2SH l \<and> Parse (errorOnCheckSig t) l = (Inr (scripts t ! 1) :: thread fault + _))"
proof -
  let ?z = "zero_thread (optTx o' = None \<or> previousTxOut o' = None)"
  obtain tf u l us ls where tf: "apply_flags o' ?z = Inr tf" and ne: "u \<noteq> [] \<or> l \<noteq> []"
    and us: "(Parse (errorOnCheckSig tf) u :: thread fault + _) = Inr us"
    and ls: "(Parse (errorOnCheckSig tf) l :: thread fault + _) = Inr ls"
    and push: "hasFlag tf Bip16 \<and> IsP2SH l \<longrightarrow> IsPushOnly us" and src: "set_source (built tf u l us ls) = Inr t"
    using assms unfolding createThread_def by (rule apply_opts_built)
  obtain tx where t: "t = (built tf u l us ls)\<lparr>thTx := tx\<rparr>" using set_source_keeps [OF src] by auto
  note f = apply_flags_fresh [OF tf]
  have z: "scriptIdx tf = 0" "condStack tf = []" "savedFirstStack tf = []" "scriptOff tf = 0" "lastCodeSep tf = 0"
    "numOps tf = 0" "\<not> earlyReturnAfterGenesis tf" "bip16 tf = False"
    "elseStack tf = (if afterGenesis tf then BoolStack zero_stack else NopBoolStack)"
    by (subst f(1), simp add: zero_thread_def)+
  have g: "afterGenesis tf = hasFlag tf UTXOAfterGenesis" "afterChronicle tf = hasFlag tf UTXOAfterChronicle"
    "cfg tf = (if hasFlag tf UTXOAfterChronicle then AfterChronicleConfig
              else if hasFlag tf UTXOAfterGenesis then AfterGenesisConfig else BeforeGenesisConfig)"
    by (subst f(1), simp)+
  show "fresh t" using z by (simp add: t built_def fresh_def newStack_def)
  show "agrees t" using g f(2) by (simp add: t built_def agrees_def hasFlag_def config_defs)
  show "length (scripts t) = 2" "scriptIdx t \<le> 1" using z by (simp_all add: t built_def)
  show "scripts t ! scriptIdx t \<noteq> []"
    using ne z Parse_nonempty [OF us] Parse_nonempty [OF ls] by (simp add: t built_def)
  show "elseStack t = (if afterGenesis t then BoolStack zero_stack else NopBoolStack)" using z by (simp add: t built_def)
  show "IsPushOnly (scripts t ! 0)
       \<and> (\<exists>l. IsP2SH l \<and> Parse (errorOnCheckSig t) l = (Inr (scripts t ! 1) :: thread fault + _))" if "bip16 t"
    using that z push ls by (auto simp: t built_def)
qed


subsection \<open>What a step keeps\<close>

lemma drop_alt_within:
  "dstack (drop_alt t) = dstack t" "within 0 (astack t) (astack (drop_alt t))"
  "savedFirstStack (drop_alt t) = savedFirstStack t" "condStack (drop_alt t) = condStack t"
proof -
  have "wp tame (within 0 (astack t)) (DropN (astack t) (Depth (astack t)) :: thread fault + _)"
    unfolding DropN_def by (auto intro!: wp_drop_loop wp_if)
  then show "dstack (drop_alt t) = dstack t" "within 0 (astack t) (astack (drop_alt t))"
    "savedFirstStack (drop_alt t) = savedFirstStack t" "condStack (drop_alt t) = condStack t"
    by (auto simp: drop_alt_def split: sum.split)
qed

lemma drop_alt_empties:
  assumes "length (stk (astack t)) < 2 ^ 31"
  shows "stk (astack (drop_alt t)) = []"
  using assms drop_loop_all [of "astack t", where ?'a = thread]
  by (cases "stk (astack t) = []") (auto simp: drop_alt_def DropN_def Suc_le_eq)

lemma lim_setStack [simp]: "lim (setStack s xs) = lim s"
proof -
  have "wp tame (within 0 s) (DropN s (Depth s) :: unit fault + _)"
    unfolding DropN_def by (auto intro!: wp_drop_loop wp_if)
  then show ?thesis
    by (auto simp: setStack_def foldl_PushByteArray within_def split: sum.split)
qed

lemma CheckErrorCondition_within:
  assumes "CheckErrorCondition final t = Inr t'"
  shows "t' = t\<lparr>dstack := dstack t'\<rparr>" "within 0 (dstack t) (dstack t')"
proof -
  have "wp tame (\<lambda>t'. t' = t\<lparr>dstack := dstack t'\<rparr> \<and> within 0 (dstack t) (dstack t')) (CheckErrorCondition final t)"
    unfolding CheckErrorCondition_def by (auto intro!: wp_rules)
  then show "t' = t\<lparr>dstack := dstack t'\<rparr>" "within 0 (dstack t) (dstack t')" using assms by auto
qed

lemma skip_empty_sel [simp]:
  "dstack (skip_empty t) = dstack t" "astack (skip_empty t) = astack t" "condStack (skip_empty t) = condStack t"
  "elseStack (skip_empty t) = elseStack t" "savedFirstStack (skip_empty t) = savedFirstStack t"
  "numOps (skip_empty t) = numOps t" "lastCodeSep (skip_empty t) = 0"
  "earlyReturnAfterGenesis (skip_empty t) = earlyReturnAfterGenesis t"
  by (simp_all add: skip_empty_def)

text \<open>The three results of the pay-to-script-hash part.\<close>

lemma bip16_shift_cases [consumes 1]:
  assumes "bip16_shift t = Inr t'"
  obtains (none) "t' = t" "\<not> (bip16 t \<and> \<not> afterGenesis t \<and> (scriptIdx t = 1 \<or> scriptIdx t = 2))"
  | (saved) "bip16 t" "\<not> afterGenesis t" "scriptIdx t = 1" "t' = t\<lparr>savedFirstStack := getStack (dstack t)\<rparr>"
  | (redeem) pops s where "bip16 t" "\<not> afterGenesis t" "scriptIdx t = 2" "savedFirstStack t \<noteq> []"
      "(Parse (errorOnCheckSig t) (last (savedFirstStack t)) :: thread fault + _) = Inr pops" "within 0 (dstack t) s"
      "t' = t\<lparr>scripts := scripts t @ [pops], dstack := setStack s (butlast (savedFirstStack t))\<rparr>"
proof (cases "bip16 t \<and> \<not> afterGenesis t \<and> scriptIdx t = 2")
  case True
  then obtain t1 pops where t1: "CheckErrorCondition False t = Inr t1" and ne: "savedFirstStack t1 \<noteq> []"
    and p: "(Parse (errorOnCheckSig t1) (last (savedFirstStack t1)) :: thread fault + _) = Inr pops"
    and t': "t' = SetStack (t1\<lparr>scripts := scripts t1 @ [pops]\<rparr>) (butlast (savedFirstStack t1))"
    using assms by (auto simp: bip16_shift_def res_simps split: if_splits)
  note k = CheckErrorCondition_within [OF t1]
  have sv: "savedFirstStack t1 = savedFirstStack t" "errorOnCheckSig t1 = errorOnCheckSig t" by (subst k(1), simp)+
  have eq: "t' = t\<lparr>scripts := scripts t @ [pops], dstack := setStack (dstack t1) (butlast (savedFirstStack t1))\<rparr>"
    unfolding t' SetStack_def by (subst k(1), subst k(1)) simp
  show thesis
    by (rule redeem [OF _ _ _ _ _ k(2)]) (use True ne p eq in \<open>simp_all only: sv not_False_eq_True\<close>)
next
  case False
  show thesis
  proof (cases "bip16 t \<and> \<not> afterGenesis t \<and> scriptIdx t = 1")
    case True
    then have "t' = t\<lparr>savedFirstStack := getStack (dstack t)\<rparr>" using assms by (simp add: bip16_shift_def GetStack_def)
    then show thesis using True saved by blast
  next
    case not_saved: False
    then have "t' = t" using assms False by (auto simp: bip16_shift_def split: if_splits)
    then show thesis using False not_saved none by blast
  qed
qed

lemma Step_keeps:
  assumes "Step c t = Inr (d, t')"
  shows "settings t' = settings t \<and> lim (dstack t') = lim (dstack t) \<and> lim (astack t') = lim (astack t)"
  using assms
proof (cases rule: Step_cases)
  case (returned t1)
  then show ?thesis
    using checked.run_success [OF returned(1)] by (auto simp: shiftScript_def settings_def counted_def)
next
  case (next_op t1)
  then show ?thesis using settings_frame [of t t1] by (simp add: frame_def)
next
  case (end_script t1 t2)
  let ?t = "drop_alt (t1\<lparr>scriptOff := scriptOff t1 + 1\<rparr>)"
  have "settings t2 = settings t" using bip16_shift_keeps(1) [OF end_script(4)] settings_frame [OF end_script(2)] by simp
  moreover have "lim (dstack t2) = lim (dstack t) \<and> lim (astack t2) = lim (astack t)"
    using end_script(4)
  proof (cases rule: bip16_shift_cases)
  qed (use end_script(2) drop_alt_within [of "t1\<lparr>scriptOff := scriptOff t1 + 1\<rparr>"] in
      \<open>auto simp: shiftScript_def within_def frame_def\<close>)
  ultimately show ?thesis using end_script(5) by simp
qed


lemma reachable_settings:
  assumes "reachable c o' t"
  shows "agrees t" "\<exists>t0. createThread o' = Inr t0 \<and> settings t = settings t0"
proof -
  have "agrees t \<and> (\<exists>t0. createThread o' = Inr t0 \<and> settings t = settings t0)"
    using assms
  proof (induction rule: reachable.induct)
    case (start t)
    then show ?case using createThread_fresh(2) by blast
  next
    case (step t d t')
    have "agrees t' = agrees t"
      using Step_keeps [OF step(2)] by (auto simp: agrees_def settings_def hasFlag_def)
    then show ?case using step Step_keeps by metis
  qed
  then show "agrees t" "\<exists>t0. createThread o' = Inr t0 \<and> settings t = settings t0" by auto
qed

subsection \<open>Limits before genesis\<close>

definition within_limits :: "thread \<Rightarrow> bool" where
  "within_limits t = (cfg t = BeforeGenesisConfig \<longrightarrow>
     int (stack_total t) \<le> MaxStackSizeBeforeGenesis \<and> 0 \<le> numOps t \<and> numOps t \<le> MaxOpsBeforeGenesis
     \<and> int (length (savedFirstStack t)) \<le> MaxStackSizeBeforeGenesis)"

lemma combined_size:
  assumes "int (stack_total t) \<le> 1003" "i32 (Depth (dstack t) + Depth (astack t)) \<le> i32 1000"
  shows "int (stack_total t) \<le> 1000"
proof -
  have "Depth (dstack t) = int (length (stk (dstack t)))" "Depth (astack t) = int (length (stk (astack t)))"
    using assms(1) by (auto simp: stack_total_def)
  then show ?thesis
    using assms i32_id [of "int (stack_total t)"] i32_id [of 1000] by (simp add: stack_total_def)
qed

lemma Step_within_limits:
  assumes "Step c t = Inr (d, t')" "within_limits t"
  shows "within_limits t'"
  unfolding within_limits_def
proof
  assume "cfg t' = BeforeGenesisConfig"
  then have cfg: "cfg t = BeforeGenesisConfig" using Step_keeps [OF assms(1)] by (simp add: settings_def)
  then have lim: "int (stack_total t) \<le> 1000" "0 \<le> numOps t" "numOps t \<le> 500" "int (length (savedFirstStack t)) \<le> 1000"
    using assms(2) by (simp_all add: within_limits_def)
  have f: "int (stack_total t1) \<le> 1000 \<and> 0 \<le> numOps t1 \<and> numOps t1 \<le> 500 \<and> savedFirstStack t1 = savedFirstStack t"
    if "frame t t1" "i32 (Depth (dstack t1) + Depth (astack t1)) \<le> i32 (MaxStackSize (cfg t1))" for t1
    using that lim combined_size [of t1] by (auto simp: frame_def pinned_def cfg MaxStackSize_def MaxOps_def)
  show "int (stack_total t') \<le> MaxStackSizeBeforeGenesis \<and> 0 \<le> numOps t' \<and> numOps t' \<le> MaxOpsBeforeGenesis
     \<and> int (length (savedFirstStack t')) \<le> MaxStackSizeBeforeGenesis"
    using assms(1)
  proof (cases rule: Step_cases)
    case (returned t1)
    then show ?thesis
      using lim checked.run_success [OF returned(1)] by (auto simp: shiftScript_def stack_total_def)
  next
    case (next_op t1)
    then show ?thesis using f [of t1] lim by (simp add: stack_total_def)
  next
    case (end_script t1 t2)
    let ?t = "drop_alt (t1\<lparr>scriptOff := scriptOff t1 + 1\<rparr>)"
    have t: "int (stack_total ?t) \<le> 1000" "savedFirstStack ?t = savedFirstStack t" "stk (astack ?t) = []"
      using f [OF end_script(2,7)] drop_alt_within [of "t1\<lparr>scriptOff := scriptOff t1 + 1\<rparr>"]
        drop_alt_empties [of "t1\<lparr>scriptOff := scriptOff t1 + 1\<rparr>"]
      by (auto simp: stack_total_def within_def)
    show ?thesis
      using end_script(4)
    proof (cases rule: bip16_shift_cases)
    qed (use t lim end_script(5) in \<open>auto simp: shiftScript_def stack_total_def within_def\<close>)
  qed
qed

end
