(* ===== verification/Engine_Safety.thy ===== *)
theory Engine_Safety
  imports Engine_Inv
begin

text \<open>
  Panics. Before genesis the engine never panics on a complete transaction: the last code separator lies in the running
  script, the saved stack of a pay-to-script-hash spend is not empty when the redeem script is taken from it, and the
  numbers of a script are too short to wrap. After genesis it does, and theorems below give the scripts.
\<close>

subsection \<open>The last code separator\<close>

definition sep_behind :: "thread \<Rightarrow> bool" where
  "sep_behind t = (\<not> afterGenesis t \<longrightarrow> lastCodeSep t \<le> scriptOff t)"

lemma Step_sep_behind:
  assumes "Step c t = Inr (d, t')" "sep_behind t"
  shows "sep_behind t'"
  using assms(1)
proof (cases rule: Step_cases)
  case (returned t1)
  then show ?thesis
    using checked.run_success [OF returned(1)] by (auto simp: shiftScript_def sep_behind_def)
next
  case (next_op t1)
  then show ?thesis using assms(2) by (auto simp: sep_behind_def frame_def pinned_def)
qed (simp add: sep_behind_def)

subsection \<open>Pay to script hash\<close>

text \<open>While the first script of a pay-to-script-hash spend runs, every opcode pushes one element. The second script has
  three opcodes and the first of them fails on an empty stack.\<close>

definition p2sh_shape :: "ParsedScript \<Rightarrow> bool" where
  "p2sh_shape ls = (length ls = 3 \<and> opval (op (ls ! 0)) = OpHASH160)"

lemma Parse_p2sh:
  assumes "IsP2SH l" "Parse e l = (Inr ls :: 's fault + _)"
  shows "p2sh_shape ls"
proof -
  have l: "length l = 23" "l ! 0 = OpHASH160" "l ! Suc 0 = OpDATA20" "l ! 22 = OpEQUAL"
    using assms(1) by (simp_all add: IsP2SH_def)
  have adv: "advancePosition l 0 (l ! 0) = (Inr 1 :: 's fault + _)" "advancePosition l 1 (l ! 1) = (Inr 22 :: 's fault + _)"
    "advancePosition l 22 (l ! 22) = (Inr 23 :: 's fault + _)"
    using l by (simp_all add: advancePosition_def opcode_length_def)
  have upd: "updateConditionalDepth (l ! i) 0 = (False, 0)" if "i = 0 \<or> i = 1 \<or> i = 22" for i
    using that l by (auto simp: updateConditionalDepth_def)
  have "parse_ops e l 0 0 [] = (Inr [parsed_at l 0, parsed_at l 1, parsed_at l 22] :: 's fault + _)"
    using l l [unfolded One_nat_def [symmetric]] upd [of 0] upd [of 1] upd [of 22] adv
    by (simp add: parse_ops_step [where d' = 0] parse_ops_end RequiresTx_def del: One_nat_def)
  then show ?thesis
    using assms(2) l by (auto simp: Parse_def res_simps p2sh_shape_def)
qed

definition p2sh_inv :: "thread \<Rightarrow> bool" where
  "p2sh_inv t = (bip16 t \<and> \<not> afterGenesis t \<longrightarrow>
     (scriptIdx t = 0 \<longrightarrow> condStack t = [] \<and> scriptOff t \<le> length (stk (dstack t)) \<and> IsPushOnly (scripts t ! 0))
     \<and> (scriptIdx t \<le> 1 \<longrightarrow> length (scripts t) = 2 \<and> p2sh_shape (scripts t ! 1))
     \<and> (scriptIdx t = 1 \<and> savedFirstStack t = [] \<longrightarrow> scriptOff t = 0 \<and> stk (dstack t) = [] \<and> condStack t = []))"

lemma IsPushOnly_nth: "IsPushOnly ps \<Longrightarrow> k < length ps \<Longrightarrow> opval (op (ps ! k)) \<le> Op16"
  by (induction ps arbitrary: k) (auto simp: nth_Cons linorder_not_less split: nat.splits if_splits)

text \<open>An executed push adds one element.\<close>

lemma op_exec_push:
  assumes "opval (op pop) \<le> Op16" "op_exec c pop t = Inr t'"
  shows "length (stk (dstack t')) = Suc (length (stk (dstack t)))" "condStack t' = condStack t"
proof -
  have n: "unat (opval (op pop)) < 0x61"
    using assms(1) by (simp add: word_le_nat_alt)
  have "op_exec c pop t = (opcodeExec_push c ! unat (opval (op pop))) pop t"
    using n by (simp add: op_exec_def opcodeExec_def nth_append)
  moreover have "opcodeExec_push c ! unat (opval (op pop)) \<in> set (opcodeExec_push c)" using n by simp
  ultimately show "length (stk (dstack t')) = Suc (length (stk (dstack t)))" "condStack t' = condStack t"
    using assms(2)
    by (auto simp: opcodeExec_push_def opcodeFalse_def opcodePushData_def opcode1Negate_def opcodeN_def opcodeReserved_def)
qed

lemma executeOpcode_push:
  assumes "opval (op pop) \<le> Op16" "\<not> afterGenesis t" "condStack t = []" "executeOpcode c pop t = Inr t'"
  shows "length (stk (dstack t')) = Suc (length (stk (dstack t)))" "condStack t' = []"
proof -
  have "\<not> hidden pop t" using assms(2,3) by (simp add: hidden_def isBranchExecuting_def shouldExec_def)
  then have "op_exec c pop (counted pop t) = Inr t'"
    using assms(4) by (cases rule: executeOpcode_cases [of c pop t]) auto
  from op_exec_push [OF assms(1) this] show "length (stk (dstack t')) = Suc (length (stk (dstack t)))" "condStack t' = []"
    using assms(3) by simp_all
qed

lemma executeOpcode_hash160_empty:
  assumes "opval (op pop) = OpHASH160" "\<not> afterGenesis t" "condStack t = []" "stk (dstack t) = []"
  shows "executeOpcode c pop t \<noteq> Inr t'"
proof
  assume *: "executeOpcode c pop t = Inr t'"
  have "\<not> hidden pop t" using assms(2,3) by (simp add: hidden_def isBranchExecuting_def shouldExec_def)
  then have "op_exec c pop (counted pop t) = Inr t'"
    using * by (cases rule: executeOpcode_cases [of c pop t]) auto
  moreover have "opcodeExec c ! 0xA9 = opcodeHash160 c"
    by (simp add: opcodeExec_def nth_append opcodeExec_ops_def)
  ultimately show False
    using assms by (simp add: op_exec_def opcodeHash160_def unary_bytes_def PopByteArray_eq)
qed


lemma createThread_p2sh: "createThread o' = Inr t \<Longrightarrow> p2sh_inv t"
proof -
  assume *: "createThread o' = Inr t"
  note f = createThread_fresh [OF *]
  show "p2sh_inv t"
    using f(1,3,7) Parse_p2sh by (fastforce simp: p2sh_inv_def fresh_def)
qed

lemma Step_p2sh_op:
  assumes "executeOpcode c (scripts t ! scriptIdx t ! scriptOff t) t = Inr t1" "frame t t1"
    and "bip16 t" "\<not> afterGenesis t" "p2sh_inv t" "scriptOff t < length (scripts t ! scriptIdx t)"
  shows "scriptIdx t = 0 \<Longrightarrow> condStack t1 = [] \<and> scriptOff t + 1 \<le> length (stk (dstack t1))"
    "\<not> (scriptIdx t = 1 \<and> savedFirstStack t = [])"
proof -
  show "condStack t1 = [] \<and> scriptOff t + 1 \<le> length (stk (dstack t1))" if "scriptIdx t = 0"
    using that assms executeOpcode_push [OF _ _ _ assms(1)] IsPushOnly_nth [of "scripts t ! 0" "scriptOff t"]
    by (auto simp: p2sh_inv_def)
  show "\<not> (scriptIdx t = 1 \<and> savedFirstStack t = [])"
    using assms executeOpcode_hash160_empty [of "scripts t ! 1 ! 0" t c t1] by (auto simp: p2sh_inv_def p2sh_shape_def)
qed

lemma Step_p2sh:
  assumes "Step c t = Inr (d, t')" "p2sh_inv t" "agrees t" "within_limits t"
  shows "p2sh_inv t'"
proof (cases "bip16 t \<and> \<not> afterGenesis t")
  case False
  then show ?thesis using Step_keeps [OF assms(1)] by (auto simp: p2sh_inv_def settings_def)
next
  case True
  then have cfg: "cfg t = BeforeGenesisConfig" using assms(3) by (cases "cfg t") (auto simp: agrees_def config_defs)
  have pc: "scriptOff t < length (scripts t ! scriptIdx t)"
    using assms(1) by (auto simp: Step_def validPC_def res_simps split: if_splits)
  show ?thesis
    using assms(1)
  proof (cases rule: Step_cases)
    case (returned t1)
    then show ?thesis using checked.run_success [OF returned(1)] True by simp
  next
    case (next_op t1)
    then show ?thesis
      using Step_p2sh_op [OF next_op(1,2) _ _ assms(2) pc] True assms(2)
      by (auto simp: p2sh_inv_def frame_def pinned_def)
  next
    case (end_script t1 t2)
    have "int (stack_total t1) \<le> 1003"
      using end_script(2) assms(4) cfg by (auto simp: frame_def within_limits_def)
    then have room: "length (stk (dstack t1)) < 2 ^ 31" by (simp add: stack_total_def)
    note op = Step_p2sh_op [OF end_script(1,2) _ _ assms(2) pc]
    show ?thesis
      using end_script(4)
    proof (cases rule: bip16_shift_cases)
      case saved
      have t1: "scriptIdx t = 0" "scripts t1 = scripts t"
        using saved(3) end_script(2) by (auto simp: frame_def pinned_def)
      have "getStack (dstack t1) = stk (dstack t1)" using room by simp
      then have "savedFirstStack t' \<noteq> []"
        using saved(4) end_script(5) op(1) True t1 by (auto simp: drop_alt_within shiftScript_def)
      moreover have "scriptIdx t' = 1" "scripts t' = scripts t"
        using saved(3,4) end_script(5) t1 assms(2) True
        by (auto simp: skip_empty_def shiftScript_def p2sh_inv_def p2sh_shape_def)
      ultimately show ?thesis
        using assms(2) True t1 by (simp add: p2sh_inv_def)
    qed (use end_script in \<open>auto simp: p2sh_inv_def skip_empty_def shiftScript_def\<close>)
  qed
qed


subsection \<open>No panic before genesis\<close>

lemma wp_PopInt_small:
  assumes "maxNumLength s \<le> 4" "\<And>n s'. within 0 s s' \<Longrightarrow> \<bar>Val n\<bar> < 2 ^ 31 \<Longrightarrow> Q (n, s')" "allows_errors E"
  shows "wp E Q (PopInt s)"
proof -
  have range: "\<bar>num_of_bytes bb\<bar> < 2 ^ 31" if "int (length bb) \<le> maxNumLength s" for bb
  proof (cases "bb = []")
    case False
    then have "\<bar>num_of_bytes bb\<bar> < 2 ^ (8 * length bb - 1)" by (rule abs_num_of_bytes_less)
    also have "\<dots> \<le> 2 ^ 31" using that assms(1) by (intro power_increasing) auto
    finally show ?thesis .
  qed (simp add: num_of_bytes_def)
  have num: "wp E (\<lambda>n. \<bar>Val n\<bar> < 2 ^ 31) (MakeScriptNumber bb (maxNumLength s) m a)" for bb m a
    using range [of bb] assms(3) by (auto simp: MakeScriptNumber_eq allows_errors_def)
  show ?thesis
    unfolding PopInt_def using assms by (auto intro!: wp_rules wp_mono [OF num])
qed

lemma split_in_range:
  fixes n :: ScriptNumber
  assumes "\<bar>Val n\<bar> < 2 ^ 31" "\<not> Int32 n > i32 (int k)" "\<not> LessThanInt n 0"
  shows "\<not> (Int_int n < 0 \<or> Int_int n > int k)"
proof -
  have v: "i64 (Val n) = Val n" using assms(1) by (intro i64_id) auto
  then have "Int32 n = Val n" using assms(1) i32_id [of "Val n"] by (auto simp: Int32_def Let_def)
  then show ?thesis
    using assms(2,3) i32_le [of "Val n" k] by (auto simp: Int_int_def v sn_arith_defs)
qed

lemma split_calm:
  assumes "maxNumLength (dstack t) \<le> 4"
  shows "wp calm (plain t) (opcodeSplit pop t)"
  unfolding opcodeSplit_def
  apply (rule wp_rbind, rule wp_PopInt_small [OF assms])
  using split_in_range by (auto intro!: wp_rules plain_dstack simp: within_def)

lemma executeOpcode_calm:
  assumes "\<not> afterGenesis t" "maxNumLength (dstack t) \<le> 4" "tx_ready c t" "sub_ready t"
  shows "wp calm (\<lambda>_. True) (executeOpcode c pop t)"
proof (cases rule: executeOpcode_cases [of c pop t])
  case handled
  let ?t = "counted pop t"
  have ready: "tx_ready c ?t" "sub_ready ?t" using assms(3,4) by (simp_all add: counted_def)
  have "wp calm (\<lambda>_. True) (op_exec c pop ?t)"
  proof (cases "IsConditional pop \<or> opval (op pop) = OpRETURN \<or> opval (op pop) = OpSPLIT")
    case True
    then show ?thesis
      using op_exec_conditional [of pop ?t c] split_calm [of ?t pop] assms
      by (auto simp: op_exec_at opcodeReturn_def elim!: wp_mono)
  next
    case False
    then show ?thesis
      using op_exec_plain [of pop calm c ?t] ready by (auto elim!: wp_mono)
  qed
  then show ?thesis using handled by simp
qed simp_all


definition safe :: "('pk, 'sg) crypto \<Rightarrow> thread \<Rightarrow> bool" where
  "safe c t = (\<not> afterGenesis t \<and> tx_ready c t \<and> agrees t \<and> within_limits t \<and> sep_behind t \<and> p2sh_inv t)"

lemma Parse_fails: "Parse e scr = (Inl x :: 's fault + _) \<Longrightarrow> \<exists>code. x = Fail code"
  by (auto simp: Parse_def res_simps dest: count_ops_fails parse_ops_fails)

lemma wp_Parse [wp_rules]:
  fixes E :: "'s fault \<Rightarrow> bool"
  assumes "allows_errors E" "\<And>ps. Q ps"
  shows "wp E Q (Parse e scr)"
  using assms Parse_fails [of e scr, where 's = 's]
  by (cases "Parse e scr :: 's fault + _") (auto simp: allows_errors_def)

lemma drop_alt_sel [simp]:
  "bip16 (drop_alt t) = bip16 t" "afterGenesis (drop_alt t) = afterGenesis t"
  by (auto simp: drop_alt_def split: sum.split)

lemma bip16_shift_calm:
  assumes "bip16 t \<and> \<not> afterGenesis t \<and> scriptIdx t = 2 \<Longrightarrow> savedFirstStack t \<noteq> []"
  shows "wp calm (\<lambda>_. True) (bip16_shift t)"
proof (cases "bip16 t \<and> \<not> afterGenesis t \<and> scriptIdx t = 2")
  case True
  have "wp calm (\<lambda>t'. savedFirstStack t' = savedFirstStack t) (CheckErrorCondition False t)"
    unfolding CheckErrorCondition_def by (auto intro!: wp_rules)
  then show ?thesis
    using True assms by (auto simp: bip16_shift_def intro!: wp_rules elim!: wp_mono)
qed (auto simp: bip16_shift_def)

lemma Step_calm:
  assumes "safe c t"
  shows "wp calm (\<lambda>_. True) (Step c t)"
proof (cases "(validPC t :: thread fault + unit)")
  case (Inl e)
  then show ?thesis by (auto simp: Step_def validPC_def split: if_splits)
next
  case (Inr u)
  then have pc: "scriptIdx t < length (scripts t)" "scriptOff t < length (scripts t ! scriptIdx t)"
    by (auto simp: validPC_def split: if_splits)
  let ?pop = "scripts t ! scriptIdx t ! scriptOff t"
  have ops: "wp calm (\<lambda>_. True) (executeOpcode c ?pop t)"
  proof (rule executeOpcode_calm)
    show "maxNumLength (dstack t) \<le> 4"
      using assms by (cases "cfg t") (auto simp: safe_def agrees_def lim_def newStack_def config_defs)
    show "sub_ready t" using assms pc by (auto simp: safe_def sub_ready_def sep_behind_def)
  qed (use assms in \<open>simp_all add: safe_def\<close>)
  show ?thesis
  proof (cases "executeOpcode c ?pop t")
    case (Inl e)
    then show ?thesis using ops Inr by (cases e) (auto simp: Step_def)
  next
    case t1: (Inr t1)
    note f = checked.run_frame [OF t1]
    have "wp calm (\<lambda>_. True) (next_script (t1\<lparr>scriptOff := scriptOff t1 + 1\<rparr>))"
      unfolding next_script_eq
      using Step_p2sh_op(2) [OF t1 f _ _ _ pc(2)] assms f
      by (auto intro!: wp_rbind bip16_shift_calm [THEN wp_mono]
          simp: shiftScript_def drop_alt_within safe_def frame_def pinned_def)
    then show ?thesis using Inr t1 by (auto simp: Step_def Let_def)
  qed
qed

lemma Step_safe:
  assumes "Step c t = Inr (d, t')" "safe c t"
  shows "safe c t'"
proof -
  have k: "settings t' = settings t" "agrees t'"
    using Step_keeps [OF assms(1)] assms(2) by (auto simp: safe_def agrees_def settings_def hasFlag_def)
  then show ?thesis
    using assms(2) Step_within_limits [OF assms(1)] Step_sep_behind [OF assms(1)] Step_p2sh [OF assms(1)]
    by (auto simp: safe_def settings_def tx_ready_def split: option.splits)
qed

lemma createThread_safe:
  assumes "createThread o' = Inr t" "\<not> afterGenesis t" "tx_ready c t"
  shows "safe c t"
  using assms createThread_fresh(1,2) [OF assms(1)] createThread_p2sh [OF assms(1)]
  by (auto simp: safe_def within_limits_def sep_behind_def fresh_def stack_total_def)

end
