(* ===== verification/Engine_Props.thy ===== *)
theory Engine_Props
  imports Engine_Safety
begin

text \<open>
  The properties of the engine as its caller sees it: \<open>Execute\<close> returns, does not panic before genesis on a complete
  transaction, and stays within its limits and its settings at every step.
\<close>

subsection \<open>What the caller passes\<close>

text \<open>A spend: a transaction whose inputs have their source transaction ids and their spent outputs, but for the
  input being spent, whose output is the one the caller passes.\<close>

definition spendable :: "execOpts \<Rightarrow> bool" where
  "spendable o' = (case (optTx o', previousTxOut o') of
     (Some tx, Some out) \<Rightarrow> (\<forall>x\<in>set (Outputs tx). LockingScript x \<noteq> None) \<and> LockingScript out \<noteq> None
       \<and> length (Inputs tx) < 2 ^ 31
       \<and> (\<forall>k<length (Inputs tx). SourceTXID (Inputs tx ! k) \<noteq> None
            \<and> (complete_in (Inputs tx ! k) \<or> (int k = optInputIdx o' \<and> SourceTransaction (Inputs tx ! k) = None)))
   | _ \<Rightarrow> False)"

lemma complete_SetSource:
  assumes "SourceTXID i \<noteq> None" "complete_in i \<or> SourceTransaction i = None" "LockingScript out \<noteq> None"
  shows "complete_in (SetSourceTxOutput i (Some out))"
  using assms by (cases i) (auto simp: complete_in_def SetSourceTxOutput_def SourceTxOutput_def split: option.splits)

lemma spendable_source:
  assumes "spendable o'" "optTx o' = Some tx" "previousTxOut o' = Some out"
    and "0 \<le> optInputIdx o'" "optInputIdx o' < int (length (Inputs tx))" "LockingScript out' = LockingScript out"
  shows "complete_tx (with_Inputs tx ((Inputs tx)[nat (optInputIdx o') :=
    SetSourceTxOutput (Inputs tx ! nat (optInputIdx o')) (Some out')]))"
proof -
  let ?k = "nat (optInputIdx o')"
  have "complete_in ((Inputs tx)[?k := SetSourceTxOutput (Inputs tx ! ?k) (Some out')] ! j)"
    if "j < length (Inputs tx)" for j
    using assms that complete_SetSource [of "Inputs tx ! ?k" out'] by (cases "j = ?k") (auto simp: spendable_def)
  then show ?thesis
    using assms by (cases tx) (auto simp: complete_tx_def spendable_def with_Inputs_def in_set_conv_nth)
qed

lemma validate_calm:
  assumes "optTx o' = Some tx"
  shows "wp calm (\<lambda>_. 0 \<le> optInputIdx o' \<and> optInputIdx o' < int (length (Inputs tx))) (validate o' :: 's fault + unit)"
  using assms by (auto simp: validate_def InputCount_def Let_def)

lemma apply_opts_calm:
  assumes "spendable o'"
  shows "wp calm (\<lambda>_. True) (apply_opts o' z)"
proof -
  obtain tx out where o': "optTx o' = Some tx" "previousTxOut o' = Some out"
    using assms by (auto simp: spendable_def split: option.splits)
  have u: "wp calm (\<lambda>_. True) (opts_unlocking o' :: thread fault + _)" if "(validate o' :: thread fault + _) = Inr ()"
    using that o' by (auto simp: validate_def opts_unlocking_def InputCount_def Let_def split: if_splits option.splits)
  have l: "wp calm (\<lambda>_. True) (opts_locking o' :: thread fault + _)" if "(validate o' :: thread fault + _) = Inr ()"
    using that o' by (auto simp: validate_def opts_locking_def Let_def split: if_splits option.splits)
  have f: "wp calm (\<lambda>t. prevOutput t = Some out) (apply_flags o' z)"
    using o' by (auto simp: apply_flags_def addFlag_def Let_def)
  have s: "wp calm (\<lambda>_. True) (set_source t)" if "prevOutput t = Some out" for t
    using that by (auto simp: set_source_def Let_def split: option.split)
  show ?thesis
  proof (cases "validate o' :: thread fault + _")
    case (Inl e)
    then show ?thesis using validate_calm [OF o'(1), where 's = thread] by (simp add: apply_opts_def)
  next
    case (Inr v)
    then have "(validate o' :: thread fault + _) = Inr ()" by simp
    note ul = this [THEN u] this [THEN l]
    show ?thesis
      unfolding apply_opts_def Inr rbind_Inr Let_def
      by (auto intro!: wp_rbind wp_if wp_Parse s wp_mono [OF ul(1)] wp_mono [OF ul(2)] wp_mono [OF f]
          split: if_splits)
  qed
qed

lemma createThread_calm: "spendable o' \<Longrightarrow> wp calm (\<lambda>_. True) (createThread o')"
  unfolding createThread_def by (rule apply_opts_calm)

lemma createThread_ready:
  assumes "createThread o' = Inr t" "spendable o'" "\<forall>b. length (sha256 c b) = 32"
  shows "tx_ready c t"
proof -
  obtain tx out where o': "optTx o' = Some tx" "previousTxOut o' = Some out"
    using assms(2) by (auto simp: spendable_def split: option.splits)
  have v: "(validate o' :: thread fault + _) = Inr ()"
    using assms(1) by (auto simp: createThread_def apply_opts_def rbind_eq_Inr)
  then have idx: "0 \<le> optInputIdx o'" "optInputIdx o' < int (length (Inputs tx))"
    using validate_calm [OF o'(1), where 's = thread] by simp_all
  obtain tf u l us ls where tf: "apply_flags o' (zero_thread (optTx o' = None \<or> previousTxOut o' = None)) = Inr tf"
    and src: "set_source (built tf u l us ls) = Inr t"
    using assms(1) unfolding createThread_def by (rule apply_opts_built)
  have f: "thTx tf = Some tx" "prevOutput tf = Some out" "inputIdx tf = optInputIdx o'"
    by (subst apply_flags_fresh(1) [OF tf], simp add: o')+
  have "thTx t = Some (with_Inputs tx ((Inputs tx)[nat (optInputIdx o') := SetSourceTxOutput (Inputs tx ! nat (optInputIdx o'))
      (Some \<lparr>Satoshis = Satoshis out, LockingScript = LockingScript out, Change = False\<rparr>)])) \<and> inputIdx t = optInputIdx o'"
    using src f by (auto simp: set_source_def built_def Let_def)
  then show ?thesis
    using spendable_source [OF assms(2) o' idx, of "\<lparr>Satoshis = Satoshis out, LockingScript = LockingScript out, Change = False\<rparr>"]
      idx assms(3)
    by (cases tx) (simp add: tx_ready_def with_Inputs_def)
qed

lemma createThread_before_genesis:
  assumes "createThread o' = Inr t" "\<not> HasFlag (optFlags o') UTXOAfterGenesis"
  shows "\<not> afterGenesis t"
proof -
  have strict: "HasFlag (AddFlag f VerifyStrictEncoding) UTXOAfterGenesis = HasFlag f UTXOAfterGenesis" for f
    by (simp add: HasFlag_def AddFlag_def bit.conj_disj_distrib2)
  have flags: "\<not> afterGenesis tf" if "apply_flags o' (zero_thread e) = Inr tf" for tf e
  proof -
    have "thFlags tf = optFlags o' \<or> thFlags tf = AddFlag (optFlags o') VerifyStrictEncoding"
      using that by (auto simp: apply_flags_def hasFlag_def addFlag_def Let_def split: if_splits)
    moreover have "afterGenesis tf = hasFlag tf UTXOAfterGenesis" by (subst apply_flags_fresh(1) [OF that]) simp
    ultimately show ?thesis using assms(2) strict unfolding hasFlag_def by metis
  qed
  obtain tf u l us ls where tf: "apply_flags o' (zero_thread (optTx o' = None \<or> previousTxOut o' = None)) = Inr tf"
    and src: "set_source (built tf u l us ls) = Inr t"
    using assms(1) unfolding createThread_def by (rule apply_opts_built)
  show ?thesis using set_source_keeps [OF src] flags [OF tf] by (auto simp: built_def)
qed

lemma Execute_cases:
  obtains (rejected) e where "createThread (foldl (\<lambda>p f. f p) no_opts oo) = Inl e" "Execute c oo = Some (Inl e)"
  | (ran) t r where "createThread (foldl (\<lambda>p f. f p) no_opts oo) = Inr t" "run_steps c t = Some r"
      "Execute c oo = Some (rbind r (CheckErrorCondition True))"
  using engine.returns [of c]
  by (cases "createThread (foldl (\<lambda>p f. f p) no_opts oo)") (fastforce simp: Execute_def execute_def)+

lemma CheckErrorCondition_calm: "wp calm (\<lambda>_. True) (CheckErrorCondition final t)"
  unfolding CheckErrorCondition_def by (auto intro!: wp_rules)

lemma Step_tame: "wp tame (\<lambda>_. True) (Step c t)"
proof -
  have n: "wp tame (\<lambda>_. True) (next_script t)" for t
    unfolding next_script_def Let_def CheckErrorCondition_def by (auto intro!: wp_rules)
  have "wp tame (\<lambda>_. True) (validPC t)" by (simp add: validPC_def)
  then show ?thesis
    unfolding Step_def Let_def using n by (auto intro!: wp_rbind elim!: wp_mono split: sum.split fault.split)
qed

lemma run_steps_tame: "run_steps c t = Some r \<Longrightarrow> wp tame (\<lambda>_. True) r"
  using engine.ends_in_step [of c t r "\<lambda>_. True"]
  Step_tame [of c] by (fastforce simp: wp_def split: sum.splits)

lemma run_steps_safe:
  assumes "run_steps c t = Some r" "safe c t"
  shows "wp calm (\<lambda>_. True) r"
  using engine.ends_in_step [of c t r "safe c", OF assms Step_safe] Step_calm [of c]
  by (fastforce simp: wp_def split: sum.splits)

lemma createThread_tame: "wp tame (\<lambda>_. True) (createThread o')"
proof -
  have "wp tame (\<lambda>_. True) (validate o' :: thread fault + _)" by (simp add: validate_def Let_def)
  moreover have ul: "wp tame (\<lambda>_. True) (opts_unlocking o' :: thread fault + _)" "wp tame (\<lambda>_. True) (opts_locking o' :: thread fault + _)"
    by (auto simp: opts_unlocking_def opts_locking_def split: option.split)
  moreover have f: "wp tame (\<lambda>_. True) (apply_flags o' z)" for z by (simp add: apply_flags_def Let_def)
  moreover have "wp tame (\<lambda>_. True) (set_source t)" for t by (auto simp: set_source_def Let_def split: option.split)
  ultimately show ?thesis
    unfolding createThread_def apply_opts_def Let_def
    by (auto intro!: wp_rbind wp_if wp_Parse wp_mono [OF ul(1)] wp_mono [OF ul(2)] wp_mono [OF f] elim!: wp_mono)
qed

subsection \<open>Properties\<close>

text \<open>(C2) \<open>Execute\<close> always returns: whatever the scripts, the flags and the transaction, the loop of \<open>execute\<close> ends.
  The result is the final thread, an error or a panic, never the early success value that OP_RETURN uses inside.\<close>

theorem Execute_returns: "\<exists>r. Execute c oo = Some r \<and> (\<forall>t. r \<noteq> Inl (Success t))"
proof (cases rule: Execute_cases [of oo c])
  case (rejected e)
  then show ?thesis using createThread_tame [of "foldl (\<lambda>p f. f p) no_opts oo"] by auto
next
  case (ran t r)
  have "wp tame (\<lambda>_. True) (rbind r (CheckErrorCondition True))"
    using run_steps_tame [OF ran(2)] CheckErrorCondition_calm calm_tame by (fastforce intro!: wp_rbind elim!: wp_mono)
  then show ?thesis using ran(3) by (auto simp: wp_tame_iff)
qed

text \<open>(C1) Before genesis the engine does not panic: when the flags do not select the rules after genesis, the caller
  passes a transaction and the output it spends, and the other inputs have their spent outputs, \<open>Execute\<close> returns the
  final thread or an error value. No script, of any bytes, reaches a nil dereference or an index out of range.\<close>

theorem Execute_no_panic_before_genesis:
  assumes "\<not> HasFlag (optFlags (foldl (\<lambda>p f. f p) no_opts oo)) UTXOAfterGenesis"
    and "spendable (foldl (\<lambda>p f. f p) no_opts oo)" and "\<forall>b. length (sha256 c b) = 32"
  shows "\<exists>r. Execute c oo = Some r \<and> r \<noteq> Inl Panic"
proof (cases rule: Execute_cases [of oo c])
  case (rejected e)
  then show ?thesis
    using createThread_calm [OF assms(2)] by auto
next
  case (ran t r)
  note t = createThread_before_genesis [OF ran(1) assms(1)] createThread_ready [OF ran(1) assms(2,3)]
  have "wp calm (\<lambda>_. True) (rbind r (CheckErrorCondition True))"
    using run_steps_safe [OF ran(2) createThread_safe [OF ran(1) t]] CheckErrorCondition_calm
    by (auto intro!: wp_rbind elim!: wp_mono)
  then show ?thesis using ran(3) by (auto simp: wp_calm_iff)
qed

text \<open>An instance for the witnesses: hashes of the right length, and a signature scheme that accepts everything.\<close>

definition demo_crypto :: "(unit, unit) crypto" where
  "demo_crypto = \<lparr>sha256 = \<lambda>b. replicate 32 7, sha1 = \<lambda>b. replicate 20 5, ripemd160 = \<lambda>b. replicate 20 6,
     ParsePubKey = \<lambda>b. Some (), ParseSignature = \<lambda>b. Some (), ParseDERSignature = \<lambda>b. Some (), ToDER = \<lambda>s. Some [],
     Verify = \<lambda>s h k. True, externalVerifySignatureFn = None\<rparr>"

definition demo_tx :: Transaction where
  "demo_tx = Transaction 1 [TransactionInput (Some (replicate 32 1)) (Some [0x51, 0x51]) 0 0 None None None] [] 0 None"

definition demo_out :: "bytes \<Rightarrow> TransactionOutput" where
  "demo_out l = \<lparr>Satoshis = 1000, LockingScript = Some l, Change = False\<rparr>"

definition demo_opts :: "bytes \<Rightarrow> execOpts" where
  "demo_opts l = WithTx (Some demo_tx) 0 (Some (demo_out l)) no_opts"

lemmas demo_defs = demo_crypto_def demo_tx_def demo_out_def demo_opts_def

lemma demo_spendable: "spendable (demo_opts l)"
  by (simp add: demo_defs WithTx_def spendable_def complete_in_def SourceTxOutput_def)

theorem Execute_no_panic_before_genesis_witness:
  "\<exists>r. Execute demo_crypto [WithTx (Some demo_tx) 0 (Some (demo_out [0xAC]))] = Some r \<and> r \<noteq> Inl Panic"
  using Execute_no_panic_before_genesis [of "[WithTx (Some demo_tx) 0 (Some (demo_out [0xAC]))]" demo_crypto]
    demo_spendable [of "[0xAC]"]
  by (simp add: demo_opts_def WithTx_def HasFlag_def demo_crypto_def)

text \<open>(C17) The limits of the rules before genesis hold at every step: the two stacks together never hold more than 1000
  elements, and no script counts more than 500 operations.\<close>

theorem reachable_within_limits:
  assumes "reachable c o' t" "\<not> afterGenesis t"
  shows "length (stk (dstack t)) + length (stk (astack t)) \<le> 1000 \<and> 0 \<le> numOps t \<and> numOps t \<le> 500"
proof -
  have "within_limits t"
    using assms(1)
  proof (induction rule: reachable.induct)
    case (start t)
    then show ?case
      using createThread_fresh(1) [OF start] by (simp add: within_limits_def fresh_def stack_total_def)
  next
    case (step t d t')
    then show ?case using Step_within_limits by blast
  qed
  moreover have "cfg t = BeforeGenesisConfig"
    using reachable_settings(1) [OF assms(1)] assms(2) by (cases "cfg t") (auto simp: agrees_def config_defs)
  ultimately show ?thesis by (simp add: within_limits_def stack_total_def)
qed

lemma demo_step: "case createThread (demo_opts [0xAC]) of Inl _ \<Rightarrow> False | Inr t0 \<Rightarrow>
    (case Step demo_crypto t0 of Inl _ \<Rightarrow> False | Inr (d, t) \<Rightarrow> \<not> afterGenesis t \<and> stk (dstack t) = [[1]])"
  by code_simp

lemma demo_reachable: "\<exists>t. reachable demo_crypto (demo_opts [0xAC]) t \<and> \<not> afterGenesis t \<and> stk (dstack t) = [[1]]"
  using demo_step by (auto split: sum.splits intro: reachable.intros)

theorem reachable_within_limits_witness:
  "\<exists>t. reachable demo_crypto (demo_opts [0xAC]) t \<and> stk (dstack t) = [[1]]
     \<and> length (stk (dstack t)) + length (stk (astack t)) \<le> 1000 \<and> 0 \<le> numOps t \<and> numOps t \<le> 500"
  using demo_reachable reachable_within_limits [of demo_crypto "demo_opts [0xAC]"] by blast

text \<open>(C26) The settings of a thread never change while it runs, and agree with each other: the rules after genesis and
  after Chronicle are those the flags ask for, the configuration is theirs, and both stacks have its limits.\<close>

theorem reachable_settings_fixed:
  assumes "reachable c o' t"
  shows "(\<exists>t0. createThread o' = Inr t0 \<and> thFlags t = thFlags t0 \<and> thTx t = thTx t0 \<and> inputIdx t = inputIdx t0 \<and> cfg t = cfg t0)
    \<and> (afterGenesis t \<longleftrightarrow> HasFlag (thFlags t) UTXOAfterGenesis) \<and> (afterChronicle t \<longleftrightarrow> HasFlag (thFlags t) UTXOAfterChronicle)
    \<and> (afterGenesis t \<or> \<not> afterChronicle t) \<and> cfg t = (if afterChronicle t then AfterChronicleConfig else if afterGenesis t then AfterGenesisConfig
                else BeforeGenesisConfig)
    \<and> maxNumLength (dstack t) = MaxScriptNumberLength (cfg t) \<and> maxNumLength (astack t) = MaxScriptNumberLength (cfg t)"
proof -
  have "agrees t" "\<exists>t0. createThread o' = Inr t0 \<and> settings t = settings t0" by (rule reachable_settings [OF assms])+
  then show ?thesis
    by (cases "cfg t") (auto simp: agrees_def settings_def hasFlag_def lim_def newStack_def cfg_AfterGenesis_def cfg_AfterChronicle_def)
qed

theorem reachable_settings_fixed_witness:
  "\<exists>t. reachable demo_crypto (demo_opts [0xAC]) t \<and> \<not> HasFlag (thFlags t) UTXOAfterGenesis \<and> cfg t = BeforeGenesisConfig"
proof -
  obtain t where t: "reachable demo_crypto (demo_opts [0xAC]) t" "\<not> afterGenesis t" using demo_reachable by blast
  show ?thesis using reachable_settings_fixed [OF t(1)] t by (auto split: if_splits)
qed

text \<open>(C3) The verdict of \<open>Execute\<close>. When the steps end without an error, every script has been run to its end, and the
  spend is accepted exactly if the data stack has a true value on top, alone on the stack when the clean stack flag
  is set; the error tells which of the conditions failed.\<close>

theorem Execute_verdict:
  assumes "createThread (foldl (\<lambda>p f. f p) no_opts oo) = Inr t0" "run_steps c t0 = Some (Inr t)"
    and "length (stk (dstack t)) < 2 ^ 31"
  shows "length (scripts t) \<le> scriptIdx t \<and> Execute c oo = Some (
    if stk (dstack t) = [] then Inl (Fail ErrEmptyStack)
    else if hasFlag t VerifyCleanStack \<and> length (stk (dstack t)) \<noteq> 1 then Inl (Fail ErrCleanStack)
    else if asBool (last (stk (dstack t))) then Inr (t\<lparr>dstack := (dstack t)\<lparr>stk := butlast (stk (dstack t))\<rparr>\<rparr>)
    else Inl (Fail ErrEvalFalse))"
proof
  obtain s0 where s0: "Step c s0 = Inr (True, t)"
    using engine.ends_in_step [of c t0 "Inr t" "\<lambda>_. True", OF assms(2)] by auto
  then show "length (scripts t) \<le> scriptIdx t" by (cases rule: Step_cases) auto
  have "CheckErrorCondition True t = (
    if stk (dstack t) = [] then Inl (Fail ErrEmptyStack)
    else if hasFlag t VerifyCleanStack \<and> length (stk (dstack t)) \<noteq> 1 then Inl (Fail ErrCleanStack)
    else if asBool (last (stk (dstack t))) then Inr (t\<lparr>dstack := (dstack t)\<lparr>stk := butlast (stk (dstack t))\<rparr>\<rparr>)
    else Inl (Fail ErrEvalFalse))"
    using assms(3) by (auto simp: CheckErrorCondition_def PopBool_def PopByteArray_eq Suc_le_eq)
  then show "Execute c oo = Some (
    if stk (dstack t) = [] then Inl (Fail ErrEmptyStack)
    else if hasFlag t VerifyCleanStack \<and> length (stk (dstack t)) \<noteq> 1 then Inl (Fail ErrCleanStack)
    else if asBool (last (stk (dstack t))) then Inr (t\<lparr>dstack := (dstack t)\<lparr>stk := butlast (stk (dstack t))\<rparr>\<rparr>)
    else Inl (Fail ErrEvalFalse))"
    using assms(1,2) by (simp add: Execute_def execute_def)
qed

lemma demo_run: "case createThread (demo_opts [0x87]) of Inl _ \<Rightarrow> False | Inr t0 \<Rightarrow>
    (case run_steps demo_crypto t0 of Some (Inr t) \<Rightarrow> stk (dstack t) = [[1]] \<and> \<not> hasFlag t VerifyCleanStack | _ \<Rightarrow> False)"
  by code_simp

theorem Execute_verdict_witness:
  "\<exists>t. Execute demo_crypto [WithTx (Some demo_tx) 0 (Some (demo_out [0x87]))] = Some (Inr t) \<and> stk (dstack t) = []"
proof -
  obtain t0 t where t: "createThread (demo_opts [0x87]) = Inr t0" "run_steps demo_crypto t0 = Some (Inr t)"
      "stk (dstack t) = [[1]]" "\<not> hasFlag t VerifyCleanStack"
    using demo_run by (auto split: sum.split_asm option.split_asm) (metis sumE)
  then show ?thesis
    using Execute_verdict [of "[WithTx (Some demo_tx) 0 (Some (demo_out [0x87]))]" t0 demo_crypto t]
    by (simp add: demo_opts_def asBool_def)
qed

end
