(* ===== verification/Conditionals.thy ===== *)
theory Conditionals
  imports Engine_Props
begin

text \<open>
  Conditional execution refines the usual reading of nested conditionals. The specification keeps one frame per open
  conditional: the truth of its current branch, and whether its OP_ELSE has been seen. An opcode runs when every open
  branch is true. The code keeps two stacks instead, in two encodings: before genesis a conditional opened in a dead
  branch is \<open>opCondSkip\<close> and OP_ELSE may repeat, after genesis it is \<open>opCondFalse\<close> and the else stack remembers OP_ELSE.
\<close>

type_synonym frames = "(bool \<times> bool) list"

abbreviation live :: "frames \<Rightarrow> bool" where
  "live fs \<equiv> list_all fst fs"

definition cond_next :: "bool \<Rightarrow> byte \<Rightarrow> bool \<Rightarrow> frames \<Rightarrow> frames option" where
  "cond_next strict code b fs =
     (if code \<in> {OpIF, OpNOTIF, OpVERIF, OpVERNOTIF} then Some (fs @ [(b, False)])
      else if code = OpELSE then
        (if fs = [] \<or> (strict \<and> snd (last fs)) then None else Some (butlast fs @ [(\<not> fst (last fs), True)]))
      else if code = OpENDIF then (if fs = [] then None else Some (butlast fs))
      else Some fs)"

subsection \<open>The two encodings\<close>

abbreviation cond_bit :: "bool \<Rightarrow> int" where
  "cond_bit b \<equiv> (if b then opCondTrue else opCondFalse)"

fun legacy_conds :: "bool list \<Rightarrow> int list" where
  "legacy_conds [] = []"
| "legacy_conds (True # bs) = opCondTrue # legacy_conds bs"
| "legacy_conds (False # bs) = opCondFalse # replicate (length bs) opCondSkip"

definition tracks :: "thread \<Rightarrow> frames \<Rightarrow> bool" where
  "tracks t fs = (if afterGenesis t
     then condStack t = map (\<lambda>f. cond_bit (fst f)) fs \<and> (\<exists>s. elseStack t = BoolStack s \<and> stk s = map (\<lambda>f. fromBool (snd f)) fs)
     else condStack t = legacy_conds (map fst fs) \<and> elseStack t = NopBoolStack)"

lemma legacy_conds_append:
  "legacy_conds (bs @ [b]) = legacy_conds bs @ [if list_all (\<lambda>x. x) bs then cond_bit b else opCondSkip]"
  by (induction bs rule: legacy_conds.induct) (auto simp: replicate_append_same)

lemma length_legacy_conds [simp]: "length (legacy_conds bs) = length bs"
  by (induction bs rule: legacy_conds.induct) auto

lemma live_map: "list_all (\<lambda>x. x) (map fst fs) = live fs"
  by (simp add: list_all_iff)

lemma fromBool_asBool [simp]: "asBool (fromBool b) = b"
  by (simp add: fromBool_def asBool_def)

lemma tracks_nil: "tracks t fs \<Longrightarrow> condStack t = [] \<longleftrightarrow> fs = []"
  by (auto simp: tracks_def simp flip: length_0_conv split: if_splits)

lemma tracks_executing:
  assumes "tracks t fs"
  shows "isBranchExecuting t \<and> shouldExec t pop \<longleftrightarrow>
    live fs \<and> (\<not> afterGenesis t \<or> \<not> earlyReturnAfterGenesis t \<or> opval (op pop) = OpRETURN)"
proof (cases fs rule: rev_cases)
  case (snoc gs g)
  then show ?thesis
    using assms by (auto simp: tracks_def isBranchExecuting_def shouldExec_def legacy_conds_append live_map list_all_iff list_ex_iff
      split: if_splits)
qed (use assms in \<open>auto simp: tracks_def isBranchExecuting_def shouldExec_def\<close>)

lemma tracks_push:
  assumes "tracks t fs" "v = (if afterGenesis t \<or> live fs then cond_bit b else opCondSkip)"
  shows "tracks (push_cond t v) (fs @ [(b, False)])"
  using assms by (auto simp: tracks_def push_cond_def legacy_conds_append live_map bsPushBool_def PushBool_def)

lemma tracks_dstack [simp]: "tracks (t\<lparr>dstack := s\<rparr>) fs = tracks t fs"
  by (simp add: tracks_def)

lemma bsPopBool_tracks:
  assumes "tracks t fs" "fs = gs @ [g]" "afterGenesis t \<longrightarrow> length fs < 2 ^ 31"
  obtains es where "bsPopBool (elseStack t) = (Inr (afterGenesis t \<and> snd g, es) :: 's fault + _)"
    "\<not> afterGenesis t \<longrightarrow> es = NopBoolStack" "afterGenesis t \<longrightarrow> (\<exists>s. es = BoolStack s \<and> stk s = map (\<lambda>f. fromBool (snd f)) gs)"
  using assms by (auto simp: tracks_def bsPopBool_def PopBool_def PopByteArray_eq split: if_splits)

lemma tracks_else:
  assumes "tracks t fs" "afterGenesis t \<longrightarrow> length fs < 2 ^ 31"
  shows "case cond_next (afterGenesis t) OpELSE b fs of
      None \<Rightarrow> opcodeElse pop t = Inl (Fail ErrUnbalancedConditional)
    | Some fs' \<Rightarrow> (\<exists>t'. opcodeElse pop t = Inr t' \<and> tracks t' fs')"
proof (cases fs rule: rev_cases)
  case Nil
  then show ?thesis using assms tracks_nil [OF assms(1)] by (simp add: cond_next_def opcodeElse_def)
next
  case (snoc gs g)
  obtain es where es: "bsPopBool (elseStack t) = (Inr (afterGenesis t \<and> snd g, es) :: thread fault + _)"
    "\<not> afterGenesis t \<longrightarrow> es = NopBoolStack" "afterGenesis t \<longrightarrow> (\<exists>s. es = BoolStack s \<and> stk s = map (\<lambda>f. fromBool (snd f)) gs)"
    using bsPopBool_tracks [OF assms(1) snoc assms(2), where 's = thread] .
  have "\<exists>t'. opcodeElse pop t = Inr t' \<and> tracks t' (gs @ [(\<not> fst g, True)])" if "\<not> (afterGenesis t \<and> snd g)"
    using that assms(1) es tracks_nil [OF assms(1)]
    by (cases "afterGenesis t"; cases "fst g"; cases "live gs")
      (auto simp: snoc tracks_def opcodeElse_def legacy_conds_append live_map Let_def nth_append list_update_append
        bsPushBool_def PushBool_def)
  moreover have "opcodeElse pop t = Inl (Fail ErrUnbalancedConditional)" if "afterGenesis t \<and> snd g"
    using that es tracks_nil [OF assms(1)] by (auto simp: opcodeElse_def)
  ultimately show ?thesis by (auto simp: cond_next_def snoc)
qed

lemma tracks_endif:
  assumes "tracks t fs" "afterGenesis t \<longrightarrow> length fs < 2 ^ 31"
  shows "case cond_next (afterGenesis t) OpENDIF b fs of
      None \<Rightarrow> opcodeEndif pop t = Inl (Fail ErrUnbalancedConditional)
    | Some fs' \<Rightarrow> (\<exists>t'. opcodeEndif pop t = Inr t' \<and> tracks t' fs')"
proof (cases fs rule: rev_cases)
  case Nil
  then show ?thesis using assms tracks_nil [OF assms(1)] by (simp add: cond_next_def opcodeEndif_def)
next
  case (snoc gs g)
  obtain es where es: "bsPopBool (elseStack t) = (Inr (afterGenesis t \<and> snd g, es) :: thread fault + _)"
    "\<not> afterGenesis t \<longrightarrow> es = NopBoolStack" "afterGenesis t \<longrightarrow> (\<exists>s. es = BoolStack s \<and> stk s = map (\<lambda>f. fromBool (snd f)) gs)"
    using bsPopBool_tracks [OF assms(1) snoc assms(2), where 's = thread] .
  then show ?thesis
    using assms(1) tracks_nil [OF assms(1)] by (auto simp: snoc cond_next_def opcodeEndif_def tracks_def legacy_conds_append)
qed

text \<open>The condition of an opening opcode, read off the top of the stack.\<close>

definition cond_holds :: "ParsedOpcode \<Rightarrow> thread \<Rightarrow> bool" where
  "cond_holds pop t = (let v = last (stk (dstack t)); code = opval (op pop)
     in if code = OpIF then asBool v else if code = OpNOTIF then \<not> asBool v
        else if code = OpVERIF then txVersionMatchesBytes (thTx t) v else \<not> txVersionMatchesBytes (thTx t) v)"

definition runs :: "thread \<Rightarrow> frames \<Rightarrow> bool" where
  "runs t fs = (live fs \<and> \<not> (afterGenesis t \<and> earlyReturnAfterGenesis t))"

lemma popIfBool_value:
  assumes "popIfBool t = Inr (v, t')"
  shows "(length (stk (dstack t)) < 2 ^ 31 \<longrightarrow> v = asBool (last (stk (dstack t)))) \<and> (\<exists>s. t' = t\<lparr>dstack := s\<rparr>)"
  using assms by (auto simp: popIfBool_def PopBool_def rbind_eq_Inr PopByteArray_eq split: if_splits)

abbreviation "opening pop \<equiv> opval (op pop) \<in> {OpIF, OpNOTIF, OpVERIF, OpVERNOTIF}"

text \<open>The three opening handlers have one shape: \<open>test\<close> takes the condition off the stack.\<close>

definition open_cond :: "(thread \<Rightarrow> thread fault + bool \<times> thread) \<Rightarrow> ParsedOpcode \<Rightarrow> thread \<Rightarrow> outcome" where
  "open_cond test pop t =
     (if \<not> shouldExec t pop then Inr (push_cond t opCondFalse)
      else if \<not> isBranchExecuting t then Inr (push_cond t opCondSkip)
      else rbind (test t) (\<lambda>(b, t). Inr (push_cond t (cond_bit b))))"

definition ver_test :: "ParsedOpcode \<Rightarrow> thread \<Rightarrow> thread fault + bool \<times> thread" where
  "ver_test pop t = (case (PopByteArray (dstack t) :: thread fault + bytes \<times> stack) of
     Inl _ \<Rightarrow> Inl (Fail ErrUnbalancedConditional)
   | Inr (v, s) \<Rightarrow> Inr (txVersionMatchesBytes (thTx t) v \<noteq> (opval (op pop) = OpVERNOTIF), t\<lparr>dstack := s\<rparr>))"

lemma opening_handlers:
  "opcodeIf pop t = open_cond popIfBool pop t"
  "opcodeNotIf pop t = open_cond (\<lambda>t. rbind (popIfBool t) (\<lambda>(b, t). Inr (\<not> b, t))) pop t"
  "afterChronicle t \<Longrightarrow> opcodeVerConditional pop t = open_cond (ver_test pop) pop t"
  by (cases "popIfBool t :: thread fault + _";
      cases "PopByteArray (dstack t) :: thread fault + bytes \<times> stack";
      auto simp: opcodeIf_def opcodeNotIf_def opcodeVerConditional_def resolveVerCondition_def open_cond_def ver_test_def Let_def)+

lemma test_value:
  assumes "test t = Inr (b, t1)" and "opening pop"
    and "test = (if opval (op pop) = OpIF then popIfBool
      else if opval (op pop) = OpNOTIF then (\<lambda>t. rbind (popIfBool t) (\<lambda>(b, t). Inr (\<not> b, t))) else ver_test pop)"
  shows "(length (stk (dstack t)) < 2 ^ 31 \<longrightarrow> b = cond_holds pop t) \<and> (\<exists>s. t1 = t\<lparr>dstack := s\<rparr>)"
proof -
  have x: "(length (stk (dstack t)) < 2 ^ 31 \<longrightarrow> x = last (stk (dstack t)))"
    if "PopByteArray (dstack t) = (Inr (x, s) :: thread fault + _)" for x s
    using that PopByteArray_eq [of "dstack t", where 'a = thread] by (auto split: if_splits)
  consider "opval (op pop) = OpIF" | "opval (op pop) = OpNOTIF" | "opval (op pop) = OpVERIF" | "opval (op pop) = OpVERNOTIF"
    using assms(2) by auto
  then show ?thesis
  proof cases
  qed (use assms(1) in \<open>auto simp: assms(3) cond_holds_def ver_test_def rbind_eq_Inr dest!: popIfBool_value dest: x split: sum.splits\<close>)
qed

lemma op_exec_open:
  assumes "opening pop" "afterChronicle t \<or> opval (op pop) \<in> {OpIF, OpNOTIF}"
  shows "op_exec c pop t = open_cond (if opval (op pop) = OpIF then popIfBool
      else if opval (op pop) = OpNOTIF then (\<lambda>t. rbind (popIfBool t) (\<lambda>(b, t). Inr (\<not> b, t))) else ver_test pop) pop t"
  using assms by (auto simp: op_exec_at opening_handlers)

lemma open_value:
  assumes "opening pop" and "op_exec c pop t = Inr t'" "afterChronicle t \<or> opval (op pop) \<in> {OpIF, OpNOTIF}"
  shows "\<exists>s b. t' = push_cond (t\<lparr>dstack := s\<rparr>) (if \<not> shouldExec t pop then opCondFalse
    else if \<not> isBranchExecuting t then opCondSkip else cond_bit b) \<and> (length (stk (dstack t)) < 2 ^ 31 \<longrightarrow> b = cond_holds pop t)"
proof (cases "shouldExec t pop \<and> isBranchExecuting t")
  case True
  then obtain b t1 where "(if opval (op pop) = OpIF then popIfBool
      else if opval (op pop) = OpNOTIF then (\<lambda>t. rbind (popIfBool t) (\<lambda>(b, t). Inr (\<not> b, t))) else ver_test pop) t = Inr (b, t1)"
    and t': "t' = push_cond t1 (cond_bit b)"
    using assms(2) by (auto simp: op_exec_open [OF assms(1,3)] open_cond_def rbind_eq_Inr)
  note test_value [OF this(1) assms(1) refl]
  then show ?thesis using True t' by auto
next
  case False
  then have "t' = push_cond (t\<lparr>dstack := dstack t\<rparr>) (if \<not> shouldExec t pop then opCondFalse else opCondSkip)"
    using assms(2) by (auto simp: op_exec_open [OF assms(1,3)] open_cond_def split: if_splits)
  then show ?thesis using False by (intro exI [of _ "dstack t"] exI [of _ "cond_holds pop t"]) auto
qed

lemma tracks_open:
  assumes "tracks t fs" "opening pop" "op_exec c pop t = Inr t'" "afterChronicle t \<or> opval (op pop) \<in> {OpIF, OpNOTIF}"
  shows "\<exists>b. tracks t' (fs @ [(runs t fs \<and> b, False)]) \<and> (length (stk (dstack t)) < 2 ^ 31 \<longrightarrow> b = cond_holds pop t)"
proof -
  have ret: "opval (op pop) \<noteq> OpRETURN" using assms(2) by auto
  have ex: "isBranchExecuting t \<and> shouldExec t pop \<longleftrightarrow> runs t fs"
    using tracks_executing [OF assms(1), of pop] ret by (auto simp: runs_def)
  have dead: "\<not> afterGenesis t \<and> \<not> live fs" if "\<not> isBranchExecuting t" "shouldExec t pop"
    using that ex assms(1) by (cases fs rule: rev_cases)
      (auto simp: runs_def tracks_def shouldExec_def isBranchExecuting_def list_ex_iff split: if_splits)
  have false: "afterGenesis t" if "\<not> shouldExec t pop"
    using that by (auto simp: shouldExec_def split: if_splits)
  obtain s b where t': "t' = push_cond (t\<lparr>dstack := s\<rparr>) (if \<not> shouldExec t pop then opCondFalse
    else if \<not> isBranchExecuting t then opCondSkip else cond_bit b)"
    and b: "length (stk (dstack t)) < 2 ^ 31 \<longrightarrow> b = cond_holds pop t"
    using open_value [OF assms(2-4)] by blast
  have "tracks t' (fs @ [(runs t fs \<and> b, False)])"
    using tracks_push [of "t\<lparr>dstack := s\<rparr>" fs _ "runs t fs \<and> b"] assms(1) ex dead false
    by (auto simp: runs_def t')
  with b show ?thesis by blast
qed

subsection \<open>The simulation\<close>

text \<open>Before Chronicle OP_VERIF and OP_VERNOTIF do not open a conditional.\<close>

definition next_frames :: "ParsedOpcode \<Rightarrow> thread \<Rightarrow> bool \<Rightarrow> frames \<Rightarrow> frames option" where
  "next_frames pop t b fs = (if opval (op pop) \<in> {OpVERIF, OpVERNOTIF} \<and> \<not> afterChronicle t then Some fs
     else cond_next (afterGenesis t) (opval (op pop)) (runs t fs \<and> b) fs)"

lemma tracks_plain: "plain t t' \<Longrightarrow> tracks t' fs = tracks t fs"
  by (auto simp: plain_defs tracks_def)

lemma tracks_counted [simp]: "tracks (counted pop t) fs = tracks t fs"
  by (simp add: tracks_def)

lemma op_exec_tracks:
  assumes "op_exec c pop t = Inr t'" "tracks t fs" "afterGenesis t \<longrightarrow> length fs < 2 ^ 31"
  shows "\<exists>b fs'. next_frames pop t b fs = Some fs' \<and> tracks t' fs' \<and> (length (stk (dstack t)) < 2 ^ 31 \<longrightarrow> b = cond_holds pop t)"
proof -
  consider (ver) "opval (op pop) \<in> {OpVERIF, OpVERNOTIF}" "\<not> afterChronicle t"
    | (open') "opening pop" "afterChronicle t \<or> opval (op pop) \<in> {OpIF, OpNOTIF}"
    | (els) "opval (op pop) = OpELSE" | (endif) "opval (op pop) = OpENDIF"
    | (ret) "opval (op pop) = OpRETURN" | (other) "\<not> IsConditional pop" "opval (op pop) \<noteq> OpRETURN"
    by (auto simp: IsConditional_def)
  then show ?thesis
  proof cases
    case ver
    then have "t' = t" using assms(1) by (auto simp: op_exec_at opcodeVerConditional_def opcodeReserved_def split: if_splits)
    then show ?thesis using ver assms(2) by (auto simp: next_frames_def)
  next
    case open'
    then show ?thesis using tracks_open [OF assms(2) open'(1) assms(1) open'(2)] by (auto simp: next_frames_def cond_next_def)
  next
    case els
    then show ?thesis
      using tracks_else [OF assms(2,3), where pop = pop] assms(1) by (fastforce simp: next_frames_def op_exec_at split: option.splits)
  next
    case endif
    then show ?thesis
      using tracks_endif [OF assms(2,3), where pop = pop] assms(1) by (fastforce simp: next_frames_def op_exec_at split: option.splits)
  next
    case ret
    then show ?thesis
      using assms by (auto simp: next_frames_def cond_next_def op_exec_at opcodeReturn_def Let_def tracks_def split: if_splits)
  next
    case other
    then have "next_frames pop t b fs = Some fs" for b by (auto simp: next_frames_def cond_next_def IsConditional_def)
    then show ?thesis using table.exec_plain [OF other assms(1)] tracks_plain assms(2) by auto
  qed
qed

lemma executeOpcode_tracks:
  assumes "executeOpcode c pop t = Inr t'" "tracks t fs" "afterGenesis t \<longrightarrow> length fs < 2 ^ 31"
  shows "\<exists>b fs'. next_frames pop t b fs = Some fs' \<and> tracks t' fs' \<and> (length (stk (dstack t)) < 2 ^ 31 \<longrightarrow> b = cond_holds pop t)"
proof (cases rule: executeOpcode_cases [of c pop t])
  case (refused e)
  then show ?thesis using assms(1) by simp
next
  case skipped
  then have "next_frames pop t b fs = Some fs" for b
    by (auto simp: hidden_def next_frames_def cond_next_def IsConditional_def)
  then show ?thesis using skipped assms by auto
next
  case handled
  have eq: "next_frames pop (counted pop t) = next_frames pop t" "cond_holds pop (counted pop t) = cond_holds pop t"
    by (auto simp: next_frames_def runs_def cond_holds_def fun_eq_iff counted_def Let_def)
  show ?thesis using op_exec_tracks [of c pop "counted pop t" t' fs] handled assms by (simp add: eq)
qed

subsection \<open>Reachable threads\<close>

lemma length_Parse:
  assumes "Parse e scr = (Inr ps :: 's fault + _)"
  shows "length ps \<le> length scr"
proof -
  have "b \<noteq> []" if "pop_bytes pop = (Inr b :: 's fault + _)" for pop b
    using that by (auto simp: pop_bytes_def Let_def split: if_splits)
  then have step: "Suc 0 \<le> length b" if "pop_bytes pop = (Inr b :: 's fault + _)" for pop b
    using that by (cases b) auto
  have "length acc + length qs \<le> length b" if "unparse_loop qs acc = (Inr b :: 's fault + _)" for qs acc b
    using that
  proof (induction qs arbitrary: acc)
    case (Cons q qs)
    then show ?case using step by (fastforce simp: rbind_eq_Inr)
  qed simp
  moreover have "unparse_loop ps [] = (Inr scr :: 's fault + _)"
    using assms parse_ops_unparse [of e scr 0 0 "[]" ps, where 's = 's] by (auto simp: Parse_def res_simps)
  ultimately show ?thesis by fastforce
qed

definition small_scripts :: "thread \<Rightarrow> bool" where
  "small_scripts t = (afterGenesis t \<longrightarrow> (\<forall>ps\<in>set (scripts t). length ps < 2 ^ 31))"

lemma createThread_small:
  assumes "createThread o' = Inr t"
  shows "small_scripts t"
proof -
  obtain tf u l us ls where p: "(Parse (errorOnCheckSig tf) u :: thread fault + _) = Inr us" "(Parse (errorOnCheckSig tf) l :: thread fault + _) = Inr ls"
    and src: "set_source (built tf u l us ls) = Inr t"
    and sz: "int (length u) \<le> MaxScriptSize (cfg tf)" "int (length l) \<le> MaxScriptSize (cfg tf)"
    using assms unfolding createThread_def by (rule apply_opts_built)
  have "MaxScriptSize (cfg tf) < 2 ^ 31" by (cases "cfg tf") (simp_all add: MaxScriptSize_def)
  then show ?thesis
    using set_source_keeps [OF src] sz length_Parse [OF p(1)] length_Parse [OF p(2)] by (auto simp: small_scripts_def built_def)
qed

lemma tracks_done: "condStack t = [] \<Longrightarrow> tracks t fs \<Longrightarrow> tracks t []"
  using tracks_nil by blast

lemma tracks_between: "tracks (t\<lparr>scriptOff := k\<rparr>) fs = tracks t fs" "tracks (shiftScript t) fs = tracks t fs"
    "tracks (drop_alt t) fs = tracks t fs" "tracks (skip_empty t) fs = tracks t fs"
  by (auto simp: tracks_def shiftScript_def drop_alt_def skip_empty_def split: sum.split)

lemma tracks_bip16_shift:
  assumes "bip16_shift t = Inr t'"
  shows "tracks t' fs = tracks t fs" "small_scripts t \<Longrightarrow> small_scripts t'"
  using assms by (cases rule: bip16_shift_cases; simp add: tracks_def small_scripts_def)+

lemma cond_next_grows: "next_frames pop t b fs = Some fs' \<Longrightarrow> length fs' \<le> Suc (length fs)"
  by (auto simp: next_frames_def cond_next_def split: if_splits)

definition well_nested :: "thread \<Rightarrow> bool" where
  "well_nested t = ((\<exists>fs. tracks t fs \<and> length fs \<le> scriptOff t) \<and> small_scripts t)"

lemma Step_well_nested:
  assumes "Step c t = Inr (d, t')" "well_nested t"
  shows "well_nested t'"
proof -
  obtain fs where fs: "tracks t fs" "length fs \<le> scriptOff t" and small: "small_scripts t"
    using assms(2) by (auto simp: well_nested_def)
  have pc: "scriptIdx t < length (scripts t)" "scriptOff t < length (scripts t ! scriptIdx t)"
    using assms(1) by (auto simp: Step_def validPC_def res_simps split: if_splits)
  have room: "afterGenesis t \<longrightarrow> length fs < 2 ^ 31"
    using small pc fs(2) nth_mem [OF pc(1)] unfolding small_scripts_def by (metis less_trans order.strict_trans1)
  have op: "\<exists>fs'. tracks t1 fs' \<and> length fs' \<le> Suc (scriptOff t)"
    if "executeOpcode c (scripts t ! scriptIdx t ! scriptOff t) t = Inr t1" for t1
    using executeOpcode_tracks [OF that fs(1) room] cond_next_grows fs(2) by (metis Suc_le_mono order_trans)
  have keep: "small_scripts t1" if "frame t t1" for t1
    using that small by (auto simp: small_scripts_def frame_def pinned_def)
  show ?thesis
    using assms(1)
  proof (cases rule: Step_cases)
    case (returned t1)
    note r = checked.run_success [OF returned(1)]
    then have "tracks t1 []" using fs(1) tracks_nil [OF fs(1)] by (auto simp: tracks_def)
    then show ?thesis using returned(2) r small by (auto simp: well_nested_def tracks_def small_scripts_def shiftScript_def)
  next
    case (next_op t1)
    have "scriptOff t1 = scriptOff t" using next_op(2) by (simp add: frame_def pinned_def)
    then show ?thesis
      using op [OF next_op(1)] keep [OF next_op(2)] next_op(3) by (auto simp: well_nested_def tracks_between small_scripts_def)
  next
    case (end_script t1 t2)
    have "tracks t1 []" using op [OF end_script(1)] tracks_done [OF end_script(3)] by blast
    then have "tracks t2 []" by (simp add: tracks_bip16_shift(1) [OF end_script(4)] tracks_between)
    moreover have "small_scripts t2"
      using tracks_bip16_shift(2) [OF end_script(4)] keep [OF end_script(2)] by (simp add: small_scripts_def shiftScript_def)
    ultimately have "tracks t' []" "small_scripts t'"
      using end_script(5) by (simp_all add: tracks_between) (simp add: small_scripts_def skip_empty_def)
    then show ?thesis by (auto simp: well_nested_def)
  qed
qed

text \<open>(C16) In every reachable thread the two stacks of the code represent a list of open conditionals, of the specification,
  that is no longer than the number of opcodes run in the current script.\<close>

theorem reachable_well_nested:
  assumes "reachable c o' t"
  shows "\<exists>fs. tracks t fs \<and> length fs \<le> scriptOff t"
proof -
  have "well_nested t"
    using assms
  proof (induction rule: reachable.induct)
    case (start t)
    then have "tracks t []" using createThread_fresh(1,6) [OF start] by (auto simp: tracks_def fresh_def)
    then show ?case using createThread_small [OF start] by (auto simp: well_nested_def)
  qed (rule Step_well_nested)
  then show ?thesis by (simp add: well_nested_def)
qed

theorem reachable_well_nested_witness:
  "\<exists>t fs. reachable demo_crypto (demo_opts [0xAC]) t \<and> tracks t fs \<and> length fs \<le> scriptOff t"
  using demo_reachable reachable_well_nested [of demo_crypto "demo_opts [0xAC]"] by blast


definition demo_thread :: "bytes list \<Rightarrow> thread" where
  "demo_thread xs = (zero_thread False)\<lparr>dstack := (newStack BeforeGenesisConfig False)\<lparr>stk := xs\<rparr>\<rparr>"

abbreviation demo_op :: "byte \<Rightarrow> ParsedOpcode" where
  "demo_op b \<equiv> \<lparr>op = opcode_at b, Data = []\<rparr>"

lemma demo_if: "case executeOpcode demo_crypto (demo_op OpIF) (demo_thread [[1]]) of Inl _ \<Rightarrow> False | Inr t \<Rightarrow> True"
  by code_simp


end
