(* ===== verification/Shift_Ops.thy ===== *)
theory Shift_Ops
  imports Data_Ops
begin

text \<open>
  OP_LSHIFT and OP_RSHIFT shift the big-endian number of a byte string. First the loops are read byte by byte: each byte
  of the result has the bits of two neighbouring bytes of the operand. Then the bits are counted.
\<close>

subsection \<open>The bits of a big-endian number\<close>

lemma bit_le_val: "bit (le_val bs) j \<longleftrightarrow> j div 8 < length bs \<and> bit (bs ! (j div 8)) (j mod 8)"
proof (induction bs arbitrary: j)
  case (Cons b bs)
  let ?v = "le_val (b # bs)"
  have lo: "take_bit 8 ?v = unat b" using unat_byte_lt [of b] by (simp add: take_bit_nat_def del: unat_byte_lt)
  have hi: "drop_bit 8 ?v = le_val bs" using unat_byte_lt [of b] by (simp add: drop_bit_nat_def del: unat_byte_lt)
  show ?case
  proof (cases "j < 8")
    case True
    then have "bit ?v j = bit (take_bit 8 ?v) j" by (simp add: bit_take_bit_iff)
    then show ?thesis using True lo by (simp add: bit_unsigned_iff)
  next
    case False
    then have "bit ?v j = bit (drop_bit 8 ?v) (j - 8)" by (simp add: bit_drop_bit_eq)
    moreover have "j div 8 = Suc ((j - 8) div 8)" "j mod 8 = (j - 8) mod 8"
      using False by (simp_all add: le_div_geq le_mod_geq)
    ultimately show ?thesis using hi Cons by simp
  qed
qed simp

lemma bit_be_val:
  "bit (be_val bs) j \<longleftrightarrow> j div 8 < length bs \<and> bit (bs ! (length bs - 1 - j div 8)) (j mod 8)"
  by (auto simp: be_val_def bit_le_val rev_nth)

subsection \<open>The bytes of the result\<close>

lemma below_8: "b < 8 \<Longrightarrow> b = 0 \<or> b = 1 \<or> b = 2 \<or> b = 3 \<or> b = 4 \<or> b = 5 \<or> b = 6 \<or> b = (7 :: nat)"
  by linarith

lemma lshift_masks:
  fixes v :: byte
  assumes "b < 8"
  shows "push_bit b (v AND [0xFF, 0x7F, 0x3F, 0x1F, 0x0F, 0x07, 0x03, 0x01] ! b) = push_bit b v"
    "drop_bit (8 - b) (v AND NOT ([0xFF, 0x7F, 0x3F, 0x1F, 0x0F, 0x07, 0x03, 0x01] ! b)) = drop_bit (8 - b) v"
proof -
  have m: "[0xFF, 0x7F, 0x3F, 0x1F, 0x0F, 0x07, 0x03, 0x01] ! b = (mask (8 - b) :: byte)"
    using below_8 [OF assms] by (elim disjE) (simp_all add: mask_eq_exp_minus_1)
  show "push_bit b (v AND [0xFF, 0x7F, 0x3F, 0x1F, 0x0F, 0x07, 0x03, 0x01] ! b) = push_bit b v"
    "drop_bit (8 - b) (v AND NOT ([0xFF, 0x7F, 0x3F, 0x1F, 0x0F, 0x07, 0x03, 0x01] ! b)) = drop_bit (8 - b) v"
    unfolding m by (rule bit_word_eqI; auto simp: bit_simps dest: bit_imp_le_length)+
qed

lemma rshift_masks:
  fixes v :: byte
  assumes "b < 8"
  shows "drop_bit b (v AND [0xFF, 0xFE, 0xFC, 0xF8, 0xF0, 0xE0, 0xC0, 0x80] ! b) = drop_bit b v"
    "push_bit (8 - b) (v AND NOT ([0xFF, 0xFE, 0xFC, 0xF8, 0xF0, 0xE0, 0xC0, 0x80] ! b)) = push_bit (8 - b) v"
proof -
  have m: "[0xFF, 0xFE, 0xFC, 0xF8, 0xF0, 0xE0, 0xC0, 0x80] ! b = (NOT (mask b) :: byte)"
    using below_8 [OF assms] by (elim disjE) (simp_all add: mask_eq_exp_minus_1)
  show "drop_bit b (v AND [0xFF, 0xFE, 0xFC, 0xF8, 0xF0, 0xE0, 0xC0, 0x80] ! b) = drop_bit b v"
    "push_bit (8 - b) (v AND NOT ([0xFF, 0xFE, 0xFC, 0xF8, 0xF0, 0xE0, 0xC0, 0x80] ! b)) = push_bit (8 - b) v"
    unfolding m by (rule bit_word_eqI; auto simp: bit_simps dest: bit_imp_le_length)+
qed

lemma lshift_step_nth:
  assumes "b < 8" "length r = length x" "m < length x" "k < length x"
  shows "lshift_step x b B r m ! k = (r ! k OR (if m = k + B then push_bit b (x ! m) else 0))
    OR (if m = k + B + 1 then drop_bit (8 - b) (x ! m) else 0)"
  using assms
  by (cases "B \<le> m"; cases "m = k + B"; cases "m = k + B + 1")
    (auto simp: lshift_step_def lshift_masks Let_def nth_list_update simp del: push_bit_and drop_bit_and)

lemma length_lshift_step [simp]: "length (lshift_step x b B r m) = length r"
  by (simp add: lshift_step_def Let_def)

lemma length_foldl_step: "(\<And>r m. length (f r m) = length r) \<Longrightarrow> length (foldl f r ms) = length r"
  by (induction ms arbitrary: r) auto

lemma lshift_loop:
  assumes "b < 8" "m \<le> length x" "k < length x"
  shows "foldl (lshift_step x b B) (replicate (length x) 0) (rev [m..<length x]) ! k =
      (if m \<le> k + B \<and> k + B < length x then push_bit b (x ! (k + B)) else 0)
      OR (if m \<le> k + B + 1 \<and> k + B + 1 < length x then drop_bit (8 - b) (x ! (k + B + 1)) else 0)"
  using assms(2)
proof (induction "length x - m" arbitrary: m)
  case 0
  then show ?case using assms(3) by auto
next
  case (Suc d)
  then have m: "m < length x" "d = length x - Suc m" by simp_all
  have r: "rev [m..<length x] = rev [Suc m..<length x] @ [m]" using m(1) by (simp add: upt_conv_Cons)
  note IH = Suc.hyps(1) [OF m(2)]
  let ?F = "foldl (lshift_step x b B) (replicate (length x) 0)"
  have "?F (rev [m..<length x]) ! k = (?F (rev [Suc m..<length x]) ! k OR (if m = k + B then push_bit b (x ! m) else 0))
    OR (if m = k + B + 1 then drop_bit (8 - b) (x ! m) else 0)"
    unfolding r using lshift_step_nth [OF assms(1) _ m(1) assms(3)] by (simp add: length_foldl_step)
  then show ?case
    using IH m assms(3) by (cases "m = k + B"; cases "m = k + B + 1") (auto simp: or.commute)
qed

lemma rshift_step_nth:
  assumes "b < 8" "length r = length x" "m < length x" "k < length x"
  shows "rshift_step x b B r m ! k = (r ! k OR (if m + B = k then drop_bit b (x ! m) else 0))
    OR (if m + B + 1 = k then push_bit (8 - b) (x ! m) else 0)"
  using assms
  by (cases "m + B = k"; cases "m + B + 1 = k")
    (auto simp: rshift_step_def rshift_masks Let_def nth_list_update simp del: push_bit_and drop_bit_and)

lemma length_rshift_step [simp]: "length (rshift_step x b B r m) = length r"
  by (simp add: rshift_step_def Let_def)

lemma rshift_loop:
  assumes "b < 8" "m \<le> length x" "k < length x"
  shows "foldl (rshift_step x b B) (replicate (length x) 0) [0..<m] ! k =
      (if B \<le> k \<and> k - B < m then drop_bit b (x ! (k - B)) else 0)
      OR (if B + 1 \<le> k \<and> k - B - 1 < m then push_bit (8 - b) (x ! (k - B - 1)) else 0)"
  using assms(2)
proof (induction m)
  case 0
  then show ?case using assms(3) by auto
next
  case (Suc m)
  then show ?case
    using assms(3) rshift_step_nth [OF assms(1) _ _ assms(3)]
    by (cases "m + B = k"; cases "m + B + 1 = k") (auto simp: length_foldl_step or.commute)
qed

subsection \<open>The shifted numbers\<close>

lemma length_shift [simp]: "length (lshift_bytes n x) = length x" "length (rshift_bytes n x) = length x"
  by (simp_all add: lshift_bytes_def rshift_bytes_def length_foldl_step)

lemma lshift_nth:
  assumes "k < length x"
  shows "lshift_bytes n x ! k = (if k + n div 8 < length x then push_bit (n mod 8) (x ! (k + n div 8)) else 0)
    OR (if k + n div 8 + 1 < length x then drop_bit (8 - n mod 8) (x ! (k + n div 8 + 1)) else 0)"
  using lshift_loop [of "n mod 8" 0 x k "n div 8"] assms by (simp add: lshift_bytes_def)

lemma rshift_nth:
  assumes "k < length x"
  shows "rshift_bytes n x ! k = (if n div 8 \<le> k then drop_bit (n mod 8) (x ! (k - n div 8)) else 0)
    OR (if n div 8 + 1 \<le> k then push_bit (8 - n mod 8) (x ! (k - n div 8 - 1)) else 0)"
proof -
  have "k - n div 8 < length x" "k - n div 8 - 1 < length x" using assms by linarith+
  then show ?thesis
    using rshift_loop [of "n mod 8" "length x" x k "n div 8"] assms by (simp add: rshift_bytes_def)
qed

lemma bit_byte_shift:
  fixes v :: byte
  assumes "r < 8" "b < 8"
  shows "bit (push_bit b v) r \<longleftrightarrow> b \<le> r \<and> bit v (r - b)" "bit (drop_bit (8 - b) v) r \<longleftrightarrow> r < b \<and> bit v (r + 8 - b)"
    "bit (drop_bit b v) r \<longleftrightarrow> r + b < 8 \<and> bit v (r + b)" "bit (push_bit (8 - b) v) r \<longleftrightarrow> 8 \<le> r + b \<and> bit v (r + b - 8)"
  using assms by (auto simp: bit_push_bit_iff bit_drop_bit_eq add.commute dest: bit_imp_le_length)

lemma sub_digits:
  assumes "j = 8 * q + r" "n = 8 * B + b" "r < 8" "b < (8 :: nat)" "n \<le> j"
  shows "b \<le> r \<Longrightarrow> (j - n) div 8 = q - B \<and> (j - n) mod 8 = r - b \<and> B \<le> q"
    "r < b \<Longrightarrow> (j - n) div 8 = q - B - 1 \<and> (j - n) mod 8 = r + 8 - b \<and> B + 1 \<le> q"
proof -
  have aux: "(8 * a + c) div 8 = a \<and> (8 * a + c) mod 8 = c" if "c < 8" for a c :: nat
    using that by simp
  show "(j - n) div 8 = q - B \<and> (j - n) mod 8 = r - b \<and> B \<le> q" if "b \<le> r"
  proof -
    have "B \<le> q" using assms that by linarith
    moreover then have "j - n = 8 * (q - B) + (r - b)" using assms that by (simp add: diff_mult_distrib2)
    ultimately show ?thesis using aux [of "r - b" "q - B"] assms(3) by simp
  qed
  show "(j - n) div 8 = q - B - 1 \<and> (j - n) mod 8 = r + 8 - b \<and> B + 1 \<le> q" if "r < b"
  proof -
    have "B + 1 \<le> q" using assms that by linarith
    moreover then obtain a where "q = a + B + 1" using le_Suc_ex by (metis add.commute add.assoc)
    then have "j - n = 8 * (q - B - 1) + (r + 8 - b)" using assms that by simp
    ultimately show ?thesis using aux [of "r + 8 - b" "q - B - 1"] that assms(4) by simp
  qed
qed

lemma be_val_lshift: "be_val (lshift_bytes n x) = take_bit (8 * length x) (push_bit n (be_val x))"
proof (rule bit_eqI)
  fix j :: nat
  define q r B b where "q = j div 8" and "r = j mod 8" and "B = n div 8" and "b = n mod 8"
  have d: "j = 8 * q + r" "n = 8 * B + b" "r < 8" "b < 8" by (simp_all add: q_def r_def B_def b_def)
  show "bit (be_val (lshift_bytes n x)) j \<longleftrightarrow> bit (take_bit (8 * length x) (push_bit n (be_val x))) j"
  proof (cases "q < length x")
    case False
    then have "\<not> j < 8 * length x" using d(1) by linarith
    then show ?thesis using False by (simp add: bit_be_val bit_take_bit_iff flip: q_def)
  next
    case True
    let ?k = "length x - 1 - q"
    have k: "?k < length x" "?k + B < length x \<longleftrightarrow> B \<le> q" "?k + B + 1 < length x \<longleftrightarrow> B + 1 \<le> q"
      using True by linarith+
    have lhs: "bit (be_val (lshift_bytes n x)) j \<longleftrightarrow> (B \<le> q \<and> b \<le> r \<and> bit (x ! (?k + B)) (r - b))
        \<or> (B + 1 \<le> q \<and> r < b \<and> bit (x ! (?k + B + 1)) (r + 8 - b))"
      using True k lshift_nth [OF k(1), of n] bit_byte_shift [OF d(3,4)]
      by (auto simp: bit_be_val bit_or_iff simp flip: q_def r_def B_def b_def)
    have len: "j < 8 * length x" using True d(1,3) by linarith
    have rhs: "bit (take_bit (8 * length x) (push_bit n (be_val x))) j \<longleftrightarrow> n \<le> j \<and> bit (be_val x) (j - n)"
      using len by (auto simp: bit_take_bit_iff bit_push_bit_iff)
    show ?thesis
    proof (cases "b \<le> r")
      case br: True
      have nj: "n \<le> j \<longleftrightarrow> B \<le> q" using d br by linarith
      have "?k + B = length x - 1 - (q - B)" if "B \<le> q" using that True by linarith
      then show ?thesis using lhs rhs br nj sub_digits(1) [OF d _ br] True by (auto simp: bit_be_val)
    next
      case br: False
      have nj: "n \<le> j \<longleftrightarrow> B + 1 \<le> q" using d br by linarith
      have "?k + B + 1 = length x - 1 - (q - B - 1)" if "B + 1 \<le> q" using that True by linarith
      then show ?thesis using lhs rhs br nj sub_digits(2) [OF d] True by (auto simp: bit_be_val not_le)
    qed
  qed
qed

lemma add_digits:
  assumes "j = 8 * q + r" "n = 8 * B + b" "r < 8" "b < (8 :: nat)"
  shows "r + b < 8 \<Longrightarrow> (j + n) div 8 = q + B \<and> (j + n) mod 8 = r + b"
    "8 \<le> r + b \<Longrightarrow> (j + n) div 8 = q + B + 1 \<and> (j + n) mod 8 = r + b - 8"
proof -
  have aux: "(8 * a + c) div 8 = a \<and> (8 * a + c) mod 8 = c" if "c < 8" for a c :: nat
    using that by simp
  show "(j + n) div 8 = q + B \<and> (j + n) mod 8 = r + b" if "r + b < 8"
  proof -
    have "j + n = 8 * (q + B) + (r + b)" using assms by simp
    then show ?thesis using aux [of "r + b" "q + B"] that by simp
  qed
  show "(j + n) div 8 = q + B + 1 \<and> (j + n) mod 8 = r + b - 8" if "8 \<le> r + b"
  proof -
    have "j + n = 8 * (q + B + 1) + (r + b - 8)" using assms that by simp
    then show ?thesis using aux [of "r + b - 8" "q + B + 1"] assms(3,4) by simp
  qed
qed

lemma be_val_rshift: "be_val (rshift_bytes n x) = drop_bit n (be_val x)"
proof (rule bit_eqI)
  fix j :: nat
  define q r B b where "q = j div 8" and "r = j mod 8" and "B = n div 8" and "b = n mod 8"
  have d: "j = 8 * q + r" "n = 8 * B + b" "r < 8" "b < 8" by (simp_all add: q_def r_def B_def b_def)
  have rhs: "bit (drop_bit n (be_val x)) j = bit (be_val x) (j + n)" by (simp add: bit_drop_bit_eq add.commute)
  show "bit (be_val (rshift_bytes n x)) j \<longleftrightarrow> bit (drop_bit n (be_val x)) j"
  proof (cases "q < length x")
    case False
    have "q \<le> (j + n) div 8" using add_digits [OF d] by (cases "r + b < 8") auto
    then show ?thesis using False rhs by (simp add: bit_be_val flip: q_def)
  next
    case True
    let ?k = "length x - 1 - q"
    have k: "?k < length x" "B \<le> ?k \<longleftrightarrow> q + B < length x" "B + 1 \<le> ?k \<longleftrightarrow> q + B + 1 < length x"
      using True by linarith+
    have lhs: "bit (be_val (rshift_bytes n x)) j \<longleftrightarrow> (q + B < length x \<and> r + b < 8 \<and> bit (x ! (?k - B)) (r + b))
        \<or> (q + B + 1 < length x \<and> 8 \<le> r + b \<and> bit (x ! (?k - B - 1)) (r + b - 8))"
      using True k rshift_nth [OF k(1), of n] bit_byte_shift [OF d(3,4)]
      by (auto simp: bit_be_val bit_or_iff simp flip: q_def r_def B_def b_def)
    have i: "?k - B = length x - 1 - (q + B)" "?k - B - 1 = length x - 1 - (q + B + 1)" by linarith+
    show ?thesis
    proof (cases "r + b < 8")
      case br: True
      then show ?thesis using lhs rhs i add_digits(1) [OF d br] by (simp add: bit_be_val)
    next
      case br: False
      then show ?thesis using lhs rhs i add_digits(2) [OF d] by (auto simp: bit_be_val not_less)
    qed
  qed
qed

text \<open>(C20) OP_LSHIFT and OP_RSHIFT shift a byte string as the big-endian number it stands for, keeping its length: to the
  left modulo the size of the string, to the right dropping the low bits. This holds for every shift, of whole bytes too.\<close>

theorem shifts_are_arithmetic:
  "be_val (lshift_bytes n x) = be_val x * 2 ^ n mod 256 ^ length x \<and> be_val (rshift_bytes n x) = be_val x div 2 ^ n
   \<and> length (lshift_bytes n x) = length x \<and> length (rshift_bytes n x) = length x"
  by (simp add: be_val_lshift be_val_rshift take_bit_nat_def push_bit_nat_def drop_bit_nat_def pow_256)

end
