(* ===== verification/Sig_Encoding.thy ===== *)
theory Sig_Encoding
  imports Conditionals
begin

text \<open>
  The encoding of signatures. \<open>checkSignatureEncoding\<close> reads offsets and lengths out of the bytes, one check after the
  other; the reference is the shape of a strict DER signature, written as a list of bytes.
\<close>

text \<open>A positive integer in DER: not empty, no sign bit, no leading zero but to clear the sign bit.\<close>

definition der_int :: "bytes \<Rightarrow> bool" where
  "der_int r = (r \<noteq> [] \<and> unat (hd r) < 128 \<and> (hd r = 0 \<longrightarrow> length r = 1 \<or> unat (r ! 1) \<ge> 128))"

definition der_sig :: "bytes \<Rightarrow> bytes \<Rightarrow> bytes" where
  "der_sig r s = [0x30, word_of_nat (length r + length s + 4), 0x02, word_of_nat (length r)] @ r
     @ [0x02, word_of_nat (length s)] @ s"

text \<open>A signature cut at the offsets the code reads.\<close>

lemma nth_header:
  "(a # b # c # d # ys) ! 0 = a" "(a # b # c # d # ys) ! 1 = b" "(a # b # c # d # ys) ! 2 = c" "(a # b # c # d # ys) ! 3 = d"
  "(a # b # c # d # ys) ! (4 + k) = ys ! k" "drop (4 + k) (a # b # c # d # ys) = drop k ys"
  by (simp_all add: eval_nat_numeral)

lemma cut_header:
  assumes "4 \<le> length sig"
  obtains a b c d ys where "sig = a # b # c # d # ys"
  using assms by (auto simp: numeral_eq_Suc Suc_le_length_iff)

lemma cut_sig:
  assumes "4 + unat (sig ! 3) + 1 < length sig"
  obtains a b c d r e f s where "sig = a # b # c # d # r @ e # f # s" "unat d = length r"
proof -
  obtain a b c d ys where sig: "sig = a # b # c # d # ys" using assms by (auto intro: cut_header [of sig])
  have d: "unat d + 1 < length ys" using assms by (simp add: sig nth_header)
  then obtain e f s where "drop (unat d) ys = e # f # s"
    by (metis (no_types) Cons_nth_drop_Suc Suc_eq_plus1 Suc_lessD)
  then have "ys = take (unat d) ys @ e # f # s" by (metis append_take_drop_id)
  then show thesis using that [of a b c d "take (unat d) ys" e f s] sig d by simp
qed

lemma check_cut:
  fixes a b c d e f :: byte and r s :: bytes
  defines "sig \<equiv> a # b # c # d # r @ e # f # s"
  assumes "hasAny t [VerifyDERSignatures, VerifyLowS, VerifyStrictEncoding]" "unat d = length r"
  shows "checkSignatureEncoding t sig = (Inr () :: 's fault + unit) \<longleftrightarrow>
    8 \<le> length sig \<and> length sig \<le> 72 \<and> a = 0x30 \<and> unat b = length sig - 2 \<and> length s = unat f \<and> c = 0x02
    \<and> der_int r \<and> e = 0x02 \<and> der_int s \<and> (hasFlag t VerifyLowS \<longrightarrow> int (be_val s) \<le> halfOrder)"
proof -
  have idx: "sig ! 0 = a" "sig ! 1 = b" "sig ! 2 = c" "sig ! 3 = d" "sig ! (4 + length r) = e" "sig ! (4 + length r + 1) = f"
    "drop (4 + length r + 1 + 1) sig = s"
    unfolding sig_def by (simp_all only: nth_header add.assoc) (simp_all add: nth_append)
  have off: "sig ! (4 + length r + 1 + 1) = s ! 0" "sig ! (4 + length r + 1 + 1 + 1) = s ! 1"
    unfolding sig_def by (simp_all only: nth_header add.assoc) (simp_all add: nth_append)
  have r: "r \<noteq> [] \<Longrightarrow> sig ! 4 = hd r" "1 < length r \<Longrightarrow> sig ! 5 = r ! 1"
    using nth_header(5) [of a b c d "r @ e # f # s" 0] nth_header(5) [of a b c d "r @ e # f # s" 1]
    unfolding sig_def by (auto simp: nth_append hd_conv_nth)
  have s: "s \<noteq> [] \<Longrightarrow> s ! 0 = hd s" by (simp add: hd_conv_nth)
  have len: "length sig = 6 + length r + length s" by (simp add: sig_def)
  have der: "der_int x \<longleftrightarrow> length x \<noteq> 0 \<and> hd x AND 0x80 = 0 \<and> \<not> (length x > 1 \<and> hd x = 0 \<and> x ! 1 AND 0x80 = 0)" for x
    by (cases x) (auto simp: der_int_def and_0x80_eq_0)
  have places: "(length sig \<le> 4 + length r) = False" "(length sig \<le> 4 + length r + 1) = False"
    "(4 + length r + 1 + 1 + unat f \<noteq> length sig) = (length s \<noteq> unat f)"
    using len by auto
  have step: "(if p then Inl x else q) = (Inr y :: 's fault + unit) \<longleftrightarrow> \<not> p \<and> q = Inr y" for p x q y by simp
  have "checkSignatureEncoding t sig = (Inr () :: 's fault + unit) \<longleftrightarrow>
    \<not> length sig < 8 \<and> \<not> length sig > 72 \<and> a = 0x30 \<and> unat b = length sig - 2 \<and> length s = unat f \<and> c = 0x02
    \<and> length r \<noteq> 0 \<and> sig ! 4 AND 0x80 = 0 \<and> \<not> (length r > 1 \<and> sig ! 4 = 0 \<and> sig ! 5 AND 0x80 = 0) \<and> e = 0x02
    \<and> unat f \<noteq> 0 \<and> s ! 0 AND 0x80 = 0 \<and> \<not> (unat f > 1 \<and> s ! 0 = 0 \<and> s ! 1 AND 0x80 = 0)
    \<and> \<not> (hasFlag t VerifyLowS \<and> int (be_val (take (unat f) s)) > halfOrder)"
    unfolding checkSignatureEncoding_def Let_def idx off assms(3)
    by (simp only: idx off step assms(2) not_True_eq_False if_False)
      (simp only: places not_not simp_thms not_False_eq_True)
  also have "\<dots> \<longleftrightarrow> 8 \<le> length sig \<and> length sig \<le> 72 \<and> a = 0x30 \<and> unat b = length sig - 2 \<and> length s = unat f \<and> c = 0x02
    \<and> (length r \<noteq> 0 \<and> sig ! 4 AND 0x80 = 0 \<and> \<not> (length r > 1 \<and> sig ! 4 = 0 \<and> sig ! 5 AND 0x80 = 0)) \<and> e = 0x02
    \<and> (length s \<noteq> 0 \<and> s ! 0 AND 0x80 = 0 \<and> \<not> (length s > 1 \<and> s ! 0 = 0 \<and> s ! 1 AND 0x80 = 0))
    \<and> (hasFlag t VerifyLowS \<longrightarrow> int (be_val s) \<le> halfOrder)"
    by (cases "unat f = length s") (simp_all add: linorder_not_less eq_commute [of "length s" "unat f"])
  also have "(length r \<noteq> 0 \<and> sig ! 4 AND 0x80 = 0 \<and> \<not> (length r > 1 \<and> sig ! 4 = 0 \<and> sig ! 5 AND 0x80 = 0)) = der_int r"
    using r by (cases "r = []") (auto simp: der)
  also have "(length s \<noteq> 0 \<and> s ! 0 AND 0x80 = 0 \<and> \<not> (length s > 1 \<and> s ! 0 = 0 \<and> s ! 1 AND 0x80 = 0)) = der_int s"
    using s by (cases "s = []") (auto simp: der)
  finally show ?thesis .
qed

lemma check_cut_exists:
  assumes "hasAny t [VerifyDERSignatures, VerifyLowS, VerifyStrictEncoding]"
    and "checkSignatureEncoding t sig = (Inr () :: 's fault + unit)"
  shows "4 + unat (sig ! 3) + 1 < length sig"
  using assms unfolding checkSignatureEncoding_def Let_def by (simp split: if_splits)

lemma check_der:
  assumes flags: "hasAny t [VerifyDERSignatures, VerifyLowS, VerifyStrictEncoding]"
    and sig: "sig = der_sig r s" "length sig \<le> 72" "der_int r" "der_int s" "hasFlag t VerifyLowS \<longrightarrow> int (be_val s) \<le> halfOrder"
  shows "checkSignatureEncoding t sig = (Inr () :: 's fault + unit)"
proof -
  have len: "length sig = length r + length s + 6" "0 < length r" "0 < length s"
    using sig(1,3,4) by (auto simp: der_sig_def der_int_def)
  have w: "unat (word_of_nat n :: byte) = n" if "n \<le> 72" for n using that by (simp add: unat_of_nat take_bit_nat_eq_self)
  have le: "length r \<le> 72" "length s \<le> 72" "length r + length s + 4 \<le> 72" "2 \<le> length r + length s"
    using len sig(2) by linarith+
  note le(1) [THEN w] le(2) [THEN w] le(3) [THEN w] le(4)
  then show "checkSignatureEncoding t sig = (Inr () :: 's fault + unit)"
    using check_cut [OF flags le(1) [THEN w], where a = "0x30" and b = "word_of_nat (length r + length s + 4)" and c = "0x02"
        and e = "0x02" and f = "word_of_nat (length s)" and s = s and 's = 's]
      sig len by (simp add: der_sig_def)
qed

text \<open>(C19) Under any of the three encoding flags a signature passes \<open>checkSignatureEncoding\<close> exactly if it is the strict DER
  encoding of two positive integers, at most 72 bytes long, whose second is not above half the group order when the low S
  flag is set.\<close>

theorem checkSignatureEncoding_iff:
  assumes "HasAny (thFlags t) [VerifyDERSignatures, VerifyLowS, VerifyStrictEncoding]"
  shows "checkSignatureEncoding t sig = (Inr () :: 's fault + unit) \<longleftrightarrow>
    (\<exists>r s. sig = der_sig r s \<and> length sig \<le> 72 \<and> der_int r \<and> der_int s
      \<and> (HasFlag (thFlags t) VerifyLowS \<longrightarrow> int (be_val s) \<le> halfOrder))"
proof
  have flags: "hasAny t [VerifyDERSignatures, VerifyLowS, VerifyStrictEncoding]" using assms by (simp add: hasAny_def)
  have byte: "(word_of_nat n :: byte) = b" if "unat b = n" for n b using that by auto
  {
    assume ok: "checkSignatureEncoding t sig = (Inr () :: 's fault + unit)"
    obtain a b c d r e f s where sig: "sig = a # b # c # d # r @ e # f # s" "unat d = length r"
      using cut_sig [OF check_cut_exists [OF flags ok]] .
    note * = ok [unfolded sig(1) check_cut [OF flags sig(2)]]
    have "sig = der_sig r s"
      using * sig byte [of b] byte [of d] byte [of f] by (simp add: der_sig_def add_ac)
    moreover have "length sig \<le> 72" using * sig(1) by simp
    ultimately show "\<exists>r s. sig = der_sig r s \<and> length sig \<le> 72 \<and> der_int r \<and> der_int s
      \<and> (HasFlag (thFlags t) VerifyLowS \<longrightarrow> int (be_val s) \<le> halfOrder)"
      using * by (auto simp: hasFlag_def)
  }
  assume "\<exists>r s. sig = der_sig r s \<and> length sig \<le> 72 \<and> der_int r \<and> der_int s
      \<and> (HasFlag (thFlags t) VerifyLowS \<longrightarrow> int (be_val s) \<le> halfOrder)"
  then obtain r s where sig: "sig = der_sig r s" "length sig \<le> 72" "der_int r" "der_int s"
    "HasFlag (thFlags t) VerifyLowS \<longrightarrow> int (be_val s) \<le> halfOrder" by blast
  then show "checkSignatureEncoding t sig = (Inr () :: 's fault + unit)"
    by (intro check_der [OF flags]) (simp_all add: hasFlag_def)
qed

theorem checkSignatureEncoding_iff_witness:
  "checkSignatureEncoding ((demo_thread [])\<lparr>thFlags := VerifyDERSignatures\<rparr>) (der_sig [1] [2]) = (Inr () :: unit fault + unit)"
proof -
  let ?t = "(demo_thread [])\<lparr>thFlags := VerifyDERSignatures\<rparr>"
  have flags: "HasAny (thFlags ?t) [VerifyDERSignatures, VerifyLowS, VerifyStrictEncoding]" "\<not> HasFlag (thFlags ?t) VerifyLowS"
    by (simp_all add: HasFlag_def)
  have "length (der_sig [1] [2]) \<le> 72" "der_int [1]" "der_int [2]" by (simp_all add: der_sig_def der_int_def)
  then show ?thesis
    using checkSignatureEncoding_iff [OF flags(1), of "der_sig [1] [2]", where 's = unit] flags(2) by blast
qed

end
