(* ===== verification/Multisig.thy ===== *)
theory Multisig
  imports Data_Ops "HOL-Library.Sublist"
begin

text \<open>
  OP_CHECKMULTISIG tries the keys in order, once each, and moves to the next signature when one verifies. The reference
  is a matching: every signature verifies under a key of its own, in the order of the keys. The loop also keeps what it has
  parsed of a signature; the lemmas show that this does not change what it finds.
\<close>

subsection \<open>Greedy matching\<close>

fun greedy :: "('s \<Rightarrow> 'k \<Rightarrow> bool) \<Rightarrow> 's list \<Rightarrow> 'k list \<Rightarrow> bool" where
  "greedy ok [] ks = True"
| "greedy ok (s # ss) [] = False"
| "greedy ok (s # ss) (k # ks) = (length ss \<le> length ks \<and> greedy ok (if ok s k then ss else s # ss) ks)"

lemma greedy_iff: "greedy ok ss ks \<longleftrightarrow> (\<exists>ks'. subseq ks' ks \<and> list_all2 ok ss ks')"
proof (induction ok ss ks rule: greedy.induct)
  case (3 ok s ss k ks)
  have len: "length ss \<le> length ks" if "subseq ks' (k # ks)" "list_all2 ok (s # ss) ks'" for ks'
    using list_emb_length [OF that(1)] list_all2_lengthD [OF that(2)] by simp
  show ?case
  proof (cases "ok s k")
    case True
    have "(\<exists>ks'. subseq ks' (k # ks) \<and> list_all2 ok (s # ss) ks') \<longleftrightarrow> (\<exists>ks'. subseq ks' ks \<and> list_all2 ok ss ks')"
    proof
      assume "\<exists>ks'. subseq ks' (k # ks) \<and> list_all2 ok (s # ss) ks'"
      then obtain x xs where "subseq (x # xs) (k # ks)" "list_all2 ok ss xs"
        by (metis list_all2_Cons1)
      then show "\<exists>ks'. subseq ks' ks \<and> list_all2 ok ss ks'"
        by (metis subseq_Cons2_iff subseq_Cons')
    next
      assume "\<exists>ks'. subseq ks' ks \<and> list_all2 ok ss ks'"
      then show "\<exists>ks'. subseq ks' (k # ks) \<and> list_all2 ok (s # ss) ks'"
        using True by (metis list_all2_Cons subseq_Cons2)
    qed
    then show ?thesis using True 3 len by auto
  next
    case False
    have "(\<exists>ks'. subseq ks' (k # ks) \<and> list_all2 ok (s # ss) ks') \<longleftrightarrow> (\<exists>ks'. subseq ks' ks \<and> list_all2 ok (s # ss) ks')"
      using False by (metis list_all2_Cons1 subseq_Cons2_neq list_emb_Cons)
    then show ?thesis using False 3 len by auto
  qed
qed (auto dest!: list_emb_Nil2)

lemma subseq_rev: "subseq (rev xs) (rev ys) = subseq xs ys"
proof -
  have "subseq (rev xs) (rev ys)" if "subseq xs ys" for xs ys :: "'x list"
    using that by induction (auto intro: list_emb_append2 list_emb_append_mono subseq_rev_drop_many)
  then show ?thesis by (metis rev_rev_ident)
qed

lemma matching_rev:
  "(\<exists>ks'. subseq ks' (rev ks) \<and> list_all2 ok (rev ss) ks') \<longleftrightarrow> (\<exists>ks'. subseq ks' ks \<and> list_all2 ok ss ks')"
proof -
  have "list_all2 ok (rev ss) ks' = list_all2 ok ss (rev ks')" for ks'
    using list_all2_rev [of ok ss "rev ks'"] by simp
  then show ?thesis by (metis rev_rev_ident subseq_rev)
qed

subsection \<open>One round\<close>

abbreviation fresh_sig :: "bytes \<Rightarrow> 'sg parsedSigInfo" where
  "fresh_sig sig \<equiv> \<lparr>signature = sig, parsedSignature = None, parsed = False\<rparr>"

definition cached_sig :: "('pk, 'sg) crypto \<Rightarrow> thread \<Rightarrow> bytes \<Rightarrow> 'sg parsedSigInfo" where
  "cached_sig c t sig = (if sig = [] then fresh_sig sig
     else \<lparr>signature = sig, parsedSignature = parse_sig c t (butlast sig), parsed = True\<rparr>)"

lemma multisig_try_cached:
  assumes "multisig_try c t scr (fresh_sig sig) pk = Inr (Some (ok, info))"
  shows "info = cached_sig c t sig" "multisig_try c t scr (cached_sig c t sig) pk = Inr (Some (ok, info))"
proof -
  have or: "or_false r f = Inr (Some x) \<longleftrightarrow> (\<exists>y. r = Inr y \<and> f y = Inr (Some x))"
    for r :: "'s fault + 'y" and f :: "'y \<Rightarrow> 's fault + 'x option" and x
    by (auto simp: or_false_def split: sum.split fault.split)
  show "info = cached_sig c t sig"
    using assms by (auto simp: multisig_try_def cached_sig_def Let_def rbind_eq_Inr or split: if_splits option.splits)
  then show "multisig_try c t scr (cached_sig c t sig) pk = Inr (Some (ok, info))"
    using assms by (auto simp: multisig_try_def cached_sig_def Let_def rbind_eq_Inr or split: if_splits option.splits)
qed

subsection \<open>The loop\<close>

lemma multisig_loop_greedy:
  assumes tries: "\<And>sig pk. sig \<in> set sigs \<Longrightarrow> pk \<in> set pks \<Longrightarrow>
      \<exists>i. multisig_try c t scr (fresh_sig sig) pk = Inr (Some (ok sig pk, i))"
    and "length infos = length sigs" "\<forall>i<length sigs. infos ! i \<in> {fresh_sig (sigs ! i), cached_sig c t (sigs ! i)}"
    and "k \<le> length pks" "j \<le> length sigs"
  shows "multisig_loop c t scr pks (int (length sigs - j)) (int (length pks - k) + 1) (int k - 1) j infos
    = Inr (Some (greedy ok (drop j sigs) (drop k pks)))"
  using assms(2-)
proof (induction "length pks - k" arbitrary: k j infos)
  case 0
  then show ?case by (cases "drop j sigs") (auto simp: multisig_loop.simps Let_def)
next
  case (Suc d)
  then have k: "k < length pks" "d = length pks - Suc k" by simp_all
  show ?case
  proof (cases "j < length sigs")
    case False
    then show ?thesis by (simp add: multisig_loop.simps)
  next
    case True
    let ?s = "sigs ! j" and ?k = "pks ! k"
    have dr: "drop j sigs = ?s # drop (Suc j) sigs" "drop k pks = ?k # drop (Suc k) pks"
      using True k(1) by (simp_all add: Cons_nth_drop_Suc)
    obtain i where "multisig_try c t scr (fresh_sig ?s) ?k = Inr (Some (ok ?s ?k, i))"
      using tries [of ?s ?k] True k(1) by auto
    from multisig_try_cached [OF this] this
    have attempt: "multisig_try c t scr (infos ! j) ?k = Inr (Some (ok ?s ?k, cached_sig c t ?s))"
      using Suc.prems(2) True by auto
    have inv: "length (infos[j := cached_sig c t ?s]) = length sigs"
      "\<forall>i<length sigs. infos[j := cached_sig c t ?s] ! i \<in> {fresh_sig (sigs ! i), cached_sig c t (sigs ! i)}"
      using Suc.prems True by (auto simp: nth_list_update)
    note IH = Suc.hyps(1) [OF k(2) inv]
    show ?thesis
    proof (cases "length sigs - j \<le> length pks - k")
      case False
      have "int (length pks) - int k < int (length sigs) - int j" "\<not> length sigs - Suc j \<le> length pks - Suc k"
        using False True k(1) by linarith+
      then show ?thesis using True k(1) by (simp add: multisig_loop.simps Let_def dr)
    next
      case le: True
      have le': "\<not> int (length pks) - int k < int (length sigs) - int j" using le True k(1) by linarith
      have "multisig_loop c t scr pks (int (length sigs - j)) (int (length pks - k) + 1) (int k - 1) j infos =
        multisig_loop c t scr pks (if ok ?s ?k then int (length sigs - Suc j) else int (length sigs - j)) (int (length pks - Suc k) + 1)
          (int (Suc k) - 1) (if ok ?s ?k then Suc j else j) (infos[j := cached_sig c t ?s])"
        using le' True k(1) Suc.prems(1) attempt
        by (subst multisig_loop.simps) (simp add: Let_def algebra_simps)
      also have "\<dots> = Inr (Some (greedy ok (drop (if ok ?s ?k then Suc j else j) sigs) (drop (Suc k) pks)))"
        using IH [of "Suc j"] IH [of j] True k(1) by auto
      also have "\<dots> = Inr (Some (greedy ok (drop j sigs) (drop k pks)))"
        using le by (auto simp: dr)
      finally show ?thesis .
    qed
  qed
qed

subsection \<open>The opcode\<close>

lemma pop_n_eq:
  assumes "stk s = ys @ zs" "length (stk s) < 2 ^ 31"
  shows "pop_n (length zs) s acc = Inr (acc @ rev zs, s\<lparr>stk := ys\<rparr>)"
  using assms
proof (induction zs arbitrary: s acc rule: rev_induct)
  case Nil
  then show ?case by (cases s) simp
next
  case (snoc z zs)
  then show ?case by (simp add: PopByteArray_eq butlast_append)
qed

text \<open>The checks and hashes of a signature do not depend on the operation count.\<close>

lemma numOps_irrelevant:
  "hasFlag (t\<lparr>numOps := n\<rparr>) f = hasFlag t f" "hasAny (t\<lparr>numOps := n\<rparr>) ff = hasAny t ff"
  "sig_hash c (t\<lparr>numOps := n\<rparr>) need up shf = sig_hash c t need up shf"
  "(subScript (t\<lparr>numOps := n\<rparr>) :: 's fault + _) = subScript t"
proof -
  have "thTx (t\<lparr>numOps := n\<rparr>) = thTx t" "inputIdx (t\<lparr>numOps := n\<rparr>) = inputIdx t" by simp_all
  then show "sig_hash c (t\<lparr>numOps := n\<rparr>) need up shf = sig_hash c t need up shf" unfolding sig_hash_def by (simp only:)
qed (simp_all add: hasFlag_def hasAny_def subScript_def)

lemma checks_numOps:
  "(checkHashTypeEncoding (t\<lparr>numOps := n\<rparr>) shf :: 's fault + _) = checkHashTypeEncoding t shf"
  "(checkSignatureEncoding (t\<lparr>numOps := n\<rparr>) sig :: 's fault + _) = checkSignatureEncoding t sig"
  "(checkPubKeyEncoding (t\<lparr>numOps := n\<rparr>) pk :: 's fault + _) = checkPubKeyEncoding t pk"
  "strip_sig (t\<lparr>numOps := n\<rparr>) = strip_sig t"
  unfolding checkHashTypeEncoding_def checkSignatureEncoding_def checkPubKeyEncoding_def strip_sig_def
  by (simp_all only: numOps_irrelevant)

lemma multisig_try_numOps: "multisig_try c (t\<lparr>numOps := n\<rparr>) scr info pk = multisig_try c t scr info pk"
  unfolding multisig_try_def parse_sig_def by (simp only: numOps_irrelevant checks_numOps)

text \<open>(C18) OP_CHECKMULTISIG answers true exactly if the signatures verify under distinct keys in the order of the keys. Here
  \<open>ok sig key\<close> is what one attempt finds; the attempts are taken not to fail with an encoding error. The data elements of
  the opcode are removed, the answer is pushed, and the keys count as operations. A false answer with a non-empty
  signature is an error under the null fail flag.\<close>

theorem CheckMultiSig_matching:
  fixes m n :: int
  assumes stk: "stk (dstack t) = xs @ dummy # sigs @ Bytes \<lparr>Val = m, AfterGenesis = g\<rparr> # keys @ [Bytes \<lparr>Val = n, AfterGenesis = g\<rparr>]"
    and room: "length (stk (dstack t)) < 2 ^ 31" and cnt: "m = int (length sigs)" "n = int (length keys)" "m \<le> n"
    and fits: "int (length (Bytes \<lparr>Val = m, AfterGenesis = g\<rparr>)) \<le> maxNumLength (dstack t)"
      "int (length (Bytes \<lparr>Val = n, AfterGenesis = g\<rparr>)) \<le> maxNumLength (dstack t)"
    and lim: "n \<le> MaxPubKeysPerMultiSig (cfg t)" "numOps t + n \<le> MaxOps (cfg t)"
    and dummy: "dummy = [] \<or> \<not> hasFlag t StrictMultiSig"
    and sub: "subScript t = (Inr sub :: thread fault + _)"
    and scr: "scr = foldl (\<lambda>scr sig. strip_sig t (if length sig > 0 then last sig else 0) sig scr) sub (rev sigs)"
    and tries: "\<And>sig pk. sig \<in> set sigs \<Longrightarrow> pk \<in> set keys \<Longrightarrow>
      \<exists>i. multisig_try c t scr (fresh_sig sig) pk = Inr (Some (ok sig pk, i))"
    and ans: "ans \<longleftrightarrow> (\<exists>ks. subseq ks keys \<and> list_all2 ok sigs ks)"
  shows "opcodeCheckMultiSig c pop t =
    (if \<not> ans \<and> hasFlag t VerifyNullFail \<and> (\<exists>sig\<in>set sigs. sig \<noteq> []) then Inl (Fail ErrNullFail)
     else Inr (with_stk (t\<lparr>numOps := numOps t + n\<rparr>) (xs @ [fromBool ans])))"
proof -
  let ?t = "t\<lparr>numOps := numOps t + n\<rparr>"
  have small: "\<bar>m\<bar> < 2 ^ 31" "\<bar>n\<bar> < 2 ^ 31" using room cnt by (auto simp: stk)
  have p1: "PopInt (dstack t) = (Inr (\<lparr>Val = n, AfterGenesis = stAfterGenesis (dstack t)\<rparr>,
      (dstack t)\<lparr>stk := xs @ dummy # sigs @ Bytes \<lparr>Val = m, AfterGenesis = g\<rparr> # keys\<rparr>) :: thread fault + _)"
    using pop_num [of "dstack t" "xs @ dummy # sigs @ Bytes \<lparr>Val = m, AfterGenesis = g\<rparr> # keys"] stk room fits minimal_Bytes
    by (simp add: num_of_bytes_Bytes)
  have p2: "pop_n (length keys) ((dstack t)\<lparr>stk := xs @ dummy # sigs @ Bytes \<lparr>Val = m, AfterGenesis = g\<rparr> # keys\<rparr>) [] =
      (Inr (rev keys, (dstack t)\<lparr>stk := xs @ dummy # sigs @ [Bytes \<lparr>Val = m, AfterGenesis = g\<rparr>]\<rparr>) :: thread fault + _)"
    using pop_n_eq [of "(dstack t)\<lparr>stk := xs @ dummy # sigs @ Bytes \<lparr>Val = m, AfterGenesis = g\<rparr> # keys\<rparr>"
      "xs @ dummy # sigs @ [Bytes \<lparr>Val = m, AfterGenesis = g\<rparr>]" keys "[]"] room by (simp add: stk)
  have p3: "PopInt ((dstack t)\<lparr>stk := xs @ dummy # sigs @ [Bytes \<lparr>Val = m, AfterGenesis = g\<rparr>]\<rparr>) =
      (Inr (\<lparr>Val = m, AfterGenesis = stAfterGenesis (dstack t)\<rparr>, (dstack t)\<lparr>stk := xs @ dummy # sigs\<rparr>) :: thread fault + _)"
    using pop_num [of "(dstack t)\<lparr>stk := xs @ dummy # sigs @ [Bytes \<lparr>Val = m, AfterGenesis = g\<rparr>]\<rparr>" "xs @ dummy # sigs"] room fits minimal_Bytes
    by (simp add: num_of_bytes_Bytes stk)
  have p4: "pop_n (length sigs) ((dstack t)\<lparr>stk := xs @ dummy # sigs\<rparr>) [] =
      (Inr (rev sigs, (dstack t)\<lparr>stk := xs @ [dummy]\<rparr>) :: thread fault + _)"
    using pop_n_eq [of "(dstack t)\<lparr>stk := xs @ dummy # sigs\<rparr>" "xs @ [dummy]" sigs "[]"] room by (simp add: stk)
  have p5: "PopByteArray ((dstack t)\<lparr>stk := xs @ [dummy]\<rparr>) = (Inr (dummy, (dstack t)\<lparr>stk := xs\<rparr>) :: thread fault + _)"
    using pop_top [of "(dstack t)\<lparr>stk := xs @ [dummy]\<rparr>" xs dummy] room by (simp add: stk)
  have guards: "(n < 0) = False" "(n > MaxPubKeysPerMultiSig (cfg t)) = False" "(numOps t + n > MaxOps (cfg t)) = False"
    "nat n = length keys" "(m < 0) = False" "(m > n) = False" "nat m = length sigs" "(hasFlag t StrictMultiSig \<and> length dummy \<noteq> 0) = False"
    using cnt lim dummy by auto
  have infos: "map fresh_sig (rev sigs) ! i = fresh_sig (rev sigs ! i)" if "i < length sigs" for i
    using that by simp
  have loop: "multisig_loop c ?t scr (rev keys) m (n + 1) (- 1) 0 (map fresh_sig (rev sigs)) = Inr (Some ans)"
    using multisig_loop_greedy [of "rev sigs" "rev keys" c ?t scr ok "map fresh_sig (rev sigs)" 0 0] tries infos cnt ans
      matching_rev [of keys ok sigs]
    by (simp add: multisig_try_numOps greedy_iff)
  show ?thesis
    unfolding opcodeCheckMultiSig_def
    by (simp only: p1 p2 p3 p4 p5 rbind_Inr prod.case Let_def Int_small(2) [OF small(1)] Int_small(2) [OF small(2)] guards if_False
        numOps_irrelevant checks_numOps sub scr [symmetric] loop option.case)
      (auto simp: push_bool_def PushBool_def push_stk list_ex_iff)
qed

definition demo_spend :: "bytes list \<Rightarrow> thread" where
  "demo_spend xs = (demo_thread xs)\<lparr>thTx := Some (Transaction 1
     [TransactionInput (Some (replicate 32 1)) (Some []) 0 0 None (Some (demo_out [0xAE])) None] [] 0 None),
     scripts := [[], [demo_op OpCHECKMULTISIG]], scriptIdx := 1\<rparr>"

lemma demo_try:
  "case multisig_try demo_crypto (demo_spend xs) [demo_op OpCHECKMULTISIG] (fresh_sig [1]) [2] of
     Inr (Some (ok, i)) \<Rightarrow> ok | _ \<Rightarrow> False"
  "case multisig_try demo_crypto (demo_spend xs) [demo_op OpCHECKMULTISIG] (fresh_sig [1]) [3] of
     Inr (Some (ok, i)) \<Rightarrow> ok | _ \<Rightarrow> False"
  by code_simp+

theorem CheckMultiSig_matching_witness:
  "opcodeCheckMultiSig demo_crypto (demo_op OpCHECKMULTISIG) (demo_spend [[], [1], [1], [2], [3], [2]])
   = Inr (with_stk ((demo_spend [])\<lparr>numOps := 2\<rparr>) [[1]])"
proof -
  let ?t = "demo_spend [[], [1], [1], [2], [3], [2]]"
  have num: "Bytes \<lparr>Val = 1, AfterGenesis = False\<rparr> = [1]" "Bytes \<lparr>Val = 2, AfterGenesis = False\<rparr> = [2]" by code_simp+
  have tries: "\<exists>i. multisig_try demo_crypto ?t [demo_op OpCHECKMULTISIG] (fresh_sig sig) pk = Inr (Some (True, i))"
    if "sig \<in> set [[1]]" "pk \<in> set [[2], [3]]" for sig pk
    using that demo_try [of "[[], [1], [1], [2], [3], [2]]"] by (auto split: sum.splits option.splits)
  have strip: "[demo_op OpCHECKMULTISIG] = foldl (\<lambda>scr sig. strip_sig ?t (if length sig > 0 then last sig else 0) sig scr)
      [demo_op OpCHECKMULTISIG] (rev [[1]])"
    by code_simp
  have matched: "True \<longleftrightarrow> (\<exists>ks. subseq ks [[2], [3]] \<and> list_all2 (\<lambda>sig key. True) [[1 :: byte]] ks)"
    by (auto intro: exI [of _ "[[2]]"])
  have t: "stk (dstack ?t) = [] @ [] # [[1]] @ Bytes \<lparr>Val = 1, AfterGenesis = False\<rparr> # [[2], [3]] @ [Bytes \<lparr>Val = 2, AfterGenesis = False\<rparr>]"
    "maxNumLength (dstack ?t) = 4" "cfg ?t = BeforeGenesisConfig" "numOps ?t = 0" "thFlags ?t = 0"
    "(subScript ?t :: thread fault + _) = Inr [demo_op OpCHECKMULTISIG]"
    by (simp_all add: num demo_spend_def demo_thread_def zero_thread_def newStack_def config_defs subScript_def)
  have "opcodeCheckMultiSig demo_crypto (demo_op OpCHECKMULTISIG) ?t = Inr (with_stk (?t\<lparr>numOps := numOps ?t + 2\<rparr>) ([] @ [fromBool True]))"
    by (subst CheckMultiSig_matching [OF t(1) _ _ _ _ _ _ _ _ _ t(6) strip tries matched])
      (simp_all only: t num config_defs, simp_all add: hasFlag_def HasFlag_def t)
  then show ?thesis by (simp add: fromBool_def demo_spend_def demo_thread_def zero_thread_def)
qed

end
