(* ===== verification/Locktime.thy ===== *)
theory Locktime
  imports Data_Ops
begin

text \<open>
  OP_CHECKLOCKTIMEVERIFY and OP_CHECKSEQUENCEVERIFY accept exactly the lock times that the spending transaction
  satisfies. For the sequence lock the code compares numbers masked with the type bit and the value bits at once; the
  reference compares the type bits and the values.
\<close>

lemma verifyLockTime_iff:
  "verifyLockTime a th b = (Inr () :: 's fault + unit) \<longleftrightarrow> (a < th \<longleftrightarrow> b < th) \<and> b \<le> a"
  by (auto simp: verifyLockTime_def)

text \<open>The masked sequence number.\<close>

lemma type_bit: "bit (0x400000 :: int) n \<longleftrightarrow> n = 22"
  using bit_exp_iff [of 22 n, where 'a = int] by auto

lemma and_type_bit: "(v :: int) AND 0x400000 = (if bit v 22 then 0x400000 else 0)"
  by (rule bit_eqI) (auto simp: bit_and_iff type_bit)

lemma masked: "(v :: int) AND (0x400000 OR 0xFFFF) = (if bit v 22 then 0x400000 else 0) + v mod 2 ^ 16"
proof -
  have lo: "v AND 0xFFFF = v mod 2 ^ 16"
    using take_bit_eq_mask [of 16 v] by (simp add: mask_eq_exp_minus_1 take_bit_int_def)
  have "bit (v mod 2 ^ 16) n \<Longrightarrow> n < 16" for n
    by (metis bit_take_bit_iff take_bit_int_def)
  moreover have "bit (if bit v 22 then 0x400000 else 0 :: int) n \<Longrightarrow> n = 22" for n
    by (auto simp: type_bit split: if_splits)
  ultimately have "((if bit v 22 then 0x400000 else 0) OR (v mod 2 ^ 16)) = (if bit v 22 then 0x400000 else 0) + v mod 2 ^ 16"
    by (intro disjunctive_add [symmetric]) fastforce
  then show ?thesis by (simp only: bit.conj_disj_distrib and_type_bit lo)
qed

lemma sequence_lock_iff:
  "verifyLockTime (x AND (0x400000 OR 0xFFFF)) 0x400000 (s AND (0x400000 OR 0xFFFF)) = (Inr () :: 's fault + unit) \<longleftrightarrow>
     bit x 22 = bit s 22 \<and> s mod 2 ^ 16 \<le> x mod 2 ^ 16"
proof -
  have "0 \<le> v mod 2 ^ 16" "v mod 2 ^ 16 < 0x400000" for v :: int
    using pos_mod_bound [of "2 ^ 16" v] by auto
  note this [of x] this [of s]
  then show ?thesis unfolding masked verifyLockTime_iff by (cases "bit x 22"; cases "bit s 22") auto
qed

subsection \<open>The operand\<close>

lemma locktime_operand:
  fixes t :: thread
  assumes "stk (dstack t) = xs @ [x]" "length xs < 2 ^ 31 - 1" "length x \<le> 5" "minimal x \<or> \<not> verifyMinimalData (dstack t)"
  shows "PeekByteArray (dstack t) 0 = (Inr x :: 's fault + _)"
    "(MakeScriptNumber x 5 (verifyMinimalData (dstack t)) g :: 's fault + _) = Inr \<lparr>Val = num_of_bytes x, AfterGenesis = g\<rparr>"
    "Int64 \<lparr>Val = num_of_bytes x, AfterGenesis = g\<rparr> = num_of_bytes x"
proof -
  show "PeekByteArray (dstack t) 0 = (Inr x :: 's fault + _)"
    using PeekByteArray_suffix [of xs x "[]" 0 "dstack t"] assms(1,2) by (cases "dstack t") auto
  show "(MakeScriptNumber x 5 (verifyMinimalData (dstack t)) g :: 's fault + _) = Inr \<lparr>Val = num_of_bytes x, AfterGenesis = g\<rparr>"
    using assms(3,4) by (auto simp: MakeScriptNumber_eq)
  have "\<bar>num_of_bytes x\<bar> < 2 ^ 63"
  proof (cases "x = []")
    case False
    then have "\<bar>num_of_bytes x\<bar> < 2 ^ (8 * length x - 1)" by (rule abs_num_of_bytes_less)
    also have "\<dots> \<le> 2 ^ 63" using assms(3) by (intro power_increasing) auto
    finally show ?thesis .
  qed (simp add: num_of_bytes_def)
  then show "Int64 \<lparr>Val = num_of_bytes x, AfterGenesis = g\<rparr> = num_of_bytes x"
    by (auto simp: sn_arith_defs intro: i64_id)
qed

text \<open>(C21) OP_CHECKLOCKTIMEVERIFY, where it is enforced, accepts the lock time on top of the stack exactly if it is of the same
  kind (height or time) as the lock time of the spending transaction, not after it, and the input is not final. The stack is
  not changed.\<close>

theorem CheckLockTimeVerify_eq:
  assumes "hasFlag t VerifyCheckLockTimeVerify" "\<not> afterGenesis t"
    and "thTx t = Some tr" "0 \<le> inputIdx t" "inputIdx t < int (length (Inputs tr))"
    and "stk (dstack t) = xs @ [x]" "length xs < 2 ^ 31 - 1" "length x \<le> 5" "minimal x \<or> \<not> verifyMinimalData (dstack t)"
    and "v = num_of_bytes x" "lt = uint (LockTime tr)"
  shows "opcodeCheckLockTimeVerify pop t =
    (if v < 0 then Inl (Fail ErrNegativeLockTime)
     else if (lt < 500000000 \<longleftrightarrow> v < 500000000) \<and> v \<le> lt \<and> SequenceNumber (Inputs tr ! nat (inputIdx t)) \<noteq> 0xFFFFFFFF
     then Inr t else Inl (Fail ErrUnsatisfiedLockTime))"
proof -
  note ops = locktime_operand [OF assms(6-9), folded assms(10)]
  have "verifyLockTime lt 500000000 v = (if (lt < 500000000 \<longleftrightarrow> v < 500000000) \<and> v \<le> lt then Inr ()
      else Inl (Fail ErrUnsatisfiedLockTime) :: thread fault + unit)"
    by (auto simp: verifyLockTime_def)
  then show ?thesis
    using assms(1-5) by (auto simp: opcodeCheckLockTimeVerify_def ops LessThanInt_def LessThan_def spending_input_def simp flip: assms(11))
qed

theorem CheckLockTimeVerify_eq_witness:
  "opcodeCheckLockTimeVerify (demo_op OpCHECKLOCKTIMEVERIFY) ((demo_thread [[5]])\<lparr>thFlags := VerifyCheckLockTimeVerify,
     thTx := Some (Transaction 1 (Inputs demo_tx) [] 6 None)\<rparr>)
   = Inr ((demo_thread [[5]])\<lparr>thFlags := VerifyCheckLockTimeVerify, thTx := Some (Transaction 1 (Inputs demo_tx) [] 6 None)\<rparr>)"
proof -
  let ?t = "(demo_thread [[5]])\<lparr>thFlags := VerifyCheckLockTimeVerify, thTx := Some (Transaction 1 (Inputs demo_tx) [] 6 None)\<rparr>"
  have v: "num_of_bytes [5] = 5" by code_simp
  show ?thesis
    by (subst CheckLockTimeVerify_eq [of ?t "Transaction 1 (Inputs demo_tx) [] 6 None" "[]" "[5]"])
      (auto simp: v hasFlag_def HasFlag_def demo_thread_def zero_thread_def newStack_def demo_tx_def)
qed

text \<open>OP_CHECKSEQUENCEVERIFY, where it is enforced, accepts the sequence lock on top of the stack exactly if it is disabled,
  or the transaction has version 2, the sequence number of its input is an enabled lock of the same kind (blocks or seconds) and
  its value, of 16 bits, is not smaller.\<close>

theorem CheckSequenceVerify_eq:
  assumes "hasFlag t VerifyCheckSequenceVerify" "\<not> afterGenesis t"
    and "thTx t = Some tr" "0 \<le> inputIdx t" "inputIdx t < int (length (Inputs tr))"
    and "stk (dstack t) = xs @ [x]" "length xs < 2 ^ 31 - 1" "length x \<le> 5" "minimal x \<or> \<not> verifyMinimalData (dstack t)"
    and "v = num_of_bytes x" "sq = uint (SequenceNumber (Inputs tr ! nat (inputIdx t)))"
  shows "opcodeCheckSequenceVerify pop t =
    (if v < 0 then Inl (Fail ErrNegativeLockTime)
     else if bit v 31 \<or> (2 \<le> Version tr \<and> \<not> bit sq 31 \<and> bit sq 22 = bit v 22 \<and> v mod 2 ^ 16 \<le> sq mod 2 ^ 16)
     then Inr t else Inl (Fail ErrUnsatisfiedLockTime))"
proof -
  note ops = locktime_operand [OF assms(6-9), folded assms(10)]
  have dis: "u AND 0x80000000 \<noteq> 0 \<longleftrightarrow> bit u 31" for u :: int
    using and_exp_eq_0_iff_not_bit [of u 31] by simp
  have lock: "verifyLockTime (sq AND (0x400000 OR 0xFFFF)) 0x400000 (v AND (0x400000 OR 0xFFFF)) =
      (if bit sq 22 = bit v 22 \<and> v mod 2 ^ 16 \<le> sq mod 2 ^ 16 then Inr () else Inl (Fail ErrUnsatisfiedLockTime) :: thread fault + unit)"
    using sequence_lock_iff [of sq v, where 's = thread] by (auto simp: verifyLockTime_def split: if_splits)
  have mask: "(0x400000 OR 0xFFFF :: int) = 4259839" by simp
  note lock = lock [unfolded mask]
  show ?thesis
    unfolding opcodeCheckSequenceVerify_def ops rbind_Inr Let_def assms(3) option.case spending_input_def
    using assms(1,2,4,5) by (simp add: ops dis lock LessThanInt_def LessThan_def flip: assms(11)) (auto simp: not_less)
qed

theorem CheckSequenceVerify_eq_witness:
  "opcodeCheckSequenceVerify (demo_op OpCHECKSEQUENCEVERIFY) ((demo_thread [[5]])\<lparr>thFlags := VerifyCheckSequenceVerify,
     thTx := Some (Transaction 1 (Inputs demo_tx) [] 6 None)\<rparr>) = Inl (Fail ErrUnsatisfiedLockTime)"
proof -
  let ?t = "(demo_thread [[5]])\<lparr>thFlags := VerifyCheckSequenceVerify, thTx := Some (Transaction 1 (Inputs demo_tx) [] 6 None)\<rparr>"
  have v: "num_of_bytes [5] = 5" "\<not> bit (5 :: int) 31" by code_simp+
  show ?thesis
    by (subst CheckSequenceVerify_eq [of ?t "Transaction 1 (Inputs demo_tx) [] 6 None" "[]" "[5]"])
      (auto simp: v hasFlag_def HasFlag_def demo_thread_def zero_thread_def newStack_def demo_tx_def)
qed

end
