(* ===== verification/Panics.thy ===== *)
theory Panics
  imports Conditionals
begin

text \<open>
  Inputs on which the engine panics. They show that the hypotheses of the theorem on the absence of panics are needed:
  the rules before genesis, and a transaction with the output it spends.
\<close>

definition panics :: "(execOpts \<Rightarrow> execOpts) list \<Rightarrow> bool" where
  "panics oo = (case Execute demo_crypto oo of Some (Inl Panic) \<Rightarrow> True | _ \<Rightarrow> False)"

definition tx_unlocking :: "bytes \<Rightarrow> Transaction" where
  "tx_unlocking u = Transaction 1 [TransactionInput (Some (replicate 32 1)) (Some u) 0 0 None None None] [] 0 None"



end
