(* ===== verification/Merkle_Path.thy ===== *)
theory Merkle_Path
  imports Sighash "HOL-Library.AList"
begin

text \<open>
  \<^verbatim>\<open>transaction/merklepath.go\<close> and \<^verbatim>\<open>merkletreeparent.go\<close>: merkle paths (BUMP, BRC-74), their binary form, the
  computation of the root, and the operations that combine and complete paths.

  A level of a path is a list of elements; a nil hash, flag or path is \<open>None\<close>. The maps from offsets that the code builds are
  association lists, since \<open>Combine\<close> enumerates one. SHA-256 is a parameter. The reader is a \<^verbatim>\<open>bytes.Reader\<close>: its \<open>Read\<close>
  returns what is left when that is less than asked for. The sorts of the code are not stable; \<open>sort_key\<close> gives one of their
  results. Where the comparison subtracts two \<open>int\<close> values this holds as long as the subtraction does not overflow, that is
  for offsets that differ by less than \<open>2 ^ 63\<close>, and offsets of real trees are far below.
\<close>

subsection \<open>Parents\<close>

definition flipTwoArrays :: "bytes \<Rightarrow> bytes \<Rightarrow> bytes" where
  "flipTwoArrays a b = rev a @ rev b"

definition MerkleTreeParentBytes :: "(bytes \<Rightarrow> bytes) \<Rightarrow> bytes \<Rightarrow> bytes \<Rightarrow> bytes" where
  "MerkleTreeParentBytes sha leftNode rightNode = rev (Sha256d sha (flipTwoArrays leftNode rightNode))"

text \<open>\<^verbatim>\<open>chainhash.NewHash\<close> fails on a slice that is not 32 bytes long; the parent is then the zero hash.\<close>

definition node :: "(bytes \<Rightarrow> bytes) \<Rightarrow> bytes \<Rightarrow> bytes \<Rightarrow> bytes" where
  "node sha l r = (let h = Sha256d sha (l @ r) in if length h = 32 then h else replicate 32 0)"

definition MerkleTreeParent :: "(bytes \<Rightarrow> bytes) \<Rightarrow> bytes option \<Rightarrow> bytes option \<Rightarrow> 's fault + bytes" where
  "MerkleTreeParent sha l r = (case (l, r) of (Some l, Some r) \<Rightarrow> Inr (node sha l r) | _ \<Rightarrow> Inl Panic)"

abbreviation is_set :: "bool option \<Rightarrow> bool" where
  "is_set f \<equiv> f = Some True"

subsection \<open>Lookup\<close>

type_synonym level_index = "(u64 \<times> PathElement) list"

definition put_leaves :: "level_index \<Rightarrow> PathElement list \<Rightarrow> level_index" where
  "put_leaves m lv = foldl (\<lambda>m e. AList.update (Offset e) e m) m lv"

definition index_level :: "PathElement list \<Rightarrow> level_index" where
  "index_level lv = put_leaves [] lv"

definition stored_leaf :: "level_index list \<Rightarrow> nat \<Rightarrow> u64 \<Rightarrow> PathElement option" where
  "stored_leaf ip layer offset = (if layer < length ip then map_of (ip ! layer) offset else None)"

primrec GetOffsetLeaf :: "(bytes \<Rightarrow> bytes) \<Rightarrow> level_index list \<Rightarrow> nat \<Rightarrow> u64 \<Rightarrow> 's fault + PathElement option" where
  "GetOffsetLeaf sha ip 0 offset = Inr (stored_leaf ip 0 offset)"
| "GetOffsetLeaf sha ip (Suc layer) offset =
     (case stored_leaf ip (Suc layer) offset of
        Some leaf \<Rightarrow> Inr (Some leaf)
      | None \<Rightarrow>
          rbind (GetOffsetLeaf sha ip layer (offset * 2)) (\<lambda>left.
          rbind (GetOffsetLeaf sha ip layer (offset * 2 + 1)) (\<lambda>right.
            case (left, right) of
              (Some left, Some right) \<Rightarrow>
                rbind (if is_set (Duplicate right) then MerkleTreeParent sha (Hash left) (Hash left)
                       else MerkleTreeParent sha (Hash left) (Hash right)) (\<lambda>h.
                  Inr (Some \<lparr>Offset = offset, Hash = Some h, Txid = None, Duplicate = None\<rparr>))
            | _ \<Rightarrow> Inr None)))"

definition FindLeafByOffset :: "MerklePath \<Rightarrow> int \<Rightarrow> u64 \<Rightarrow> PathElement option" where
  "FindLeafByOffset mp level offset =
     (if level < 0 \<or> level \<ge> int (length (Path mp)) then None
      else find (\<lambda>leaf. Offset leaf = offset) (Path mp ! nat level))"

subsection \<open>The root\<close>

text \<open>\<^verbatim>\<open>bits.Len64\<close>.\<close>

function bit_length :: "nat \<Rightarrow> nat" where
  "bit_length n = (if n = 0 then 0 else 1 + bit_length (n div 2))"
  by pat_completeness auto
termination by (relation "measure id") auto

declare bit_length.simps [simp del]

definition Len64 :: "u64 \<Rightarrow> nat" where
  "Len64 x = bit_length (unat x)"

text \<open>The loop of \<open>ComputeRoot\<close>: \<open>k\<close> levels to go from \<open>height\<close>.\<close>

primrec climb ::
  "(bytes \<Rightarrow> bytes) \<Rightarrow> level_index list \<Rightarrow> u64 \<Rightarrow> nat \<Rightarrow> nat \<Rightarrow> bytes \<Rightarrow> 's fault + bytes" where
  "climb sha ip index 0 height workingHash = Inr workingHash"
| "climb sha ip index (Suc k) height workingHash =
     (let offset = drop_bit height index XOR 1
      in rbind (GetOffsetLeaf sha ip height offset) (\<lambda>leaf. case leaf of
           None \<Rightarrow> Inl (FailTx ErrBumpNoHash)
         | Some leaf \<Rightarrow>
             rbind (if is_set (Duplicate leaf) then MerkleTreeParent sha (Some workingHash) (Some workingHash)
                    else if offset mod 2 \<noteq> 0 then MerkleTreeParent sha (Some workingHash) (Hash leaf)
                    else MerkleTreeParent sha (Hash leaf) (Some workingHash)) (\<lambda>h.
               climb sha ip index k (height + 1) h)))"

definition first_hash :: "PathElement list \<Rightarrow> bytes option" where
  "first_hash lv = (case find (\<lambda>l. Hash l \<noteq> None) lv of None \<Rightarrow> None | Some l \<Rightarrow> Hash l)"

definition max_offset :: "PathElement list \<Rightarrow> u64" where
  "max_offset lv = foldl (\<lambda>m l. if Offset l > m then Offset l else m) 0 lv"

definition effectiveHeight :: "MerklePath \<Rightarrow> nat" where
  "effectiveHeight mp = max (length (Path mp)) (Len64 (max_offset (Path mp ! 0)))"

definition ComputeRoot :: "(bytes \<Rightarrow> bytes) \<Rightarrow> MerklePath \<Rightarrow> bytes option \<Rightarrow> 's fault + bytes option" where
  "ComputeRoot sha mp txid0 =
     (if Path mp = [] then Inl Panic
      else
        let txid = (case txid0 of None \<Rightarrow> first_hash (Path mp ! 0) | Some h \<Rightarrow> Some h)
        in if length (Path mp) = 1 \<and> length (Path mp ! 0) = 1 then Inr txid
           else
             let indexedPath = map index_level (Path mp)
             in case find (\<lambda>l. Hash l \<noteq> None \<and> Hash l = txid) (Path mp ! 0) of
                  None \<Rightarrow> (case txid of None \<Rightarrow> Inl Panic | Some _ \<Rightarrow> Inl (FailTx ErrBumpNoTxid))
                | Some txLeaf \<Rightarrow> (case Hash txLeaf of None \<Rightarrow> Inl Panic
                    | Some h \<Rightarrow> rbind (climb sha indexedPath (Offset txLeaf) (effectiveHeight mp) 0 h) (\<lambda>root. Inr (Some root))))"

definition ComputeRootHex :: "(bytes \<Rightarrow> bytes) \<Rightarrow> MerklePath \<Rightarrow> bytes option \<Rightarrow> 's fault + bytes" where
  "ComputeRootHex sha mp txid = rbind (ComputeRoot sha mp txid) (\<lambda>root.
     case root of None \<Rightarrow> Inl Panic | Some h \<Rightarrow> Inr h)"

text \<open>The chain tracker is a service: \<open>ct root height\<close> is its answer.\<close>

definition Verify_path ::
  "(bytes \<Rightarrow> bytes) \<Rightarrow> (bytes option \<Rightarrow> u32 \<Rightarrow> 's fault + bool) \<Rightarrow> MerklePath \<Rightarrow> bytes option \<Rightarrow> 's fault + bool" where
  "Verify_path sha ct mp txid = rbind (ComputeRoot sha mp txid) (\<lambda>root. ct root (BlockHeight mp))"

subsection \<open>The binary form\<close>

text \<open>The reader of one leaf. The hash is read with a single \<open>Read\<close>, which fails only when nothing is left and
  otherwise leaves the end of the buffer at zero. The counts are the bytes taken from the reader.\<close>

definition Read_hash :: "bytes \<Rightarrow> 's fault + bytes \<times> int \<times> bytes" where
  "Read_hash r = (if r = [] then Inl (FailTx ErrEOF)
     else let h = take 32 r in Inr (h @ replicate (32 - length h) 0, int (length h), drop 32 r))"

definition read_leaf :: "bytes \<Rightarrow> 's fault + PathElement \<times> int \<times> bytes" where
  "read_leaf r =
     rbind (VarInt_ReadFrom r) (\<lambda>(offset, n, r).
     rbind (ReadFull 1 r) (\<lambda>(fl, k, r).
       let dup = fl ! 0 AND 1 \<noteq> 0; txid = fl ! 0 AND 2 \<noteq> 0;
           tx = (if txid then Some True else None)
       in if dup then Inr (\<lparr>Offset = offset, Hash = None, Txid = tx, Duplicate = Some True\<rparr>, n + k, r)
          else rbind (Read_hash r) (\<lambda>(h, m, r).
            Inr (\<lparr>Offset = offset, Hash = Some h, Txid = tx, Duplicate = None\<rparr>, n + k + m, r))))"

text \<open>\<^verbatim>\<open>make([]*PathElement, n)\<close> takes 8 bytes for each element.\<close>

definition read_level :: "bytes \<Rightarrow> 's fault + PathElement list \<times> int \<times> bytes" where
  "read_level r =
     rbind (VarInt_ReadFrom r) (\<lambda>(nLeaves, k, r).
       if 8 * unat nLeaves > maxAlloc then Inl Panic
       else rbind (read_n read_leaf (unat nLeaves) r) (\<lambda>(lv, n, r). Inr (lv, k + n, r)))"

definition NewMerklePath :: "u32 \<Rightarrow> PathElement list list \<Rightarrow> MerklePath" where
  "NewMerklePath blockHeight path = \<lparr>BlockHeight = blockHeight, Path = path\<rparr>"

definition NewMerklePathFromReader :: "bytes \<Rightarrow> 's fault + MerklePath \<times> bytes" where
  "NewMerklePathFromReader r =
     rbind (VarInt_ReadFrom r) (\<lambda>(index, _, r).
     rbind (ReadFull 1 r) (\<lambda>(treeHeight, _, r).
     rbind (read_n read_level (unat (treeHeight ! 0)) r) (\<lambda>(path, _, r).
       Inr (\<lparr>BlockHeight = ucast index, Path = map (sort_key Offset) path\<rparr>, r))))"

definition NewMerklePathFromBinary :: "bytes \<Rightarrow> 's fault + MerklePath" where
  "NewMerklePathFromBinary b =
     (if length b < 37 then Inl (FailTx ErrBumpTooShort)
      else rbind (NewMerklePathFromReader b) (\<lambda>(mp, _). Inr mp))"

definition leaf_flags :: "PathElement \<Rightarrow> byte" where
  "leaf_flags leaf = (let flags = (if is_set (Duplicate leaf) then 0 OR 1 else 0)
     in if is_set (Txid leaf) then flags OR 2 else flags)"

definition leaf_Bytes :: "PathElement \<Rightarrow> 's fault + bytes" where
  "leaf_Bytes leaf =
     (let flags = leaf_flags leaf; b = VarInt_Bytes (Offset leaf) @ [flags]
      in if flags AND 1 = 0
         then (case Hash leaf of None \<Rightarrow> Inl Panic | Some h \<Rightarrow> Inr (b @ h))
         else Inr b)"

definition level_Bytes :: "PathElement list \<Rightarrow> 's fault + bytes" where
  "level_Bytes lv = rbind (rmap leaf_Bytes lv) (\<lambda>bs. Inr (VarInt_Bytes (word_of_nat (length lv)) @ concat bs))"

definition MerklePath_Bytes :: "MerklePath \<Rightarrow> 's fault + bytes" where
  "MerklePath_Bytes mp = rbind (rmap level_Bytes (Path mp)) (\<lambda>bs.
     Inr (VarInt_Bytes (ucast (BlockHeight mp)) @ word_of_nat (length (Path mp)) # concat bs))"

text \<open>\<open>Clone\<close> drops the error of the reader: the clone is then nil.\<close>

definition MerklePath_Clone :: "MerklePath option \<Rightarrow> 's fault + MerklePath option" where
  "MerklePath_Clone m = (case m of None \<Rightarrow> Inr None
     | Some mp \<Rightarrow> rbind (MerklePath_Bytes mp) (\<lambda>b.
         case (NewMerklePathFromBinary b :: 's fault + MerklePath) of
           Inr c \<Rightarrow> Inr (Some c)
         | Inl Panic \<Rightarrow> Inl Panic
         | Inl _ \<Rightarrow> Inr None))"

subsection \<open>Combining and completing paths\<close>

text \<open>The second loop of \<open>Combine\<close>: the elements of \<open>other\<close> replace those at the same place; a level that this path does not
  have is an index out of range as soon as it has an element.\<close>

fun merge_levels :: "level_index list \<Rightarrow> PathElement list list \<Rightarrow> 's fault + level_index list" where
  "merge_levels ip [] = Inr ip"
| "merge_levels [] (lv # lvs) = (if lv = [] then merge_levels [] lvs else Inl Panic)"
| "merge_levels (m # ip) (lv # lvs) =
     rbind (merge_levels ip lvs) (\<lambda>ip'. Inr (put_leaves m lv # ip'))"

definition has_both :: "level_index \<Rightarrow> u64 \<Rightarrow> bool" where
  "has_both below offset = (map_of below (offset * 2) \<noteq> None \<and> map_of below (offset * 2 + 1) \<noteq> None)"

definition prune_level :: "level_index list \<Rightarrow> nat \<Rightarrow> PathElement list" where
  "prune_level combined h =
     sort_key (\<lambda>e. sint (Offset e))
       (map snd (filter (\<lambda>(offset, e). \<not> (h > 0 \<and> has_both (combined ! (h - 1)) offset)) (combined ! h)))"

definition Combine :: "(bytes \<Rightarrow> bytes) \<Rightarrow> MerklePath \<Rightarrow> MerklePath \<Rightarrow> 's fault + MerklePath" where
  "Combine sha m other =
     (if BlockHeight m \<noteq> BlockHeight other then Inl (FailTx ErrBumpHeights)
      else rbind (ComputeRootHex sha m None) (\<lambda>root1.
           rbind (ComputeRootHex sha other None) (\<lambda>root2.
             if root1 \<noteq> root2 then Inl (FailTx ErrBumpRoots)
             else rbind (merge_levels (map index_level (Path m)) (Path other)) (\<lambda>combined.
               Inr (m\<lparr>Path := map (prune_level combined) [0 ..< length combined]\<rparr>)))))"

definition AddLeaf :: "MerklePath \<Rightarrow> int \<Rightarrow> PathElement \<Rightarrow> 's fault + MerklePath" where
  "AddLeaf mp level element =
     (if level < 0 then Inl Panic
      else let n = nat level; p = Path mp @ replicate (n + 1 - length (Path mp)) []
           in Inr (mp\<lparr>Path := p[n := p ! n @ [element]]\<rparr>))"

text \<open>\<open>ComputeMissingHashes\<close>: one left child of the level below, the duplicate marker, and the walk up.\<close>

definition add_parent :: "(bytes \<Rightarrow> bytes) \<Rightarrow> PathElement list \<Rightarrow> PathElement list \<Rightarrow> PathElement \<Rightarrow> PathElement list" where
  "add_parent sha prevLevel level leftLeaf = (case Hash leftLeaf of
     None \<Rightarrow> level
   | Some l \<Rightarrow>
       if Offset leftLeaf AND 1 \<noteq> 0 then level
       else
         let rightLeaf = find (\<lambda>leaf. Offset leaf = Offset leftLeaf + 1) prevLevel;
             parentOffset = drop_bit 1 (Offset leftLeaf)
         in if find (\<lambda>leaf. Offset leaf = parentOffset) level \<noteq> None then level
            else (case rightLeaf of
                None \<Rightarrow> level
              | Some right \<Rightarrow> (case Hash right of
                    Some r \<Rightarrow> level @ [\<lparr>Offset = parentOffset, Hash = Some (node sha l r), Txid = None, Duplicate = None\<rparr>]
                  | None \<Rightarrow> if is_set (Duplicate right)
                      then level @ [\<lparr>Offset = parentOffset, Hash = Some (node sha l l), Txid = None, Duplicate = None\<rparr>]
                      else level)))"

definition add_duplicate :: "PathElement list \<Rightarrow> PathElement list" where
  "add_duplicate level =
     (if level \<noteq> [] \<and> max_offset level AND 1 = 0 \<and> max_offset level > 0
         \<and> find (\<lambda>leaf. Offset leaf = max_offset level - 1) level \<noteq> None
      then level @ [\<lparr>Offset = max_offset level + 1, Hash = None, Txid = None, Duplicate = Some True\<rparr>]
      else level)"

primrec fill_levels :: "(bytes \<Rightarrow> bytes) \<Rightarrow> PathElement list \<Rightarrow> PathElement list list \<Rightarrow> PathElement list list" where
  "fill_levels sha prevLevel [] = []"
| "fill_levels sha prevLevel (lv # lvs) =
     (let lv' = add_duplicate (foldl (add_parent sha prevLevel) lv prevLevel) in lv' # fill_levels sha lv' lvs)"

definition ComputeMissingHashes :: "(bytes \<Rightarrow> bytes) \<Rightarrow> MerklePath \<Rightarrow> MerklePath" where
  "ComputeMissingHashes sha mp = (case Path mp of
     lv0 # lv1 # lvs \<Rightarrow>
       mp\<lparr>Path := map (sort_key (\<lambda>e. sint (Offset e))) (lv0 # fill_levels sha lv0 (lv1 # lvs))\<rparr>
   | _ \<Rightarrow> mp)"

end
