(* ===== verification/Merkle_Bytes.thy ===== *)
theory Merkle_Bytes
  imports Merkle_Path
begin

text \<open>
  The binary form of merkle paths: leaves and levels are codecs in the sense of \<open>VarInt\<close>, and a path is read back from its
  bytes exactly when it is in the normal form \<open>path_ok\<close>, which is also what the reader produces.
\<close>

definition leaf_ok :: "PathElement \<Rightarrow> bool" where
  "leaf_ok e = ((Duplicate e = Some True \<and> Hash e = None
      \<or> Duplicate e = None \<and> (case Hash e of Some h \<Rightarrow> length h = 32 | None \<Rightarrow> False))
     \<and> (Txid e = None \<or> Txid e = Some True))"

definition leaf_enc :: "PathElement \<Rightarrow> bytes" where
  "leaf_enc e = VarInt_Bytes (Offset e) @ leaf_flags e # (case Hash e of Some h \<Rightarrow> h | None \<Rightarrow> [])"

definition level_ok :: "PathElement list \<Rightarrow> bool" where
  "level_ok lv = (list_all leaf_ok lv \<and> 8 * length lv \<le> maxAlloc)"

definition level_enc :: "PathElement list \<Rightarrow> bytes" where
  "level_enc lv = VarInt_Bytes (word_of_nat (length lv)) @ concat (map leaf_enc lv)"

definition path_ok :: "MerklePath \<Rightarrow> bool" where
  "path_ok mp = (length (Path mp) < 256 \<and> list_all (\<lambda>lv. level_ok lv \<and> sorted (map Offset lv)) (Path mp))"

subsection \<open>Leaves and levels are codecs\<close>

lemma leaf_flags_bits:
  "leaf_flags e AND 1 \<noteq> 0 \<longleftrightarrow> is_set (Duplicate e)" "leaf_flags e AND 2 \<noteq> 0 \<longleftrightarrow> is_set (Txid e)"
  by (simp_all add: leaf_flags_def Let_def)

lemma Read_hash_32 [simp]: "length h = 32 \<Longrightarrow> Read_hash (h @ r) = Inr (h, 32, r)"
  by (auto simp: Read_hash_def Let_def)

lemma read_leaf_enc: "leaf_ok e \<Longrightarrow> read_leaf (leaf_enc e @ r) = Inr (e, int (length (leaf_enc e)), r)"
  using leaf_flags_bits [of e]
  by (cases e) (auto simp: read_leaf_def leaf_enc_def leaf_ok_def VarInt_ReadFrom_Bytes Let_def split: option.splits)

lemma Read_hash_Inr:
  assumes "Read_hash r = Inr (h, k, r')"
  shows "(\<exists>p. r = p @ r' \<and> k = int (length p)) \<and> length h = 32"
proof
  show "\<exists>p. r = p @ r' \<and> k = int (length p)"
    using assms by (intro exI [of _ "take 32 r"]) (auto simp: Read_hash_def Let_def split: if_splits)
  show "length h = 32"
    using assms by (auto simp: Read_hash_def Let_def split: if_splits)
qed

lemma read_leaf_consumes:
  assumes "read_leaf r = Inr (e, k, r')"
  shows "\<exists>p. r = p @ r' \<and> k = int (length p)"
  using assms
  by (auto simp: read_leaf_def Let_def res_simps ReadFull_Inr split: if_splits
      dest!: VarInt_ReadFrom_consumes Read_hash_Inr)

lemma read_leaf_ok: "read_leaf r = Inr (e, k, r') \<Longrightarrow> leaf_ok e"
  by (auto simp: read_leaf_def leaf_ok_def Let_def res_simps dest!: Read_hash_Inr split: if_splits)

interpretation leaf: codec read_leaf leaf_enc leaf_ok
  by unfold_locales (auto dest: read_leaf_consumes simp: read_leaf_enc)

lemma leaf_Bytes_ok: "leaf_ok e \<Longrightarrow> leaf_Bytes e = Inr (leaf_enc e)"
  using leaf_flags_bits(1) [of e]
  by (auto simp: leaf_Bytes_def leaf_enc_def leaf_ok_def Let_def split: option.splits)

lemma unat_level_length: "8 * n \<le> maxAlloc \<Longrightarrow> unat (word_of_nat n :: u64) = n"
  by (simp add: unsigned_of_nat take_bit_eq_mod maxAlloc_def)

lemma read_level_enc:
  assumes "level_ok lv"
  shows "read_level (level_enc lv @ r) = Inr (lv, int (length (level_enc lv)), r)"
  using assms
  by (simp add: read_level_def level_enc_def level_ok_def VarInt_ReadFrom_Bytes unat_level_length list_all_iff
      leaf.read_n_enc)

lemma read_level_consumes: "read_level r = Inr (lv, k, r') \<Longrightarrow> \<exists>p. r = p @ r' \<and> k = int (length p)"
  by (auto simp: read_level_def res_simps split: if_splits
      dest!: VarInt_ReadFrom_consumes leaf.read_n_consumes)

interpretation level: codec read_level level_enc level_ok
  by unfold_locales (auto dest: read_level_consumes simp: read_level_enc)

lemma read_n_all:
  assumes "read_n rd n r = Inr (xs, k, r')" "\<And>r x k r'. rd r = Inr (x, k, r') \<Longrightarrow> P x"
  shows "list_all P xs"
  using assms(1)
proof (induction n arbitrary: r xs k)
  case (Suc n)
  then show ?case by (auto simp: res_simps intro: assms(2))
qed simp

lemma read_level_ok:
  assumes "read_level r = (Inr (lv, k, r') :: 's fault + _)"
  shows "level_ok lv"
proof -
  obtain n r1 k2 where n: "8 * unat (n :: u64) \<le> maxAlloc"
    and lv: "read_n read_leaf (unat n) r1 = (Inr (lv, k2, r') :: 's fault + _)"
    using assms by (auto simp: read_level_def res_simps not_less split: if_splits)
  have "length lv = unat n"
    using leaf.read_n_consumes [OF lv] by blast
  moreover have "list_all leaf_ok lv"
    by (rule read_n_all [OF lv read_leaf_ok])
  ultimately show ?thesis
    using n by (simp add: level_ok_def)
qed

lemma level_Bytes_ok: "level_ok lv \<Longrightarrow> level_Bytes lv = Inr (level_enc lv)"
  by (simp add: rmap_total [where g = leaf_enc] level_Bytes_def level_enc_def level_ok_def leaf_Bytes_ok list_all_iff)

subsection \<open>Paths\<close>

definition path_enc :: "MerklePath \<Rightarrow> bytes" where
  "path_enc mp = VarInt_Bytes (ucast (BlockHeight mp)) @ word_of_nat (length (Path mp)) # concat (map level_enc (Path mp))"

lemma MerklePath_Bytes_ok: "path_ok mp \<Longrightarrow> MerklePath_Bytes mp = Inr (path_enc mp)"
  by (simp add: rmap_total [where g = level_enc] MerklePath_Bytes_def path_enc_def path_ok_def level_Bytes_ok list_all_iff)

lemma ucast_u32_u64: "ucast (ucast (x :: u32) :: u64) = x"
  by (simp add: word_unat_eq_iff unat_ucast_down)

lemma FromReader_enc:
  assumes "path_ok mp"
  shows "NewMerklePathFromReader (path_enc mp @ r) = Inr (mp, r)"
proof -
  have "map (sort_key Offset) (Path mp) = Path mp"
    using assms by (intro map_idI) (auto simp: path_ok_def list_all_iff sorted_sort_id sort_key_id_if_sorted)
  moreover have "\<forall>lv\<in>set (Path mp). level_ok lv"
    using assms by (auto simp: path_ok_def list_all_iff)
  ultimately show ?thesis
    using assms
    by (simp add: level.read_n_enc NewMerklePathFromReader_def path_enc_def path_ok_def VarInt_ReadFrom_Bytes ucast_u32_u64)
qed

lemma FromReader_ok:
  assumes "NewMerklePathFromReader b = (Inr (mp, r) :: 's fault + _)"
  shows "path_ok mp"
proof -
  obtain h r1 path k2 where path: "read_n read_level (unat h) r1 = (Inr (path, k2, r) :: 's fault + _)"
    and mp: "Path mp = map (sort_key Offset) path" and h: "unat (h :: byte) < 256"
    using assms by (auto simp: NewMerklePathFromReader_def res_simps)
  have "length path = unat h"
    using level.read_n_consumes [OF path] by blast
  moreover have "list_all level_ok path"
    by (rule read_n_all [OF path read_level_ok])
  ultimately show ?thesis
    using h by (simp add: path_ok_def mp list_all_iff level_ok_def)
qed

text \<open>A path with a leaf that carries a hash has at least 37 bytes.\<close>

lemma VarInt_Bytes_nonempty: "VarInt_Bytes v \<noteq> []"
  by (simp add: VarInt_Bytes_def)

lemma path_enc_length:
  assumes "lv \<in> set (Path mp)" "e \<in> set lv" "leaf_ok e" "Hash e \<noteq> None"
  shows "37 \<le> length (path_enc mp)"
proof -
  have pos: "1 \<le> length (VarInt_Bytes v)" for v
    using VarInt_Bytes_nonempty [of v] by (cases "VarInt_Bytes v") auto
  have "34 \<le> length (leaf_enc e)"
    using assms(3,4) pos [of "Offset e"] by (auto simp: leaf_enc_def leaf_ok_def)
  also have "\<dots> \<le> length (concat (map leaf_enc lv))"
    using assms(2) by (simp add: length_concat member_le_sum_list)
  finally have "35 \<le> length (level_enc lv)"
    using pos [of "word_of_nat (length lv)"] by (simp add: level_enc_def)
  also have "\<dots> \<le> length (concat (map level_enc (Path mp)))"
    using assms(1) by (simp add: length_concat member_le_sum_list)
  finally show ?thesis
    using pos [of "ucast (BlockHeight mp)"] by (simp add: path_enc_def)
qed

text \<open>(C36) The binary form of merkle paths. What the reader returns is in the normal form: at most 255 levels sorted by
  offset, each leaf either a duplicate marker without a hash or a hash of 32 bytes. For a path in that form \<open>Bytes\<close>
  does not panic, its result followed by any data is read back to the same path with exactly that data left, and when some
  leaf carries a hash \<open>NewMerklePathFromBinary\<close> and \<open>Clone\<close> return the path itself. So reading a path again from its own bytes changes nothing.\<close>

theorem merkle_path_bytes:
  "(NewMerklePathFromReader b = (Inr (mp, r) :: 's fault + _) \<longrightarrow> path_ok mp)
   \<and> (path_ok mp \<longrightarrow> (\<exists>bs. MerklePath_Bytes mp = (Inr bs :: 's fault + _)
        \<and> NewMerklePathFromReader (bs @ r) = (Inr (mp, r) :: 's fault + _)
        \<and> ((\<exists>lv\<in>set (Path mp). \<exists>e\<in>set lv. Hash e \<noteq> None) \<longrightarrow>
             NewMerklePathFromBinary bs = (Inr mp :: 's fault + _)
             \<and> MerklePath_Clone (Some mp) = (Inr (Some mp) :: 's fault + _))))"
proof (intro conjI impI exI [of _ "path_enc mp"])
  show "path_ok mp" if "NewMerklePathFromReader b = (Inr (mp, r) :: 's fault + _)"
    by (rule FromReader_ok [OF that])
  assume ok: "path_ok mp"
  show bytes: "MerklePath_Bytes mp = (Inr (path_enc mp) :: 's fault + _)"
    by (rule MerklePath_Bytes_ok [OF ok])
  show "NewMerklePathFromReader (path_enc mp @ r) = (Inr (mp, r) :: 's fault + _)"
    by (rule FromReader_enc [OF ok])
  assume "\<exists>lv\<in>set (Path mp). \<exists>e\<in>set lv. Hash e \<noteq> None"
  then have "37 \<le> length (path_enc mp)"
    using ok path_enc_length [of _ mp] by (fastforce simp: path_ok_def level_ok_def list_all_iff)
  then show binary: "NewMerklePathFromBinary (path_enc mp) = (Inr mp :: 's fault + _)"
    by (simp add: NewMerklePathFromBinary_def FromReader_enc [OF ok, of "[]", unfolded append_Nil2])
  show "MerklePath_Clone (Some mp) = (Inr (Some mp) :: 's fault + _)"
    by (simp add: MerklePath_Clone_def bytes binary)
qed

definition demo_path :: MerklePath where
  "demo_path = \<lparr>BlockHeight = 800000, Path =
     [[\<lparr>Offset = 2, Hash = Some (replicate 32 7), Txid = Some True, Duplicate = None\<rparr>,
       \<lparr>Offset = 3, Hash = None, Txid = None, Duplicate = Some True\<rparr>],
      [\<lparr>Offset = 0, Hash = Some (replicate 32 9), Txid = None, Duplicate = None\<rparr>]]\<rparr>"

theorem merkle_path_bytes_witness:
  "path_ok demo_path \<and> MerklePath_Clone (Some demo_path) = (Inr (Some demo_path) :: unit fault + _)
   \<and> NewMerklePathFromReader (path_enc demo_path @ [1, 2]) = (Inr (demo_path, [1, 2]) :: unit fault + _)"
proof -
  have ok: "path_ok demo_path"
    by (simp add: demo_path_def path_ok_def level_ok_def leaf_ok_def maxAlloc_def)
  have "\<exists>lv\<in>set (Path demo_path). \<exists>e\<in>set lv. Hash e \<noteq> None"
    by (simp add: demo_path_def)
  moreover have "MerklePath_Bytes demo_path = (Inr (path_enc demo_path) :: unit fault + _)"
    by (rule MerklePath_Bytes_ok [OF ok])
  ultimately show ?thesis
    using merkle_path_bytes [of "[]" demo_path "[1, 2]", where 's = unit] ok by auto
qed

text \<open>The reader takes a hash that is cut off at the end of the data and fills it with zeros.\<close>

lemma truncated_hash_accepted:
  "NewMerklePathFromBinary ([1, 2, 1, 0, 0] @ replicate 32 7 @ [1, 1, 0, 5]) =
     (Inr \<lparr>BlockHeight = 1, Path = [[\<lparr>Offset = 0, Hash = Some (replicate 32 7), Txid = None, Duplicate = None\<rparr>],
        [\<lparr>Offset = 1, Hash = Some (5 # replicate 31 0), Txid = None, Duplicate = None\<rparr>]]\<rparr> :: unit fault + _)"
proof -
  let ?e = "\<lparr>Offset = 0, Hash = Some (replicate 32 7), Txid = None, Duplicate = None\<rparr> :: PathElement"
  let ?f = "\<lparr>Offset = 1, Hash = Some (5 # replicate 31 0), Txid = None, Duplicate = None\<rparr> :: PathElement"
  have small: "VarInt_ReadFrom (0 # r) = (Inr (0, 1, r) :: unit fault + _)"
    "VarInt_ReadFrom (1 # r) = (Inr (1, 1, r) :: unit fault + _)" for r
    by (simp_all add: VarInt_ReadFrom_def Uint16_def)
  have e: "read_leaf (0 # 0 # replicate 32 7 @ r) = (Inr (?e, 34, r) :: unit fault + _)" for r
    by (simp add: read_leaf_def small)
  have f: "read_leaf [1, 0, 5] = (Inr (?f, 3, []) :: unit fault + _)"
    by (simp add: read_leaf_def small Read_hash_def)
  have "read_level (1 # 0 # 0 # replicate 32 7 @ r) = (Inr ([?e], 35, r) :: unit fault + _)" for r
    using e [of r] by (simp add: read_level_def small maxAlloc_def)
  moreover have "read_level [1, 1, 0, 5] = (Inr ([?f], 4, []) :: unit fault + _)"
    using f by (simp add: read_level_def small maxAlloc_def)
  ultimately have "read_n read_level 2 (1 # 0 # 0 # replicate 32 7 @ [1, 1, 0, 5])
      = (Inr ([[?e], [?f]], 39, []) :: unit fault + _)"
    by (simp add: numeral_2_eq_2)
  then show ?thesis
    by (simp add: NewMerklePathFromBinary_def NewMerklePathFromReader_def small)
qed

end
