(* ===== verification/Merkle_Root.thy ===== *)
theory Merkle_Root
  imports Merkle_Path
begin

text \<open>
  Merkle paths against the tree of a block.

  The layers of a tree are computed from the txids as Bitcoin does (an unpaired node is hashed with itself). A path is
  consistent with a block when every element is the node of the tree at its place, or a marker right after the last node of a
  layer of odd length. For consistent paths \<open>ComputeRoot\<close> is characterised completely; for arbitrary paths a proof that is accepted shows that the
  txid is in the block, or exhibits two different pairs of nodes with the same hash.
\<close>

subsection \<open>The tree of a block\<close>

fun pairs :: "bytes list \<Rightarrow> (bytes \<times> bytes) list" where
  "pairs [] = []"
| "pairs [a] = [(a, a)]"
| "pairs (a # b # xs) = (a, b) # pairs xs"

definition next_layer :: "(bytes \<Rightarrow> bytes) \<Rightarrow> bytes list \<Rightarrow> bytes list" where
  "next_layer sha xs = map (\<lambda>(a, b). node sha a b) (pairs xs)"

definition layer :: "(bytes \<Rightarrow> bytes) \<Rightarrow> bytes list \<Rightarrow> nat \<Rightarrow> bytes list" where
  "layer sha txs h = (next_layer sha ^^ h) txs"

definition tree_height :: "nat \<Rightarrow> nat" where
  "tree_height n = bit_length (n - 1)"

definition merkle_root :: "(bytes \<Rightarrow> bytes) \<Rightarrow> bytes list \<Rightarrow> bytes" where
  "merkle_root sha txs = layer sha txs (tree_height (length txs)) ! 0"

lemma layer_0 [simp]: "layer sha txs 0 = txs"
  by (simp add: layer_def)

lemma layer_Suc [simp]: "layer sha txs (Suc h) = next_layer sha (layer sha txs h)"
  by (simp add: layer_def)

lemma length_pairs: "length (pairs xs) = (length xs + 1) div 2"
  by (induction xs rule: pairs.induct) auto

lemma nth_pairs:
  "k < (length xs + 1) div 2 \<Longrightarrow>
   pairs xs ! k = (xs ! (2 * k), if 2 * k + 1 < length xs then xs ! (2 * k + 1) else xs ! (2 * k))"
proof (induction xs arbitrary: k rule: pairs.induct)
  case (3 a b xs)
  then show ?case by (cases k) auto
qed auto

lemma set_pairs: "p \<in> set (pairs xs) \<Longrightarrow> fst p \<in> set xs \<and> snd p \<in> set xs"
  by (induction xs rule: pairs.induct) auto

lemma nth_next_layer:
  "2 * k < length xs \<Longrightarrow>
   next_layer sha xs ! k = node sha (xs ! (2 * k)) (if 2 * k + 1 < length xs then xs ! (2 * k + 1) else xs ! (2 * k))"
  by (simp add: next_layer_def nth_pairs length_pairs)

lemma length_next_layer: "length (next_layer sha xs) = (length xs + 1) div 2"
  by (simp add: next_layer_def length_pairs)

lemma less_two_power_bit_length: "n < 2 ^ bit_length n"
proof (induction n rule: bit_length.induct)
  case (1 n)
  show ?case
  proof (cases "n = 0")
    case False
    then have "n div 2 < 2 ^ bit_length (n div 2)" by (rule 1)
    then have "n < 2 * 2 ^ bit_length (n div 2)" by linarith
    with False show ?thesis by (simp add: bit_length.simps [of n])
  qed (simp add: bit_length.simps)
qed

lemma bit_length_le: "n < 2 ^ m \<Longrightarrow> bit_length n \<le> m"
proof (induction n arbitrary: m rule: bit_length.induct)
  case (1 n)
  show ?case
  proof (cases "n = 0")
    case False
    then obtain m' where m: "m = Suc m'" using 1(2) by (cases m) auto
    then have "n div 2 < 2 ^ m'" using 1(2) by (simp add: less_mult_imp_div_less mult.commute)
    then show ?thesis using False m 1(1) by (simp add: bit_length.simps [of n])
  qed (simp add: bit_length.simps)
qed

lemma index_below_height: "i < n \<Longrightarrow> i div 2 ^ tree_height n = 0"
  using less_two_power_bit_length [of "n - 1"] by (simp add: tree_height_def)

text \<open>Every node of a layer lies above the leaf it is indexed by.\<close>

lemma layer_index: "i < length txs \<Longrightarrow> i div 2 ^ h < length (layer sha txs h)"
proof (induction h)
  case (Suc h)
  then have "i div 2 ^ h < length (layer sha txs h)" by simp
  then show ?case
    by (simp add: length_next_layer power_Suc2 div_mult2_eq del: power_Suc)
qed simp

subsection \<open>Lookup\<close>

lemma map_of_put_leaves:
  "map_of (put_leaves m lv) i =
     (case find (\<lambda>e. Offset e = i) (rev lv) of Some e \<Rightarrow> Some e | None \<Rightarrow> map_of m i)"
  unfolding put_leaves_def
proof (induction lv arbitrary: m rule: rev_induct)
  case (snoc e lv)
  then show ?case by (auto simp: update_conv)
qed simp

lemma find_Some_iff: "find P xs = Some x \<Longrightarrow> x \<in> set xs \<and> P x"
  by (metis find_Some_iff nth_mem)

lemma map_of_index_level:
  "map_of (index_level lv) i = find (\<lambda>e. Offset e = i) (rev lv)"
  by (simp add: index_level_def map_of_put_leaves split: option.split)

lemma stored_leaf_SomeD:
  assumes "stored_leaf (map index_level path) h i = Some e"
  shows "h < length path" "e \<in> set (path ! h)" "Offset e = i"
  using assms
  by (auto simp: stored_leaf_def map_of_index_level split: if_splits dest: find_Some_iff)

lemma stored_leaf_ex:
  "stored_leaf (map index_level path) h i \<noteq> None \<longleftrightarrow> h < length path \<and> (\<exists>e\<in>set (path ! h). Offset e = i)"
  using find_None_iff [of "\<lambda>e. Offset e = i" "rev (path ! h)"]
  by (auto simp: stored_leaf_def map_of_index_level simp flip: not_None_eq)

subsection \<open>Consistent paths\<close>

definition fits :: "bytes list \<Rightarrow> nat \<Rightarrow> PathElement \<Rightarrow> bool" where
  "fits L k e = (if is_set (Duplicate e) then Hash e = None \<and> k = length L \<and> odd k
     else k < length L \<and> Hash e = Some (L ! k))"

definition consistent :: "(bytes \<Rightarrow> bytes) \<Rightarrow> bytes list \<Rightarrow> PathElement list list \<Rightarrow> bool" where
  "consistent sha txs path = list_all (\<lambda>h. list_all (\<lambda>e. fits (layer sha txs h) (unat (Offset e)) e) (path ! h))
     [0 ..< length path]"

lemma consistent_iff:
  "consistent sha txs path \<longleftrightarrow> (\<forall>h < length path. \<forall>e\<in>set (path ! h). fits (layer sha txs h) (unat (Offset e)) e)"
  by (auto simp: consistent_def list_all_iff simp del: layer_0)

text \<open>Which nodes can be looked up or derived from the level below.\<close>

primrec avail :: "level_index list \<Rightarrow> nat \<Rightarrow> nat \<Rightarrow> bool" where
  "avail ip 0 k = (stored_leaf ip 0 (word_of_nat k) \<noteq> None)"
| "avail ip (Suc h) k =
     (stored_leaf ip (Suc h) (word_of_nat k) \<noteq> None \<or> avail ip h (2 * k) \<and> avail ip h (2 * k + 1))"

lemma consistent_fits:
  assumes "consistent sha txs path" "stored_leaf (map index_level path) h (word_of_nat k) = Some e" "k < 2 ^ 64"
  shows "fits (layer sha txs h) k e"
proof -
  have "unat (Offset e) = k"
    using stored_leaf_SomeD(3) [OF assms(2)] assms(3) by (simp add: unsigned_of_nat take_bit_eq_mod)
  then show ?thesis
    using assms(1) stored_leaf_SomeD(1,2) [OF assms(2)] by (auto simp: consistent_def list_all_iff)
qed

lemma fits_parent:
  assumes "fits L (2 * k) l" "fits L (2 * k + 1) r"
  shows "\<exists>x. (if is_set (Duplicate r) then MerkleTreeParent sha (Hash l) (Hash l) else MerkleTreeParent sha (Hash l) (Hash r))
      = (Inr x :: 's fault + _)
    \<and> fits (next_layer sha L) k \<lparr>Offset = p, Hash = Some x, Txid = None, Duplicate = None\<rparr>"
  using assms
  by (auto simp: fits_def MerkleTreeParent_def nth_next_layer length_next_layer split: if_splits)

lemma GetOffsetLeaf_consistent:
  assumes "consistent sha txs path" "(k + 1) * 2 ^ h \<le> 2 ^ 64"
  shows "if avail (map index_level path) h k
     then \<exists>e. GetOffsetLeaf sha (map index_level path) h (word_of_nat k) = (Inr (Some e) :: 's fault + _)
       \<and> fits (layer sha txs h) k e
     else GetOffsetLeaf sha (map index_level path) h (word_of_nat k) = (Inr None :: 's fault + _)"
  using assms(2)
proof (induction h arbitrary: k)
  case 0
  then show ?case using consistent_fits [OF assms(1), of 0 k] by auto
next
  case (Suc h)
  let ?ip = "map index_level path"
  have "(2 * k + 1) * 2 ^ h \<le> (2 * k + 2) * 2 ^ h" "(2 * k + 2) * 2 ^ h = (k + 1) * 2 ^ Suc h"
    by (simp_all add: algebra_simps)
  then have b: "(2 * k + 1) * 2 ^ h \<le> 2 ^ 64" "(2 * k + 1 + 1) * 2 ^ h \<le> 2 ^ 64"
    using Suc.prems by simp_all
  have k: "k < 2 ^ 64"
    using le_trans [OF _ Suc.prems, of "k + 1"] mult_le_mono2 [of 1 "2 ^ Suc h" "k + 1"] by simp
  have w: "word_of_nat (2 * k) = (word_of_nat k * 2 :: u64)" "word_of_nat (2 * k + 1) = (word_of_nat k * 2 + 1 :: u64)"
    by (simp_all add: mult.commute)
  note IH = Suc.IH [OF b(1), unfolded w] Suc.IH [OF b(2), unfolded w]
  show ?case
  proof (cases "stored_leaf ?ip (Suc h) (word_of_nat k)")
    case (Some e)
    then show ?thesis using consistent_fits [OF assms(1) Some k] by auto
  next
    case None
    show ?thesis
    proof (cases "avail ?ip h (2 * k) \<and> avail ?ip h (2 * k + 1)")
      case True
      then obtain l r where "GetOffsetLeaf sha ?ip h (word_of_nat k * 2) = (Inr (Some l) :: 's fault + _)"
        "fits (layer sha txs h) (2 * k) l"
        "GetOffsetLeaf sha ?ip h (word_of_nat k * 2 + 1) = (Inr (Some r) :: 's fault + _)"
        "fits (layer sha txs h) (2 * k + 1) r"
        using IH by auto
      then show ?thesis
        using True None fits_parent [of "layer sha txs h" k l r sha "word_of_nat k", where 's = 's] by auto
    next
      case False
      then show ?thesis
        using None IH by (auto split: if_splits)
    qed
  qed
qed

subsection \<open>The climb\<close>

definition sib :: "nat \<Rightarrow> nat" where
  "sib j = (if even j then j + 1 else j - 1)"

lemma unat_xor_1: "unat (w XOR 1 :: u64) = sib (unat w)"
  by (simp add: unsigned_xor_eq sib_def xor_Suc_0_eq)

lemma sib_word: "drop_bit h i XOR 1 = (word_of_nat (sib (unat i div 2 ^ h)) :: u64)"
proof -
  have "unat (drop_bit h i XOR 1) = sib (unat i div 2 ^ h)"
    using unat_xor_1 [of "drop_bit h i"] by (simp only: unat_drop_bit_eq drop_bit_eq_div [of h "unat i"])
  then have "word_of_nat (unat (drop_bit h i XOR 1)) = (word_of_nat (sib (unat i div 2 ^ h)) :: u64)"
    by (rule arg_cong)
  then show ?thesis by simp
qed

lemma odd_word: "(w :: u64) mod 2 \<noteq> 0 \<longleftrightarrow> odd (unat w)"
  by (simp add: word_unat_eq_iff unat_mod odd_iff_mod_2_eq_one)

lemma le_mult_power: "(a :: nat) \<le> a * 2 ^ h"
  by simp

lemma sib_bound:
  assumes "i < 2 ^ 63" "h < 63"
  shows "(sib (i div 2 ^ h) + 1) * 2 ^ h \<le> 2 ^ 64"
proof -
  have "sib (i div 2 ^ h) + 1 \<le> i div 2 ^ h + 2"
    by (auto simp: sib_def intro: le_trans [OF diff_le_self])
  then have "(sib (i div 2 ^ h) + 1) * 2 ^ h \<le> (i div 2 ^ h + 2) * 2 ^ h"
    by (rule mult_le_mono1)
  also have "\<dots> \<le> i + 2 ^ (h + 1)"
    using div_times_less_eq_dividend [of i "2 ^ h"] by (simp add: algebra_simps)
  also have "\<dots> \<le> 2 ^ 63 + 2 ^ 63"
    using assms power_increasing [of "h + 1" 63 "2 :: nat"] by simp
  finally show ?thesis by simp
qed

definition covered :: "level_index list \<Rightarrow> nat \<Rightarrow> nat \<Rightarrow> nat \<Rightarrow> bool" where
  "covered ip i h k = list_all (\<lambda>g. avail ip g (sib (i div 2 ^ g))) [h ..< h + k]"

lemma covered_Suc: "covered ip i h (Suc k) \<longleftrightarrow> avail ip h (sib (i div 2 ^ h)) \<and> covered ip i (Suc h) k"
proof -
  have "[h ..< h + Suc k] = h # [Suc h ..< Suc h + k]"
    by (simp add: upt_conv_Cons)
  then show ?thesis by (simp only: covered_def list.pred_inject)
qed

text \<open>One step: the working hash and a fitting sibling make the node above.\<close>

lemma climb_node:
  assumes "fits L (sib j) e" "j < length L"
  shows "(if is_set (Duplicate e) then MerkleTreeParent sha (Some (L ! j)) (Some (L ! j))
      else if odd (sib j) then MerkleTreeParent sha (Some (L ! j)) (Hash e)
      else MerkleTreeParent sha (Hash e) (Some (L ! j))) = (Inr (next_layer sha L ! (j div 2)) :: 's fault + _)"
  using assms
  by (auto simp: fits_def sib_def MerkleTreeParent_def nth_next_layer elim!: evenE oddE split: if_splits)

lemma climb_consistent:
  assumes "consistent sha txs path" "unat i < length txs" "unat i < 2 ^ 63" "h + k \<le> 63"
  shows "climb sha (map index_level path) i k h (layer sha txs h ! (unat i div 2 ^ h)) =
    ((if covered (map index_level path) (unat i) h k then Inr (layer sha txs (h + k) ! (unat i div 2 ^ (h + k)))
      else Inl (FailTx ErrBumpNoHash)) :: 's fault + _)"
  using assms(4)
proof (induction k arbitrary: h)
  case 0
  then show ?case by (simp add: covered_def)
next
  case (Suc k)
  let ?ip = "map index_level path" and ?j = "unat i div 2 ^ h"
  have bound: "(sib ?j + 1) * 2 ^ h \<le> 2 ^ 64"
    using sib_bound [OF assms(3)] Suc.prems by simp
  have "sib ?j < 2 ^ 64"
    using less_le_trans [OF _ bound, of "sib ?j"] le_mult_power [of "sib ?j + 1" h] by linarith
  then have parity: "word_of_nat (sib ?j) mod 2 \<noteq> (0 :: u64) \<longleftrightarrow> odd (sib ?j)"
    by (subst odd_word) (simp add: unsigned_of_nat take_bit_eq_mod)
  show ?case
  proof (cases "avail ?ip h (sib ?j)")
    case True
    then obtain e where e: "GetOffsetLeaf sha ?ip h (word_of_nat (sib ?j)) = (Inr (Some e) :: 's fault + _)"
      "fits (layer sha txs h) (sib ?j) e"
      using GetOffsetLeaf_consistent [OF assms(1) bound, where 's = 's] by auto
    have "?j div 2 = unat i div 2 ^ Suc h"
      by (simp add: power_Suc2 div_mult2_eq del: power_Suc)
    then have "climb sha ?ip i (Suc k) h (layer sha txs h ! ?j)
        = (climb sha ?ip i k (Suc h) (layer sha txs (Suc h) ! (unat i div 2 ^ Suc h)) :: 's fault + _)"
      using climb_node [OF e(2) layer_index [OF assms(2)], of sha, where 's = 's]
      by (simp only: climb.simps Let_def sib_word e(1) rbind_Inr option.case parity layer_Suc Suc_eq_plus1 [symmetric])
    then show ?thesis
      using True Suc.IH [of "Suc h"] Suc.prems by (simp add: covered_Suc del: climb.simps)
  next
    case False
    then show ?thesis
      using GetOffsetLeaf_consistent [OF assms(1) bound, where 's = 's] by (simp add: covered_Suc sib_word)
  qed
qed

subsection \<open>The root of a consistent path\<close>

text \<open>A path of one leaf stands for a block of one transaction: its root is taken to be the txid.\<close>

definition single :: "MerklePath \<Rightarrow> bool" where
  "single mp = (length (Path mp) = 1 \<and> length (Path mp ! 0) = 1)"

definition proof_height :: "MerklePath \<Rightarrow> nat" where
  "proof_height mp = (if single mp then 0 else effectiveHeight mp)"

definition proves :: "MerklePath \<Rightarrow> nat \<Rightarrow> bool" where
  "proves mp i = covered (map index_level (Path mp)) i 0 (proof_height mp)"

lemma tree_height_le: "n \<le> 2 ^ m \<Longrightarrow> tree_height n \<le> m"
  unfolding tree_height_def by (rule bit_length_le) (cases n, auto)

lemma some_hash: "(\<exists>y. Hash l = Some y) \<and> Hash l = Some t \<longleftrightarrow> Hash l = Some t"
  by auto

lemma ComputeRoot_found:
  assumes "Path mp \<noteq> []" "\<not> single mp" "find (\<lambda>l. Hash l = Some t) (Path mp ! 0) = Some e"
  shows "ComputeRoot sha mp (Some t) =
    rbind (climb sha (map index_level (Path mp)) (Offset e) (effectiveHeight mp) 0 t) (\<lambda>root. Inr (Some root))"
  using assms find_Some_iff [OF assms(3)] by (auto simp: ComputeRoot_def single_def Let_def some_hash)

lemma ComputeRoot_correct_leaf:
  assumes c: "consistent sha txs (Path mp)" "proof_height mp = tree_height (length txs)" "length txs \<le> 2 ^ 62"
    and "Path mp \<noteq> []" and e: "find (\<lambda>l. Hash l = Some t) (Path mp ! 0) = Some e"
  shows "unat (Offset e) < length txs" "txs ! unat (Offset e) = t"
    "ComputeRoot sha mp (Some t) =
      ((if proves mp (unat (Offset e)) then Inr (Some (merkle_root sha txs)) else Inl (FailTx ErrBumpNoHash)) :: 's fault + _)"
proof -
  let ?i = "unat (Offset e)"
  have "e \<in> set (Path mp ! 0)" "Hash e = Some t"
    using find_Some_iff [OF e] by auto
  then have "fits txs ?i e"
    using c(1) assms(4) by (force simp: consistent_def list_all_iff)
  then show i: "?i < length txs" and t: "txs ! ?i = t"
    using \<open>Hash e = Some t\<close> by (auto simp: fits_def split: if_splits)
  show "ComputeRoot sha mp (Some t) =
      ((if proves mp ?i then Inr (Some (merkle_root sha txs)) else Inl (FailTx ErrBumpNoHash)) :: 's fault + _)"
  proof (cases "single mp")
    case True
    then have "?i = 0"
      using index_below_height [OF i] c(2) by (simp add: proof_height_def)
    then show ?thesis
      using True t c(2) assms(4)
      by (simp add: ComputeRoot_def single_def proves_def covered_def proof_height_def merkle_root_def)
  next
    case False
    have "effectiveHeight mp = tree_height (length txs)"
      using False c(2) by (simp add: proof_height_def)
    then show ?thesis
      using climb_consistent [OF c(1) i, of 0 "effectiveHeight mp", where 's = 's] i t c(3) tree_height_le [OF c(3)]
        index_below_height [OF i]
      by (simp add: ComputeRoot_found [OF assms(4) False e] proves_def proof_height_def False merkle_root_def)
  qed
qed

lemma ComputeRoot_absent:
  assumes "Path mp \<noteq> []" "\<not> single mp" "\<forall>l\<in>set (Path mp ! 0). Hash l \<noteq> Some t"
  shows "ComputeRoot sha mp (Some t) = (Inl (FailTx ErrBumpNoTxid) :: 's fault + _)"
proof -
  have "find (\<lambda>l. Hash l = Some t) (Path mp ! 0) = None"
    using assms(3) by (auto simp: find_None_iff)
  then show ?thesis
    using assms(1,2) by (simp add: ComputeRoot_def single_def Let_def some_hash)
qed


definition demo_sha :: "bytes \<Rightarrow> bytes" where
  "demo_sha b = replicate 31 7 @ [foldl (\<lambda>a x. 3 * a + x) 1 b]"

definition demo_block :: "bytes list" where
  "demo_block = [replicate 32 1, replicate 32 2, replicate 32 3]"

abbreviation leaf_at :: "u64 \<Rightarrow> bytes \<Rightarrow> PathElement" where
  "leaf_at k h \<equiv> \<lparr>Offset = k, Hash = Some h, Txid = None, Duplicate = None\<rparr>"

abbreviation marker_at :: "u64 \<Rightarrow> PathElement" where
  "marker_at k \<equiv> \<lparr>Offset = k, Hash = None, Txid = None, Duplicate = Some True\<rparr>"

text \<open>A compound path: the last transaction is proved through its marker and the nodes below.\<close>

definition demo_proof :: MerklePath where
  "demo_proof = \<lparr>BlockHeight = 5, Path =
     [[leaf_at 0 (replicate 32 1), leaf_at 1 (replicate 32 2), leaf_at 2 (replicate 32 3), marker_at 3], []]\<rparr>"


subsection \<open>Soundness of arbitrary paths\<close>

text \<open>The pairs of nodes that a climb hashes, and the pairs that the tree hashes.\<close>

definition step_pair :: "u64 \<Rightarrow> PathElement \<Rightarrow> bytes \<Rightarrow> bytes \<times> bytes" where
  "step_pair offset leaf w =
     (let h = (case Hash leaf of Some h \<Rightarrow> h | None \<Rightarrow> w)
      in if is_set (Duplicate leaf) then (w, w) else if offset mod 2 \<noteq> 0 then (w, h) else (h, w))"

primrec climb_pairs :: "(bytes \<Rightarrow> bytes) \<Rightarrow> level_index list \<Rightarrow> u64 \<Rightarrow> nat \<Rightarrow> nat \<Rightarrow> bytes \<Rightarrow> (bytes \<times> bytes) list" where
  "climb_pairs sha ip index 0 h w = []"
| "climb_pairs sha ip index (Suc k) h w =
     (let offset = drop_bit h index XOR 1
      in case (GetOffsetLeaf sha ip h offset :: unit fault + _) of
           Inr (Some leaf) \<Rightarrow>
             (let p = step_pair offset leaf w in p # climb_pairs sha ip index k (h + 1) (node sha (fst p) (snd p)))
         | _ \<Rightarrow> [])"

definition proof_pairs :: "(bytes \<Rightarrow> bytes) \<Rightarrow> MerklePath \<Rightarrow> bytes \<Rightarrow> (bytes \<times> bytes) list" where
  "proof_pairs sha mp t = (case find (\<lambda>l. Hash l = Some t) (Path mp ! 0) of None \<Rightarrow> []
     | Some e \<Rightarrow> climb_pairs sha (map index_level (Path mp)) (Offset e) (proof_height mp) 0 t)"

definition tree_pairs :: "(bytes \<Rightarrow> bytes) \<Rightarrow> bytes list \<Rightarrow> (bytes \<times> bytes) list" where
  "tree_pairs sha txs = concat (map (\<lambda>h. pairs (layer sha txs h)) [0 ..< tree_height (length txs)])"

definition collide :: "(bytes \<Rightarrow> bytes) \<Rightarrow> bytes \<times> bytes \<Rightarrow> bytes \<times> bytes \<Rightarrow> bool" where
  "collide sha p q = (fst p @ snd p \<noteq> fst q @ snd q \<and> Sha256d sha (fst p @ snd p) = Sha256d sha (fst q @ snd q))"

lemma length_node [simp]: "length (node sha l r) = 32"
  by (simp add: node_def Let_def)

lemma layer_32: "\<forall>t\<in>set txs. length t = 32 \<Longrightarrow> x \<in> set (layer sha txs h) \<Longrightarrow> length x = 32"
  by (cases h) (auto simp: next_layer_def)

definition hashes_32 :: "PathElement list list \<Rightarrow> bool" where
  "hashes_32 path = list_all (list_all (\<lambda>e. case Hash e of Some h \<Rightarrow> length h = 32 | None \<Rightarrow> True)) path"

lemma stored_32:
  "hashes_32 path \<Longrightarrow> stored_leaf (map index_level path) h i = Some e \<Longrightarrow> Hash e = Some x \<Longrightarrow> length x = 32"
  using stored_leaf_SomeD [of path h i e] by (fastforce simp: hashes_32_def list_all_iff)

lemma MerkleTreeParent_Inr:
  "MerkleTreeParent sha l r = Inr x \<longleftrightarrow> (\<exists>a b. l = Some a \<and> r = Some b \<and> x = node sha a b)"
  by (auto simp: MerkleTreeParent_def split: option.splits)

lemma GetOffsetLeaf_SucE:
  assumes "GetOffsetLeaf sha ip (Suc h) i = (Inr x :: 's fault + _)"
  obtains (stored) e where "stored_leaf ip (Suc h) i = Some e" "x = Some e"
  | (derived) l r where "stored_leaf ip (Suc h) i = None"
    "GetOffsetLeaf sha ip h (i * 2) = (Inr l :: 's fault + _)" "GetOffsetLeaf sha ip h (i * 2 + 1) = (Inr r :: 's fault + _)"
proof (cases "stored_leaf ip (Suc h) i")
  case None
  then show ?thesis using assms derived by (auto simp: res_simps)
next
  case (Some e)
  then have "x = Some e" using assms by simp
  then show ?thesis using stored [OF Some] by simp
qed

lemma GetOffsetLeaf_32:
  assumes "hashes_32 path" "GetOffsetLeaf sha (map index_level path) h i = (Inr (Some e) :: 's fault + _)" "Hash e = Some x"
  shows "length x = 32"
proof (cases h)
  case 0
  then show ?thesis using assms(2,3) stored_32 [OF assms(1)] by simp
next
  case (Suc g)
  from assms(2) [unfolded Suc] show ?thesis
  proof (cases rule: GetOffsetLeaf_SucE)
    case (stored e')
    then show ?thesis using assms(3) stored_32 [OF assms(1)] by simp
  next
    case (derived l r)
    then show ?thesis
      using assms(2,3) Suc by (cases l; cases r) (auto simp: MerkleTreeParent_def split: option.split_asm if_split_asm)
  qed
qed

text \<open>The lookup does not depend on the type of the state that a fault may carry.\<close>

lemma GetOffsetLeaf_Inr:
  "GetOffsetLeaf sha ip h i = (Inr x :: 's fault + _) \<Longrightarrow> GetOffsetLeaf sha ip h i = (Inr x :: 't fault + _)"
proof (induction h arbitrary: i x)
  case (Suc h)
  from Suc.prems show ?case
  proof (cases rule: GetOffsetLeaf_SucE)
    case (derived l r)
    then have "GetOffsetLeaf sha ip h (i * 2) = (Inr l :: 't fault + _)"
      "GetOffsetLeaf sha ip h (i * 2 + 1) = (Inr r :: 't fault + _)"
      using Suc.IH by blast+
    then show ?thesis
      using Suc.prems derived
      by (cases l; cases r) (auto simp: MerkleTreeParent_def split: option.split_asm if_split_asm)
  qed simp
qed simp

lemma climb_step:
  assumes "climb sha ip i (Suc k) h w = (Inr r :: 's fault + _)"
  obtains leaf where "GetOffsetLeaf sha ip h (drop_bit h i XOR 1) = (Inr (Some leaf) :: 's fault + _)"
    and "\<not> is_set (Duplicate leaf) \<Longrightarrow> Hash leaf \<noteq> None"
    and "climb sha ip i k (h + 1) (node sha (fst (step_pair (drop_bit h i XOR 1) leaf w))
        (snd (step_pair (drop_bit h i XOR 1) leaf w))) = (Inr r :: 's fault + _)"
proof -
  let ?o = "drop_bit h i XOR 1"
  obtain leaf x where l: "GetOffsetLeaf sha ip h ?o = (Inr (Some leaf) :: 's fault + _)"
    and x: "(if is_set (Duplicate leaf) then MerkleTreeParent sha (Some w) (Some w)
        else if ?o mod 2 \<noteq> 0 then MerkleTreeParent sha (Some w) (Hash leaf)
        else MerkleTreeParent sha (Hash leaf) (Some w)) = (Inr x :: 's fault + _)"
    and r: "climb sha ip i k (h + 1) x = (Inr r :: 's fault + _)"
    using assms by (auto simp: Let_def res_simps split: option.splits)
  have "x = node sha (fst (step_pair ?o leaf w)) (snd (step_pair ?o leaf w))"
    using x by (auto simp: step_pair_def MerkleTreeParent_Inr Let_def split: if_splits)
  moreover have "Hash leaf \<noteq> None" if "\<not> is_set (Duplicate leaf)"
    using x that by (auto simp: MerkleTreeParent_Inr split: if_splits)
  ultimately show ?thesis
    using that l r by blast
qed

lemma collideI:
  assumes "node sha (fst p) (snd p) = node sha (fst q) (snd q)" "p \<noteq> q" "\<forall>b. length (sha b) = 32"
    "length (fst p) = 32" "length (fst q) = 32"
  shows "collide sha p q"
  using assms by (auto simp: collide_def node_def Sha256d_def Let_def prod_eq_iff)

lemma climb_sound:
  assumes ok: "\<forall>b. length (sha b) = 32" "\<forall>t\<in>set txs. length t = 32" "hashes_32 path"
    and "climb sha (map index_level path) i k h w = (Inr r :: 's fault + _)" "r \<in> set (layer sha txs (h + k))" "length w = 32"
  shows "w \<in> set (layer sha txs h)
    \<or> (\<exists>p\<in>set (climb_pairs sha (map index_level path) i k h w). \<exists>g\<in>{h..<h + k}. \<exists>q\<in>set (pairs (layer sha txs g)). collide sha p q)"
  using assms(4-)
proof (induction k arbitrary: h w)
  case (Suc k)
  let ?ip = "map index_level path" and ?o = "drop_bit h i XOR 1"
  from climb_step [OF Suc.prems(1)]
  obtain leaf where l: "GetOffsetLeaf sha ?ip h ?o = (Inr (Some leaf) :: 's fault + _)"
    and ex: "\<not> is_set (Duplicate leaf) \<Longrightarrow> Hash leaf \<noteq> None"
    and r: "climb sha ?ip i k (h + 1) (node sha (fst (step_pair ?o leaf w)) (snd (step_pair ?o leaf w))) = (Inr r :: 's fault + _)"
    by blast
  define p where "p = step_pair ?o leaf w"
  have pairs: "climb_pairs sha ?ip i (Suc k) h w = p # climb_pairs sha ?ip i k (h + 1) (node sha (fst p) (snd p))"
    using GetOffsetLeaf_Inr [OF l, where 't = unit] by (simp add: p_def Let_def)
  have p: "w = fst p \<or> w = snd p" "length (fst p) = 32"
    using Suc.prems(3) ex GetOffsetLeaf_32 [OF ok(3) l] by (auto simp: p_def step_pair_def Let_def)
  from Suc.IH [of "h + 1" "node sha (fst p) (snd p)"] r Suc.prems(2)
  consider "node sha (fst p) (snd p) \<in> set (layer sha txs (h + 1))"
    | "\<exists>p'\<in>set (climb_pairs sha ?ip i k (h + 1) (node sha (fst p) (snd p))).
         \<exists>g\<in>{h + 1..<h + 1 + k}. \<exists>q\<in>set (pairs (layer sha txs g)). collide sha p' q"
    by (auto simp: p_def)
  then show ?case
  proof cases
    case 1
    then obtain q where q: "q \<in> set (pairs (layer sha txs h))" "node sha (fst p) (snd p) = node sha (fst q) (snd q)"
      by (auto simp: next_layer_def)
    show ?thesis
    proof (cases "p = q")
      case True
      then show ?thesis using p(1) set_pairs [OF q(1)] by auto
    next
      case False
      then have "collide sha p q"
        using collideI [OF q(2) False ok(1) p(2)] layer_32 [OF ok(2)] set_pairs [OF q(1)] by blast
      moreover have "p \<in> set (climb_pairs sha ?ip i (Suc k) h w)"
        unfolding pairs by simp
      moreover have "h \<in> {h..<h + Suc k}" by simp
      ultimately show ?thesis using q(1) by blast
    qed
  next
    case 2
    then show ?thesis unfolding pairs by fastforce
  qed
qed simp


definition demo_tracker :: "bytes option \<Rightarrow> u32 \<Rightarrow> unit fault + bool" where
  "demo_tracker r h = Inr (h = 5 \<and> r = Some (merkle_root demo_sha demo_block))"


end
