(* ===== verification/Merkle_Combine.thy ===== *)
theory Merkle_Combine
  imports Merkle_Root
begin

text \<open>
  \<open>Combine\<close>: the combination of two paths of one block is a path of that block, and every transaction that one of the two
  proves is proved by the combination, although \<open>Combine\<close> drops the nodes that can be derived from both their children.
\<close>

subsection \<open>The merged levels\<close>

lemma set_update: "p \<in> set (AList.update k v al) \<Longrightarrow> p = (k, v) \<or> p \<in> set al"
  by (induction al) (auto split: if_splits)

lemma set_put_leaves: "(k, e) \<in> set (put_leaves m lv) \<Longrightarrow> (k, e) \<in> set m \<or> e \<in> set lv \<and> k = Offset e"
  unfolding put_leaves_def
  by (induction lv arbitrary: m) (auto dest!: set_update)

lemma map_of_put_leaves_ex:
  "map_of (put_leaves m lv) x \<noteq> None \<longleftrightarrow> map_of m x \<noteq> None \<or> (\<exists>e\<in>set lv. Offset e = x)"
  using find_None_iff [of "\<lambda>e. Offset e = x" "rev lv"]
  by (auto simp: map_of_put_leaves split: option.split)

lemma map_of_ex: "map_of m x \<noteq> None \<longleftrightarrow> (\<exists>e. (x, e) \<in> set m)"
  by (metis map_of_SomeD not_None_eq weak_map_of_SomeI)

text \<open>Level \<open>h\<close> of the combination of the paths \<open>p\<close> and \<open>q\<close>.\<close>

definition merged :: "PathElement list list \<Rightarrow> PathElement list list \<Rightarrow> nat \<Rightarrow> level_index" where
  "merged p q h = put_leaves (index_level (p ! h)) (if h < length q then q ! h else [])"

lemma merge_levels_eq:
  "length q \<le> length ip \<Longrightarrow>
   merge_levels ip q = Inr (map (\<lambda>h. put_leaves (ip ! h) (if h < length q then q ! h else [])) [0 ..< length ip])"
proof (induction ip q rule: merge_levels.induct)
  case (1 ip)
  then show ?case by (simp add: put_leaves_def map_nth)
next
  case (3 m ip lv lvs)
  then show ?case
    by (simp add: upt_conv_Cons map_Suc_upt [symmetric] del: upt_Suc)
qed simp

lemma merge_levels_merged:
  "length q \<le> length p \<Longrightarrow> merge_levels (map index_level p) q = Inr (map (merged p q) [0 ..< length p])"
  by (simp add: merge_levels_eq merged_def)

lemma merged_ex:
  "map_of (merged p q h) x \<noteq> None \<longleftrightarrow>
   (\<exists>e\<in>set (p ! h). Offset e = x) \<or> h < length q \<and> (\<exists>e\<in>set (q ! h). Offset e = x)"
  unfolding merged_def index_level_def map_of_put_leaves_ex by auto

lemma merged_set:
  "(k, e) \<in> set (merged p q h) \<Longrightarrow> k = Offset e \<and> (e \<in> set (p ! h) \<or> h < length q \<and> e \<in> set (q ! h))"
  by (auto simp: merged_def index_level_def dest!: set_put_leaves split: if_splits)

subsection \<open>The pruned levels\<close>

definition combination :: "PathElement list list \<Rightarrow> PathElement list list \<Rightarrow> PathElement list list" where
  "combination p q = (let c = map (merged p q) [0 ..< length p] in map (prune_level c) [0 ..< length c])"

lemma length_combination [simp]: "length (combination p q) = length p"
  by (simp add: combination_def)

lemma set_combination:
  assumes "h < length p"
  shows "e \<in> set (combination p q ! h) \<longleftrightarrow>
    (\<exists>k. (k, e) \<in> set (merged p q h) \<and> \<not> (h > 0 \<and> has_both (merged p q (h - 1)) k))"
proof -
  let ?c = "map (merged p q) [0 ..< length p]"
  have "combination p q ! h = prune_level ?c h" "?c ! h = merged p q h" "?c ! (h - 1) = merged p q (h - 1)"
    using assms by (simp_all add: combination_def)
  then show ?thesis
    by (auto simp: prune_level_def image_iff)
qed

lemma combination_stored:
  assumes "h < length p" "map_of (merged p q h) x \<noteq> None" "\<not> (h > 0 \<and> has_both (merged p q (h - 1)) x)"
  shows "stored_leaf (map index_level (combination p q)) h x \<noteq> None"
proof -
  obtain e where e: "(x, e) \<in> set (merged p q h)"
    using map_of_ex [THEN iffD1, OF assms(2)] by blast
  then have "e \<in> set (combination p q ! h)"
    using assms(1,3) by (auto simp: set_combination)
  then show ?thesis
    using assms(1) merged_set [OF e] by (auto simp: stored_leaf_ex simp del: not_None_eq)
qed

text \<open>Nothing is lost: what was stored can still be looked up.\<close>

lemma combination_avail:
  "h < length p \<Longrightarrow> map_of (merged p q h) (word_of_nat k) \<noteq> None \<Longrightarrow> avail (map index_level (combination p q)) h k"
proof (induction h arbitrary: k)
  case 0
  then show ?case using combination_stored [of 0 p q "word_of_nat k"] by (simp del: not_None_eq)
next
  case (Suc h)
  show ?case
  proof (cases "has_both (merged p q h) (word_of_nat k)")
    case True
    then have "avail (map index_level (combination p q)) h (2 * k)" "avail (map index_level (combination p q)) h (2 * k + 1)"
      using Suc.prems(1) by (auto intro!: Suc.IH simp: has_both_def mult.commute add.commute simp del: not_None_eq)
    then show ?thesis by simp
  next
    case False
    then show ?thesis
      using combination_stored [of "Suc h" p q "word_of_nat k"] Suc.prems by (simp del: not_None_eq)
  qed
qed

lemma avail_mono:
  assumes "\<And>h k. stored_leaf ip h (word_of_nat k) \<noteq> None \<Longrightarrow> avail ip' h k"
  shows "avail ip h k \<Longrightarrow> avail ip' h k"
proof (induction h arbitrary: k)
  case 0
  then show ?case using assms [of 0 k] by simp
next
  case (Suc h)
  show ?case
  proof (cases "stored_leaf ip (Suc h) (word_of_nat k)")
    case None
    then show ?thesis using Suc by auto
  next
    case (Some e)
    then show ?thesis using assms [of "Suc h" k] by blast
  qed
qed

lemma combination_covers:
  assumes "length q \<le> length p" "avail (map index_level p) h k \<or> avail (map index_level q) h k"
  shows "avail (map index_level (combination p q)) h k"
proof -
  have "avail (map index_level (combination p q)) h k" if "stored_leaf (map index_level p) h (word_of_nat k) \<noteq> None
      \<or> stored_leaf (map index_level q) h (word_of_nat k) \<noteq> None" for h k
    using that assms(1) by (intro combination_avail) (auto simp: stored_leaf_ex merged_ex simp del: not_None_eq)
  then show ?thesis
    using assms(2) avail_mono by blast
qed

lemma combination_consistent:
  assumes "length q \<le> length p" "consistent sha txs p" "consistent sha txs q"
  shows "consistent sha txs (combination p q)"
  unfolding consistent_iff
proof (intro allI impI ballI)
  fix h e
  assume h: "h < length (combination p q)" and "e \<in> set (combination p q ! h)"
  then obtain k where "(k, e) \<in> set (merged p q h)"
    by (auto simp: set_combination)
  then show "fits (layer sha txs h) (unat (Offset e)) e"
    using merged_set [of k e p q h] assms h by (auto simp: consistent_iff simp del: layer_0)
qed

subsection \<open>The combined path\<close>

lemma bit_length_mono: "m \<le> n \<Longrightarrow> bit_length m \<le> bit_length n"
  using less_two_power_bit_length [of n] by (intro bit_length_le) simp

lemma max_offset_snoc: "max_offset (lv @ [e]) = max (max_offset lv) (Offset e)"
  by (auto simp: max_offset_def max_def less_imp_le)

lemma max_offset_le: "max_offset lv \<le> m \<longleftrightarrow> (\<forall>x\<in>Offset ` set lv. x \<le> m)"
  by (induction lv rule: rev_induct) (auto simp: max_offset_snoc max_offset_def)

lemma Len64_mono: "a \<le> b \<Longrightarrow> Len64 a \<le> Len64 b"
  by (simp add: Len64_def bit_length_mono word_le_nat_alt)

lemma set_combination_0: "p \<noteq> [] \<Longrightarrow> e \<in> set (combination p q ! 0) \<longleftrightarrow> (\<exists>k. (k, e) \<in> set (merged p q 0))"
  by (simp add: set_combination)

lemma offsets_combination_0:
  assumes "p \<noteq> []"
  shows "Offset ` set (combination p q ! 0) = Offset ` set (p ! 0) \<union> (if q = [] then {} else Offset ` set (q ! 0))"
proof (rule set_eqI)
  fix x
  have "x \<in> Offset ` set (combination p q ! 0) \<longleftrightarrow> (\<exists>e. (x, e) \<in> set (merged p q 0))"
    unfolding image_iff Bex_def set_combination_0 [OF assms] using merged_set by blast
  also have "\<dots> \<longleftrightarrow> (\<exists>e\<in>set (p ! 0). Offset e = x) \<or> 0 < length q \<and> (\<exists>e\<in>set (q ! 0). Offset e = x)"
    unfolding map_of_ex [symmetric] by (rule merged_ex)
  also have "\<dots> \<longleftrightarrow> x \<in> Offset ` set (p ! 0) \<or> q \<noteq> [] \<and> x \<in> Offset ` set (q ! 0)"
    unfolding image_iff by blast
  finally show "x \<in> Offset ` set (combination p q ! 0) \<longleftrightarrow>
      x \<in> Offset ` set (p ! 0) \<union> (if q = [] then {} else Offset ` set (q ! 0))"
    by simp
qed

lemma effectiveHeight_combination:
  assumes "p \<noteq> []" "q \<noteq> []" "length q \<le> length p"
    and "effectiveHeight m = H" "effectiveHeight n = H" "Path m = p" "Path n = q" "Path r = combination p q"
  shows "effectiveHeight r = H"
proof -
  let ?a = "max_offset (p ! 0)" and ?b = "max_offset (q ! 0)" and ?c = "max_offset (combination p q ! 0)"
  have le: "?c \<le> x \<longleftrightarrow> ?a \<le> x \<and> ?b \<le> x" for x
    using assms(2) by (simp only: max_offset_le offsets_combination_0 [OF assms(1)] if_False ball_Un)
  have "?c = max ?a ?b"
    using le [of "max ?a ?b"] le [of ?c] by (intro antisym) simp_all
  then have "Len64 ?c = max (Len64 ?a) (Len64 ?b)"
    by (simp add: max_def Len64_mono antisym)
  then show ?thesis
    using assms(3-) by (auto simp: effectiveHeight_def max_def split: if_splits)
qed

text \<open>What it means for a path to prove its first transaction, in a block of at least two.\<close>

lemma no_hash: "find (\<lambda>l. (\<exists>y. Hash l = Some y) \<and> Hash l = None) lv = None"
  by (auto simp: find_None_iff)

lemma ComputeRoot_None:
  "Path mp \<noteq> [] \<Longrightarrow> \<not> single mp \<Longrightarrow>
   ComputeRoot sha mp None = (case first_hash (Path mp ! 0) of None \<Rightarrow> Inl Panic | Some t \<Rightarrow> ComputeRoot sha mp (Some t))"
  by (cases "first_hash (Path mp ! 0)") (auto simp: ComputeRoot_def single_def Let_def no_hash)

lemma first_hash_Some:
  assumes "first_hash lv = Some t"
  shows "\<exists>e. find (\<lambda>l. Hash l = Some t) lv = Some e"
proof -
  obtain e where "e \<in> set lv" "Hash e = Some t"
    using assms by (auto simp: first_hash_def split: option.splits dest!: find_Some_iff)
  then show ?thesis
    by (metis (mono_tags, lifting) find_None_iff option.exhaust)
qed

lemma not_single:
  assumes "proof_height mp = tree_height (length txs)" "2 \<le> length txs"
  shows "\<not> single mp"
proof -
  have "bit_length (length txs - 1) \<noteq> 0"
    using assms(2) by (subst bit_length.simps) simp
  then show ?thesis
    using assms(1) by (auto simp: proof_height_def tree_height_def)
qed

lemma two_offsets:
  assumes "proves mp (unat (Offset e))" "e \<in> set (Path mp ! 0)" "0 < proof_height mp" "unat (Offset e) < 2 ^ 62"
  shows "1 < card (Offset ` set (Path mp ! 0))"
proof -
  let ?i = "unat (Offset e)"
  have all: "\<forall>g\<in>{0..<proof_height mp}. avail (map index_level (Path mp)) g (sib (?i div 2 ^ g))"
    using assms(1) by (simp add: proves_def covered_def list_all_iff)
  have "avail (map index_level (Path mp)) 0 (sib (?i div 2 ^ 0))"
    by (rule bspec [OF all]) (use assms(3) in simp)
  then obtain e' where e': "e' \<in> set (Path mp ! 0)" "Offset e' = word_of_nat (sib ?i)"
    by (auto simp: stored_leaf_ex simp del: not_None_eq)
  have "sib ?i < 2 ^ 64" "sib ?i \<noteq> ?i"
    using assms(4) by (auto simp: sib_def elim: oddE)
  then have "unat (Offset e') \<noteq> ?i"
    by (simp add: e'(2) unsigned_of_nat take_bit_eq_mod)
  then have "Offset e' \<noteq> Offset e" by auto
  then have "card {Offset e, Offset e'} = 2" by simp
  moreover have "card {Offset e, Offset e'} \<le> card (Offset ` set (Path mp ! 0))"
    using assms(2) e'(1) by (intro card_mono) auto
  ultimately show ?thesis by simp
qed

lemma proves_first:
  assumes c: "consistent sha txs (Path mp)" "proof_height mp = tree_height (length txs)" "length txs \<le> 2 ^ 62" "2 \<le> length txs"
    and ok: "is_ok (ComputeRoot sha mp None :: 's fault + _)"
  shows "Path mp \<noteq> []" "ComputeRoot sha mp None = (Inr (Some (merkle_root sha txs)) :: 's fault + _)"
    "1 < card (Offset ` set (Path mp ! 0))"
proof -
  show path: "Path mp \<noteq> []"
    using ok by (auto simp: ComputeRoot_def)
  obtain t e where t: "ComputeRoot sha mp None = (ComputeRoot sha mp (Some t) :: 's fault + _)"
    and e: "find (\<lambda>l. Hash l = Some t) (Path mp ! 0) = Some e"
    using ok ComputeRoot_None [OF path not_single [OF c(2,4)], of sha] first_hash_Some [of "Path mp ! 0"]
    by (auto split: option.split_asm)
  note leaf = ComputeRoot_correct_leaf(1,2) [OF c(1-3) path e]
    and root = ComputeRoot_correct_leaf(3) [OF c(1-3) path e, where 's = 's]
  have p: "proves mp (unat (Offset e))"
    using ok t root by (auto split: if_split_asm)
  then show "ComputeRoot sha mp None = (Inr (Some (merkle_root sha txs)) :: 's fault + _)"
    using root t by simp
  have "0 < proof_height mp"
    using not_single [OF c(2,4)] path by (simp add: proof_height_def effectiveHeight_def less_max_iff_disj)
  then show "1 < card (Offset ` set (Path mp ! 0))"
    using two_offsets [OF p] find_Some_iff [OF e] leaf(1) c(3) by simp
qed

text \<open>A transaction that a path proves is proved by every larger path of the block.\<close>

lemma proves_larger:
  assumes c: "consistent sha txs (Path mp)" "proof_height mp = tree_height (length txs)" "Path mp \<noteq> []" "\<not> single mp"
    and r: "consistent sha txs (Path r)" "proof_height r = tree_height (length txs)" "Path r \<noteq> []"
    and txs: "length txs \<le> 2 ^ 62" "distinct txs"
    and sub: "Offset ` set (Path mp ! 0) \<subseteq> Offset ` set (Path r ! 0)"
      "\<And>h k. avail (map index_level (Path mp)) h k \<Longrightarrow> avail (map index_level (Path r)) h k"
    and t: "ComputeRoot sha mp (Some t) = (Inr (Some (merkle_root sha txs)) :: 's fault + _)"
  shows "ComputeRoot sha r (Some t) = (Inr (Some (merkle_root sha txs)) :: 's fault + _)"
proof -
  obtain e where e: "find (\<lambda>l. Hash l = Some t) (Path mp ! 0) = Some e"
    using t ComputeRoot_absent [OF c(3,4), of t sha, where 's = 's]
    by (cases "find (\<lambda>l. Hash l = Some t) (Path mp ! 0)") (auto simp: find_None_iff)
  note leaf = ComputeRoot_correct_leaf(1,2) [OF c(1,2) txs(1) c(3) e]
    and root = ComputeRoot_correct_leaf(3) [OF c(1,2) txs(1) c(3) e, where 's = 's]
  have "Offset e \<in> Offset ` set (Path r ! 0)"
    using sub(1) find_Some_iff [OF e] by blast
  then obtain e' where e': "e' \<in> set (Path r ! 0)" "Offset e' = Offset e"
    by (auto simp: image_iff)
  then have "Hash e' = Some t"
    using r(1,3) leaf(1,2) by (force simp: consistent_iff fits_def split: if_split_asm)
  then obtain f where f: "find (\<lambda>l. Hash l = Some t) (Path r ! 0) = Some f"
    using e'(1) by (metis (mono_tags, lifting) find_None_iff option.exhaust)
  note leaf' = ComputeRoot_correct_leaf(1,2) [OF r(1,2) txs(1) r(3) f]
    and root' = ComputeRoot_correct_leaf(3) [OF r(1,2) txs(1) r(3) f, where 's = 's]
  have "unat (Offset f) = unat (Offset e)"
    using leaf(1,2) leaf'(1,2) txs(2) nth_eq_iff_index_eq by blast
  moreover have "proves mp (unat (Offset e))"
    using t root by (auto split: if_split_asm)
  then have "proves r (unat (Offset e))"
    using sub(2) c(2) r(2) by (auto simp: proves_def covered_def list_all_iff)
  ultimately show ?thesis
    using root' by simp
qed

lemma Combine_eq:
  assumes "BlockHeight m = BlockHeight other" "length (Path other) \<le> length (Path m)"
    and "ComputeRoot sha m None = (Inr (Some x) :: 's fault + _)" "ComputeRoot sha other None = (Inr (Some x) :: 's fault + _)"
  shows "Combine sha m other = (Inr (m\<lparr>Path := combination (Path m) (Path other)\<rparr>) :: 's fault + _)"
  using assms by (simp add: Combine_def ComputeRootHex_def merge_levels_merged combination_def Let_def)

lemma not_single_card: "1 < card (Offset ` set (Path mp ! 0)) \<Longrightarrow> \<not> single mp"
  using card_length [of "map Offset (Path mp ! 0)"] by (auto simp: single_def)


definition demo_a :: MerklePath where
  "demo_a = \<lparr>BlockHeight = 5, Path =
     [[leaf_at 0 (replicate 32 1), leaf_at 1 (replicate 32 2)],
      [leaf_at 1 (node demo_sha (replicate 32 3) (replicate 32 3))]]\<rparr>"

definition demo_b :: MerklePath where
  "demo_b = \<lparr>BlockHeight = 5, Path =
     [[leaf_at 2 (replicate 32 3), marker_at 3],
      [leaf_at 0 (node demo_sha (replicate 32 1) (replicate 32 2))]]\<rparr>"


subsection \<open>Missing hashes\<close>

text \<open>\<open>ComputeMissingHashes\<close> takes a level whose largest offset is even and whose offset before it is present for a complete level of odd
  length. On a sparse path of a block of eight transactions it adds a marker where the tree has a node, and the path is no longer consistent with its block.\<close>

definition demo_eight :: "bytes list" where
  "demo_eight = map (\<lambda>k. replicate 32 (word_of_nat k)) [0 ..< 8]"

definition demo_sparse :: MerklePath where
  "demo_sparse = \<lparr>BlockHeight = 5, Path =
     [[], [leaf_at 1 (layer demo_sha demo_eight 1 ! 1), leaf_at 2 (layer demo_sha demo_eight 1 ! 2)]]\<rparr>"

lemma ComputeMissingHashes_false_marker:
  "consistent demo_sha demo_eight (Path demo_sparse)
   \<and> Path (ComputeMissingHashes demo_sha demo_sparse) ! 1 = Path demo_sparse ! 1 @ [marker_at 3]
   \<and> \<not> consistent demo_sha demo_eight (Path (ComputeMissingHashes demo_sha demo_sparse))"
  by (intro conjI; code_simp)

end
