(* ===== verification/P2PKH.thy ===== *)
theory P2PKH
  imports Data_Ops
begin

text \<open>
  The standard payment to a public key hash, run by the engine from the options to the verdict. The theory has what a
  symbolic run needs: parsing of scripts of pushes and plain opcodes, and the steps of a thread without open conditionals.
\<close>

subsection \<open>Parsing plain scripts\<close>

definition plain_op :: "ParsedOpcode \<Rightarrow> bool" where
  "plain_op p = (op p = opcode_at (opval (op p))
     \<and> (1 \<le> length (Data p) \<and> length (Data p) \<le> 75 \<and> opval (op p) = word_of_nat (length (Data p))
        \<or> Data p = [] \<and> opcode_length (opval (op p)) = 1 \<and> opval (op p) \<notin> {OpIF, OpNOTIF, OpVERIF, OpVERNOTIF, OpENDIF, OpRETURN}))"

definition flat :: "ParsedOpcode \<Rightarrow> bytes" where
  "flat p = opval (op p) # Data p"

lemma small_push_code:
  assumes "1 \<le> n" "n \<le> 75"
  shows "unat (word_of_nat n :: byte) = n" "opcode_length (word_of_nat n) = int n + 1"
    "\<And>b. 75 < unat b \<Longrightarrow> (word_of_nat n :: byte) \<noteq> b"
proof -
  show n: "unat (word_of_nat n :: byte) = n"
    using assms by simp
  then show "opcode_length (word_of_nat n) = int n + 1"
    using assms by (auto simp: opcode_length_def word_le_nat_alt word_less_nat_alt word_unat_eq_iff unsigned_of_nat take_bit_eq_mod)
  show "(word_of_nat n :: byte) \<noteq> b" if "75 < unat b" for b
    using n assms that by auto
qed

lemma plain_op_at:
  assumes "plain_op p" "scr = pre @ flat p @ post"
  shows "updateConditionalDepth (scr ! length pre) d = (False, d)"
    "advancePosition scr (length pre) (scr ! length pre) = (Inr (length pre + length (flat p)) :: 's fault + _)"
    "parsed_at scr (length pre) = p"
proof -
  let ?i = "length pre" and ?v = "opval (op p)"
  have v: "scr ! ?i = ?v" and rest: "drop (Suc ?i) scr = Data p @ post" and len: "length scr = ?i + 1 + length (Data p) + length post"
    by (simp_all add: assms(2) flat_def nth_append)
  have op: "op p = opcode_at ?v"
    using assms(1) by (auto simp: plain_op_def)
  consider (push) "1 \<le> length (Data p)" "length (Data p) \<le> 75" "?v = word_of_nat (length (Data p))"
    | (code) "Data p = []" "opcode_length ?v = 1" "?v \<notin> {OpIF, OpNOTIF, OpVERIF, OpVERNOTIF, OpENDIF, OpRETURN}"
    using assms(1) by (auto simp: plain_op_def)
  then have "updateConditionalDepth ?v d = (False, d)
    \<and> advancePosition scr ?i ?v = (Inr (?i + length (flat p)) :: 's fault + _) \<and> opcode_data scr ?i (opcode_at ?v) = Data p"
  proof cases
    case push
    note n = small_push_code [OF push(1,2)]
    have "?v \<noteq> b" if "75 < unat b" for b
      using n(3) [OF that] push(3) by simp
    then have ne: "?v \<noteq> 0x4C" "?v \<noteq> 0x4D" "?v \<noteq> 0x4E" "?v \<noteq> 0x63" "?v \<noteq> 0x64" "?v \<noteq> 0x65" "?v \<noteq> 0x66" "?v \<noteq> 0x68" "?v \<noteq> 0x6A"
      by simp_all
    have l: "opcode_length ?v = int (length (Data p)) + 1"
      using n(2) push(3) by simp
    show ?thesis
      using push(1) by (simp add: updateConditionalDepth_def advancePosition_def opcode_data_def ne l rest len flat_def nat_add_distrib Suc_le_eq)
  next
    case code
    then have "?v \<noteq> 0x4C" "?v \<noteq> 0x4D" "?v \<noteq> 0x4E"
      by (auto simp: opcode_length_def word_le_nat_alt)
    then show ?thesis
      using code by (simp add: updateConditionalDepth_def advancePosition_def opcode_data_def len flat_def)
  qed
  then show "updateConditionalDepth (scr ! ?i) d = (False, d)"
    "advancePosition scr ?i (scr ! ?i) = (Inr (?i + length (flat p)) :: 's fault + _)" "parsed_at scr ?i = p"
    using op by (simp_all add: v)
qed

lemma parse_ops_plain:
  assumes "\<forall>p\<in>set ps. plain_op p" "\<not> (e \<and> (\<exists>p\<in>set ps. RequiresTx p))"
  shows "parse_ops e (pre @ concat (map flat ps)) (length pre) d acc = (Inr (acc @ ps) :: 's fault + _)"
  using assms
proof (induction ps arbitrary: pre acc)
  case Nil
  then show ?case by (simp add: parse_ops_end)
next
  case (Cons p ps)
  define scr where "scr = pre @ concat (map flat (p # ps))"
  have cut: "scr = pre @ flat p @ concat (map flat ps)" and p: "plain_op p" and i: "length pre < length scr"
    using Cons.prems(1) by (simp_all add: scr_def flat_def)
  note at = plain_op_at [OF p cut]
  have "parse_ops e scr (length pre) d acc = (parse_ops e scr (length pre + length (flat p)) d (acc @ [p]) :: 's fault + _)"
    using Cons.prems(2) by (subst parse_ops_step [OF i at(1)]) (auto simp: at(2,3))
  also have "\<dots> = Inr (acc @ p # ps)"
    using Cons.IH [of "pre @ flat p" "acc @ [p]"] Cons.prems by (simp add: cut)
  finally show ?case by (simp add: scr_def)
qed

lemma count_ops_plain:
  assumes "\<forall>p\<in>set ps. plain_op p"
  shows "\<exists>m. count_ops (pre @ concat (map flat ps)) (length pre) d n = (Inr m :: 's fault + _)"
  using assms
proof (induction ps arbitrary: pre n)
  case Nil
  then show ?case by (simp add: count_ops_end)
next
  case (Cons p ps)
  define scr where "scr = pre @ concat (map flat (p # ps))"
  have cut: "scr = pre @ flat p @ concat (map flat ps)" and p: "plain_op p" and i: "length pre < length scr"
    using Cons.prems by (simp_all add: scr_def flat_def)
  note at = plain_op_at [OF p cut]
  have "count_ops scr (length pre) d n = (count_ops scr (length pre + length (flat p)) d (n + 1) :: 's fault + _)"
    by (subst count_ops_step [OF i at(1)]) (simp add: at(2))
  then show ?case
    using Cons.IH [of "pre @ flat p" "n + 1"] Cons.prems by (simp add: cut)
qed

lemma Parse_plain:
  assumes "\<forall>p\<in>set ps. plain_op p" "\<not> (e \<and> (\<exists>p\<in>set ps. RequiresTx p))"
  shows "Parse e (concat (map flat ps)) = (Inr ps :: 's fault + _)"
  using count_ops_plain [OF assms(1), of "[]" 0 0, where 's = 's] parse_ops_plain [OF assms, of "[]" 0 "[]", where 's = 's]
  by (auto simp: Parse_def)

subsection \<open>Straight execution\<close>

lemma limits_large: "520 \<le> MaxScriptElementSize g" "500 \<le> MaxOps g" "1000 \<le> i32 (MaxStackSize g)"
  by (cases g; simp add: config_defs)+

text \<open>An opcode that none of the checks stop.\<close>

lemma executeOpcode_straight:
  assumes "condStack t = []" "\<not> earlyReturnAfterGenesis t" "length (Data p) \<le> 520" "\<not> IsDisabled p" "\<not> AlwaysIllegal p"
    and "numOps t < 500" "opval (op p) \<le> OpPUSHDATA4 \<longrightarrow> enforceMinimumDataPush p = (Inr () :: thread fault + _)"
  shows "executeOpcode c p t = op_exec c p (if opval (op p) > Op16 then t\<lparr>numOps := numOps t + 1\<rparr> else t)"
proof -
  let ?t = "if opval (op p) > Op16 then t\<lparr>numOps := numOps t + 1\<rparr> else t"
  have "\<not> int (length (Data p)) > MaxScriptElementSize (cfg t)" "\<not> numOps t + 1 > MaxOps (cfg t)"
    using assms(3,6) limits_large(1,2) [of "cfg t"] by linarith+
  moreover have "shouldExec t p" "isBranchExecuting ?t"
    using assms(1,2) by (simp_all add: shouldExec_def isBranchExecuting_def)
  ultimately show ?thesis
    using assms(4,5,7) by (auto simp: executeOpcode_def Let_def)
qed

lemma Step_executes:
  assumes "scriptIdx t < length (scripts t)" "scriptOff t < length (scripts t ! scriptIdx t)"
    and "executeOpcode c (scripts t ! scriptIdx t ! scriptOff t) t = Inr t1"
    and "length (stk (dstack t1)) + length (stk (astack t1)) \<le> 1000" "condStack t1 = []"
  shows "Step c t = (if scriptOff t1 + 1 < length (scripts t1 ! scriptIdx t1) then Inr (False, t1\<lparr>scriptOff := scriptOff t1 + 1\<rparr>)
    else next_script (t1\<lparr>scriptOff := scriptOff t1 + 1\<rparr>))"
proof -
  have "i32 (Depth (dstack t1) + Depth (astack t1)) = int (length (stk (dstack t1)) + length (stk (astack t1)))"
    using assms(4) by (simp add: i32_of_nat flip: of_nat_add)
  then have "\<not> i32 (Depth (dstack t1) + Depth (astack t1)) > i32 (MaxStackSize (cfg t1))"
    using assms(4) limits_large(3) [of "cfg t1"] by linarith
  then show ?thesis
    using assms by (simp add: Step_def validPC_def)
qed

lemma Step_fails:
  assumes "scriptIdx t < length (scripts t)" "scriptOff t < length (scripts t ! scriptIdx t)"
    and "executeOpcode c (scripts t ! scriptIdx t ! scriptOff t) t = Inl e" "tame e"
  shows "Step c t = Inl e"
  using assms by (cases e) (simp_all add: Step_def validPC_def)

lemma next_script_straight:
  assumes "stk (astack t) = []" "\<not> bip16 t"
  shows "next_script t = (let t = shiftScript t;
      t = (if scriptIdx t < length (scripts t) \<and> scripts t ! scriptIdx t = [] then t\<lparr>scriptIdx := scriptIdx t + 1\<rparr> else t)\<lparr>lastCodeSep := 0\<rparr>
    in Inr (scriptIdx t \<ge> length (scripts t), t))"
proof -
  have "DropN (astack t) (Depth (astack t)) = (Inl (Fail ErrInvalidStackOperation) :: thread fault + _)"
    using assms(1) by (simp add: DropN_def)
  then show ?thesis
    using assms(2) by (simp add: next_script_def shiftScript_def Let_def)
qed

lemma run_steps_Step:
  "Step c t = Inr (False, t') \<Longrightarrow> run_steps c t = run_steps c t'"
  "Step c t = Inr (True, t') \<Longrightarrow> run_steps c t = Some (Inr t')"
  "Step c t = Inl e \<Longrightarrow> run_steps c t = Some (Inl e)"
  by (subst run_steps.simps, simp)+

subsection \<open>The scripts\<close>

abbreviation code_op :: "byte \<Rightarrow> ParsedOpcode" where
  "code_op b \<equiv> \<lparr>op = opcode_at b, Data = []\<rparr>"

abbreviation push_op :: "bytes \<Rightarrow> ParsedOpcode" where
  "push_op d \<equiv> \<lparr>op = opcode_at (word_of_nat (length d)), Data = d\<rparr>"

definition p2pkh_lock :: "bytes \<Rightarrow> bytes" where
  "p2pkh_lock h = [OpDUP, OpHASH160, OpDATA20] @ h @ [OpEQUALVERIFY, OpCHECKSIG]"

definition p2pkh_unlock :: "bytes \<Rightarrow> bytes \<Rightarrow> bytes" where
  "p2pkh_unlock sig pk = word_of_nat (length sig) # sig @ word_of_nat (length pk) # pk"

definition p2pkh_ops :: "bytes \<Rightarrow> ParsedScript" where
  "p2pkh_ops h = [code_op OpDUP, code_op OpHASH160, push_op h, code_op OpEQUALVERIFY, code_op OpCHECKSIG]"

lemma plain_push: "1 \<le> length d \<Longrightarrow> length d \<le> 75 \<Longrightarrow> plain_op (push_op d)"
  by (simp add: plain_op_def)

lemma plain_codes: "plain_op (code_op OpDUP)" "plain_op (code_op OpHASH160)" "plain_op (code_op OpEQUALVERIFY)" "plain_op (code_op OpCHECKSIG)"
  by (simp_all add: plain_op_def opcode_length_def word_le_nat_alt)

lemma Parse_p2pkh_lock:
  assumes "length h = 20"
  shows "Parse False (p2pkh_lock h) = (Inr (p2pkh_ops h) :: 's fault + _)"
proof -
  have "concat (map flat (p2pkh_ops h)) = p2pkh_lock h"
    using assms by (simp add: p2pkh_ops_def p2pkh_lock_def flat_def)
  moreover have "\<forall>p\<in>set (p2pkh_ops h). plain_op p"
    using assms plain_push [of h] by (simp add: p2pkh_ops_def plain_codes)
  ultimately show ?thesis
    using Parse_plain [of "p2pkh_ops h" False, where 's = 's] by simp
qed

lemma Parse_p2pkh_unlock:
  assumes "1 \<le> length sig" "length sig \<le> 75" "1 \<le> length pk" "length pk \<le> 75"
  shows "Parse False (p2pkh_unlock sig pk) = (Inr [push_op sig, push_op pk] :: 's fault + _)"
proof -
  have "concat (map flat [push_op sig, push_op pk]) = p2pkh_unlock sig pk"
    by (simp add: p2pkh_unlock_def flat_def)
  then show ?thesis
    using Parse_plain [of "[push_op sig, push_op pk]" False, where 's = 's] assms by (simp add: plain_push)
qed

subsection \<open>The run\<close>

definition at :: "thread \<Rightarrow> nat \<Rightarrow> nat \<Rightarrow> int \<Rightarrow> bytes list \<Rightarrow> thread" where
  "at t i k n xs = t\<lparr>dstack := (dstack t)\<lparr>stk := xs\<rparr>, scriptIdx := i, scriptOff := k, numOps := n\<rparr>"

lemma at_simps [simp]:
  "scripts (at t i k n xs) = scripts t" "scriptIdx (at t i k n xs) = i" "scriptOff (at t i k n xs) = k"
  "numOps (at t i k n xs) = n" "condStack (at t i k n xs) = condStack t" "bip16 (at t i k n xs) = bip16 t"
  "earlyReturnAfterGenesis (at t i k n xs) = earlyReturnAfterGenesis t" "astack (at t i k n xs) = astack t"
  "dstack (at t i k n xs) = (dstack t)\<lparr>stk := xs\<rparr>" "lastCodeSep (at t i k n xs) = lastCodeSep t"
  "(at t i k n xs)\<lparr>numOps := m\<rparr> = at t i k m xs" "(at t i k n xs)\<lparr>scriptOff := j\<rparr> = at t i j n xs"
  "(at t i k n xs)\<lparr>dstack := (dstack t)\<lparr>stk := ys\<rparr>\<rparr> = at t i k n ys"
  by (simp_all add: at_def)

lemma op_exec_p2pkh:
  "op_exec c (code_op OpDUP) t = opcodeDup (code_op OpDUP) t"
  "op_exec c (code_op OpHASH160) t = opcodeHash160 c (code_op OpHASH160) t"
  "op_exec c (code_op OpEQUALVERIFY) t = opcodeEqualVerify (code_op OpEQUALVERIFY) t"
  "op_exec c (code_op OpCHECKSIG) t = opcodeCheckSig c (code_op OpCHECKSIG) t"
  by (simp_all add: op_exec_def opcodeExec_def nth_append opcodeExec_ops_def)

lemma op_exec_small_push:
  assumes "1 \<le> length d" "length d \<le> 75"
  shows "op_exec c (push_op d) t = opcodePushData (push_op d) t"
proof -
  have "opcodeExec c ! length d = opcodePushData"
    using assms by (cases d) (auto simp: opcodeExec_def opcodeExec_push_def nth_append nth_Cons')
  then show ?thesis
    using small_push_code(1) [OF assms] by (simp add: op_exec_def)
qed

text \<open>A thread at the start of a spend of the hash \<open>h\<close> with a signature and a key.\<close>

definition spending :: "bytes \<Rightarrow> bytes \<Rightarrow> bytes \<Rightarrow> thread \<Rightarrow> bool" where
  "spending h sig pk t = (scripts t = [[push_op sig, push_op pk], p2pkh_ops h] \<and> condStack t = []
     \<and> \<not> earlyReturnAfterGenesis t \<and> stk (astack t) = [] \<and> \<not> bip16 t \<and> lastCodeSep t = 0)"

lemma execute_push:
  assumes "condStack t = []" "\<not> earlyReturnAfterGenesis t" "2 \<le> length d" "length d \<le> 75" "n < 500"
  shows "executeOpcode c (push_op d) (at t i k n xs) = Inr (at t i k n (xs @ [d]))"
proof -
  have n: "unat (word_of_nat (length d) :: byte) = length d"
    using small_push_code(1) [of "length d"] assms(3,4) by simp
  have "enforceMinimumDataPush (push_op d) = (Inr () :: thread fault + _)"
    using assms(3,4) by (auto simp: enforceMinimumDataPush_def Let_def)
  moreover have "\<not> (word_of_nat (length d) :: byte) > 0x60"
    using n assms(4) by (simp add: word_less_nat_alt)
  moreover have "\<not> IsDisabled (push_op d)" "\<not> AlwaysIllegal (push_op d)"
    using small_push_code(3) [of "length d"] assms(3,4) by (auto simp: IsDisabled_def AlwaysIllegal_def)
  ultimately show ?thesis
    using executeOpcode_straight [of "at t i k n xs" "push_op d" c] op_exec_small_push [of d c] assms
    by (simp add: opcodePushData_def push_stk)
qed

lemma execute_code:
  assumes "condStack t = []" "\<not> earlyReturnAfterGenesis t" "n < 500"
    and "b \<in> {OpDUP, OpHASH160, OpEQUALVERIFY, OpCHECKSIG}"
  shows "executeOpcode c (code_op b) (at t i k n xs) = op_exec c (code_op b) (at t i k (n + 1) xs)"
proof -
  have "\<not> IsDisabled (code_op b)" "\<not> AlwaysIllegal (code_op b)" "b > 0x60" "\<not> b \<le> 0x4E"
    using assms(4) by (auto simp: IsDisabled_def AlwaysIllegal_def)
  then show ?thesis
    using executeOpcode_straight [of "at t i k n xs" "code_op b" c] assms(1-3) by simp
qed

lemma next_script_at:
  assumes "stk (astack t) = []" "\<not> bip16 t" "lastCodeSep t = 0" "\<not> earlyReturnAfterGenesis t"
    and "i + 1 < length (scripts t) \<Longrightarrow> scripts t ! (i + 1) \<noteq> []"
  shows "next_script (at t i k n xs) = Inr (length (scripts t) \<le> i + 1, at t (i + 1) 0 0 xs)"
proof -
  have "(shiftScript (at t i k n xs))\<lparr>lastCodeSep := 0\<rparr> = at t (i + 1) 0 0 xs"
    using assms(3,4) by (cases t) (simp add: at_def shiftScript_def)
  then show ?thesis
    using assms by (auto simp: next_script_straight shiftScript_def Let_def)
qed

lemma spend_steps:
  assumes "spending h sig pk t" "2 \<le> length sig" "length sig \<le> 75" "2 \<le> length pk" "length pk \<le> 75" "length h = 20"
  shows "Step c (at t 0 0 0 []) = Inr (False, at t 0 1 0 [sig])"
    "Step c (at t 0 1 0 [sig]) = Inr (False, at t 1 0 0 [sig, pk])"
    "Step c (at t 1 0 0 [sig, pk]) = Inr (False, at t 1 1 1 [sig, pk, pk])"
    "Step c (at t 1 1 1 [sig, pk, pk]) = Inr (False, at t 1 2 2 [sig, pk, ripemd160 c (sha256 c pk)])"
    "Step c (at t 1 2 2 [sig, pk, x]) = Inr (False, at t 1 3 2 [sig, pk, x, h])"
    "Step c (at t 1 3 2 [sig, pk, x, h]) = (if x = h then Inr (False, at t 1 4 3 [sig, pk]) else Inl (Fail ErrEqualVerify))"
proof -
  note t = assms(1) [unfolded spending_def p2pkh_ops_def]
  show "Step c (at t 0 0 0 []) = Inr (False, at t 0 1 0 [sig])"
    by (subst Step_executes [where ?t1.0 = "at t 0 0 0 [sig]"]) (use t assms in \<open>simp_all add: execute_push\<close>)
  show "Step c (at t 0 1 0 [sig]) = Inr (False, at t 1 0 0 [sig, pk])"
    by (subst Step_executes [where ?t1.0 = "at t 0 1 0 [sig, pk]"])
      (use t assms next_script_at [of t 0] in \<open>simp_all add: execute_push\<close>)
  have "DupN ((dstack t)\<lparr>stk := [sig, pk]\<rparr>) 1 = (Inr ((dstack t)\<lparr>stk := [sig, pk, pk]\<rparr>) :: thread fault + _)"
    by (simp add: DupN_def PeekByteArray_def)
  then show "Step c (at t 1 0 0 [sig, pk]) = Inr (False, at t 1 1 1 [sig, pk, pk])"
    by (subst Step_executes [where ?t1.0 = "at t 1 0 1 [sig, pk, pk]"])
      (use t in \<open>simp_all add: execute_code op_exec_p2pkh opcodeDup_def on_dstack_def\<close>)
  show "Step c (at t 1 1 1 [sig, pk, pk]) = Inr (False, at t 1 2 2 [sig, pk, ripemd160 c (sha256 c pk)])"
    by (subst Step_executes [where ?t1.0 = "at t 1 1 2 [sig, pk, ripemd160 c (sha256 c pk)]"])
      (use t in \<open>simp_all add: execute_code op_exec_p2pkh opcodeHash160_def unary_bytes_def PopByteArray_eq push_stk
        flip: numeral_2_eq_2\<close>)
  show "Step c (at t 1 2 2 [sig, pk, x]) = Inr (False, at t 1 3 2 [sig, pk, x, h])"
    by (subst Step_executes [where ?t1.0 = "at t 1 2 2 [sig, pk, x, h]"])
      (use t assms(6) execute_push [of t h 2 c 1 2 "[sig, pk, x]"] in \<open>simp_all\<close>)
  have eq: "executeOpcode c (code_op OpEQUALVERIFY) (at t 1 3 2 [sig, pk, x, h]) =
      (if x = h then Inr (at t 1 3 3 [sig, pk]) else Inl (Fail ErrEqualVerify))"
    using t by (simp add: execute_code op_exec_p2pkh opcodeEqualVerify_def opcodeEqual_def abstractVerify_def PopByteArray_eq
        PopBool_def PushBool_def push_stk fromBool_def asBool_def)
  show "Step c (at t 1 3 2 [sig, pk, x, h]) = (if x = h then Inr (False, at t 1 4 3 [sig, pk]) else Inl (Fail ErrEqualVerify))"
  proof (cases "x = h")
    case True
    then show ?thesis
      by (subst Step_executes [where ?t1.0 = "at t 1 3 3 [sig, pk]"]) (use t eq in simp_all)
  next
    case False
    then show ?thesis
      by (subst Step_fails [where e = "Fail ErrEqualVerify"]) (use t eq in simp_all)
  qed
qed

subsection \<open>The verdict\<close>

text \<open>What the signature check finds, over the parsed script \<open>sub\<close>: an error, or whether the signature is good.\<close>

definition signature_verdict :: "('pk, 'sg) crypto \<Rightarrow> thread \<Rightarrow> ParsedScript \<Rightarrow> bytes \<Rightarrow> bytes \<Rightarrow> thread fault + bool" where
  "signature_verdict c t sub sig pk =
     rbind (checkHashTypeEncoding t (last sig)) (\<lambda>_.
     rbind (checkSignatureEncoding t (butlast sig)) (\<lambda>_.
     rbind (checkPubKeyEncoding t pk) (\<lambda>_.
     rbind (Unparse (strip_sig t (last sig) sig sub)) (\<lambda>up.
     rbind (sig_hash c t True up (last sig)) (\<lambda>hash.
     rbind (verify_sig c t hash (butlast sig) pk) (\<lambda>res. case res of
         None \<Rightarrow> Inr False
       | Some ok \<Rightarrow> if \<not> ok \<and> hasFlag t VerifyNullFail \<and> length (butlast sig) > 0 then Inl (Fail ErrNullFail) else Inr ok))))))"

lemma execute_checksig:
  assumes "spending h sig pk t" "2 \<le> length sig"
  shows "executeOpcode c (code_op OpCHECKSIG) (at t 1 4 3 [sig, pk]) =
    rbind (signature_verdict c (at t 1 4 4 [sig, pk]) (p2pkh_ops h) sig pk) (\<lambda>ok. Inr (at t 1 4 4 [fromBool ok]))"
proof -
  note t = assms(1) [unfolded spending_def]
  let ?t = "at t 1 4 4 [sig, pk]"
  have sub: "subScript ?t = (Inr (p2pkh_ops h) :: thread fault + _)"
    using t by (simp add: subScript_def)
  have push: "push_bool ?t ((dstack t)\<lparr>stk := []\<rparr>) b = Inr (at t 1 4 4 [fromBool b])" for b
    by (simp add: push_bool_def PushBool_def push_stk)
  have pop: "PopByteArray (dstack ?t) = (Inr (pk, (dstack t)\<lparr>stk := [sig]\<rparr>) :: thread fault + _)"
    "PopByteArray ((dstack t)\<lparr>stk := [sig]\<rparr>) = (Inr (sig, (dstack t)\<lparr>stk := []\<rparr>) :: thread fault + _)"
    by (simp_all add: PopByteArray_eq)
  have guard: "(length sig < 1) = False" using assms(2) by auto
  have "executeOpcode c (code_op OpCHECKSIG) (at t 1 4 3 [sig, pk]) = opcodeCheckSig c (code_op OpCHECKSIG) ?t"
    using t by (simp add: execute_code op_exec_p2pkh)
  also have "\<dots> = rbind (signature_verdict c ?t (p2pkh_ops h) sig pk) (\<lambda>ok. Inr (at t 1 4 4 [fromBool ok]))"
    unfolding opcodeCheckSig_def signature_verdict_def
    by (simp only: pop rbind_Inr prod.case guard if_False Let_def sub push rbind_assoc)
      (intro rbind_cong refl, auto simp: rbind_def split: option.split)
  finally show ?thesis .
qed

lemma spend_last_step:
  assumes "spending h sig pk t" "2 \<le> length sig"
  shows "Step c (at t 1 4 3 [sig, pk]) =
    rbind (signature_verdict c (at t 1 4 4 [sig, pk]) (p2pkh_ops h) sig pk) (\<lambda>ok. Inr (True, at t 2 0 0 [fromBool ok]))"
proof -
  note t = assms(1) [unfolded spending_def p2pkh_ops_def] and ex = execute_checksig [OF assms, of c]
  show ?thesis
  proof (cases "signature_verdict c (at t 1 4 4 [sig, pk]) (p2pkh_ops h) sig pk")
    case (Inl e)
    have "opcodeCheckSig c (code_op OpCHECKSIG) (at t 1 4 4 [sig, pk]) = Inl e"
      using t ex Inl by (simp add: execute_code op_exec_p2pkh)
    then have "tame e"
      using loud_checksig [of tame c "at t 1 4 4 [sig, pk]" "code_op OpCHECKSIG"] by simp
    with Inl show ?thesis
      by (subst Step_fails [where e = e]) (use t ex in simp_all)
  next
    case (Inr ok)
    then show ?thesis
      by (subst Step_executes [where ?t1.0 = "at t 1 4 4 [fromBool ok]"])
        (use t ex next_script_at [of t 1] in \<open>simp_all add: numeral_2_eq_2\<close>)
  qed
qed

lemma spend_run:
  assumes "spending h sig pk t" "2 \<le> length sig" "length sig \<le> 75" "2 \<le> length pk" "length pk \<le> 75" "length h = 20"
  shows "run_steps c (at t 0 0 0 []) = Some (if ripemd160 c (sha256 c pk) = h
      then rbind (signature_verdict c (at t 1 4 4 [sig, pk]) (p2pkh_ops h) sig pk) (\<lambda>ok. Inr (at t 2 0 0 [fromBool ok]))
      else Inl (Fail ErrEqualVerify))"
proof -
  note st = spend_steps [OF assms, of c]
  have "run_steps c (at t 0 0 0 []) = run_steps c (at t 1 3 2 [sig, pk, ripemd160 c (sha256 c pk), h])"
    using run_steps_Step(1) [OF st(1)] run_steps_Step(1) [OF st(2)] run_steps_Step(1) [OF st(3)] run_steps_Step(1) [OF st(4)]
      run_steps_Step(1) [OF st(5), of "ripemd160 c (sha256 c pk)"] by simp
  moreover have "run_steps c (at t 1 4 3 [sig, pk]) =
      Some (rbind (signature_verdict c (at t 1 4 4 [sig, pk]) (p2pkh_ops h) sig pk) (\<lambda>ok. Inr (at t 2 0 0 [fromBool ok])))"
    using spend_last_step [OF assms(1,2), of c]
    by (cases "signature_verdict c (at t 1 4 4 [sig, pk]) (p2pkh_ops h) sig pk") (simp_all add: run_steps_Step)
  moreover have "run_steps c (at t 1 3 2 [sig, pk, x, h]) = (if x = h then run_steps c (at t 1 4 3 [sig, pk])
      else Some (Inl (Fail ErrEqualVerify)))" for x
  proof (cases "x = h")
    case True
    then show ?thesis using run_steps_Step(1) [OF st(6) [of x, unfolded if_P [OF True]]] by simp
  next
    case False
    then show ?thesis using run_steps_Step(3) [OF st(6) [of x, unfolded if_not_P [OF False]]] by simp
  qed
  ultimately show ?thesis by simp
qed

lemma Parse_weaken: "Parse e scr = (Inr ps :: 's fault + _) \<Longrightarrow> Parse False scr = (Inr ps :: 's fault + _)"
  by (auto simp: Parse_def res_simps intro: parse_ops_weaken)

lemma createThread_spending:
  assumes "createThread o' = Inr t" "opts_locking o' = (Inr (p2pkh_lock h) :: thread fault + _)"
    "opts_unlocking o' = (Inr (p2pkh_unlock sig pk) :: thread fault + _)"
    and "2 \<le> length sig" "length sig \<le> 75" "2 \<le> length pk" "length pk \<le> 75" "length h = 20"
  shows "spending h sig pk t" "t = at t 0 0 0 []"
proof -
  let ?e = "optTx o' = None \<or> previousTxOut o' = None"
  obtain tf u l us ls where tf: "apply_flags o' (zero_thread ?e) = Inr tf"
    and us: "(Parse (errorOnCheckSig tf) u :: thread fault + _) = Inr us"
    and ls: "(Parse (errorOnCheckSig tf) l :: thread fault + _) = Inr ls"
    and src: "set_source (built tf u l us ls) = Inr t"
    and ul: "(opts_unlocking o' :: thread fault + _) = Inr u" "(opts_locking o' :: thread fault + _) = Inr l"
    using assms(1) unfolding createThread_def by (rule apply_opts_built)
  have u: "u = p2pkh_unlock sig pk" and l: "l = p2pkh_lock h"
    using ul assms(2,3) by simp_all
  have ops: "us = [push_op sig, push_op pk]" "ls = p2pkh_ops h"
    using Parse_weaken [OF us] Parse_weaken [OF ls] Parse_p2pkh_unlock [of sig pk, where 's = thread]
      Parse_p2pkh_lock [of h, where 's = thread] assms(4-) by (simp_all add: u l)
  obtain tx where t: "t = (built tf u l us ls)\<lparr>thTx := tx\<rparr>"
    using set_source_keeps [OF src] by auto
  have z: "scriptIdx tf = 0" "\<not> bip16 tf"
    by (subst apply_flags_fresh(1) [OF tf], simp add: zero_thread_def)+
  have "\<not> IsP2SH l"
    using assms(8) by (simp add: IsP2SH_def l p2pkh_lock_def)
  moreover have "u \<noteq> []" by (simp add: u p2pkh_unlock_def)
  moreover note f = createThread_fresh(1) [OF assms(1)]
  ultimately show "spending h sig pk t" "t = at t 0 0 0 []"
    using z f by (simp_all add: spending_def t built_def ops fresh_def at_def newStack_def)
qed

text \<open>(C4) Payment to a public key hash. When the engine accepts its options, the locking script pays to the hash \<open>h\<close> and the
  unlocking script pushes a signature and a key (of 2 to 75 bytes each), then \<open>Execute\<close> returns, under every set of flags: it fails with
  \<open>ErrEqualVerify\<close> when the hash of the key is not \<open>h\<close>; otherwise it fails with the error of the signature check if that has one, fails with
  \<open>ErrEvalFalse\<close> if the signature is not good for the key over the locking script and the transaction, and succeeds with an empty stack if it is.\<close>

theorem P2PKH_spend:
  assumes "createThread (foldl (\<lambda>p f. f p) no_opts oo) = Inr t"
    and "opts_locking (foldl (\<lambda>p f. f p) no_opts oo) = (Inr (p2pkh_lock h) :: thread fault + _)" "length h = 20"
    and "opts_unlocking (foldl (\<lambda>p f. f p) no_opts oo) = (Inr (p2pkh_unlock sig pk) :: thread fault + _)"
    and "2 \<le> length sig" "length sig \<le> 75" "2 \<le> length pk" "length pk \<le> 75"
  shows "Execute c oo = Some (if ripemd160 c (sha256 c pk) = h
      then rbind (signature_verdict c (at t 1 4 4 [sig, pk]) (p2pkh_ops h) sig pk) (\<lambda>ok.
        if ok then Inr (at t 2 0 0 []) else Inl (Fail ErrEvalFalse))
      else Inl (Fail ErrEqualVerify))"
proof -
  note sp = createThread_spending [OF assms(1,2,4-8,3)]
  have check: "CheckErrorCondition True (at t 2 0 0 [fromBool ok]) = (if ok then Inr (at t 2 0 0 []) else Inl (Fail ErrEvalFalse))" for ok
    by (simp add: CheckErrorCondition_def PopBool_def PopByteArray_eq fromBool_def asBool_def)
  have "Execute c oo = map_option (\<lambda>r. rbind r (CheckErrorCondition True)) (run_steps c (at t 0 0 0 []))"
    using sp(2) by (simp add: Execute_def execute_def assms(1))
  then show ?thesis
    by (simp add: spend_run [OF sp(1) assms(5-8,3)] rbind_assoc check)
qed

definition demo_pay :: "execOpts \<Rightarrow> execOpts" where
  "demo_pay = WithTx (Some (Transaction 1 [TransactionInput (Some (replicate 32 1))
     (Some (p2pkh_unlock [5, 5, 1] [2, 9])) 0 0 None None None] [] 0 None)) 0 (Some (demo_out (p2pkh_lock (replicate 20 6))))"

lemma demo_pay_runs: "case createThread (demo_pay no_opts) of Inl _ \<Rightarrow> False | Inr t \<Rightarrow>
    signature_verdict demo_crypto (at t 1 4 4 [[5, 5, 1], [2, 9]]) (p2pkh_ops (replicate 20 6)) [5, 5, 1] [2, 9] = Inr True"
  by code_simp

theorem P2PKH_spend_witness:
  "\<exists>t. createThread (demo_pay no_opts) = Inr t \<and> Execute demo_crypto [demo_pay] = Some (Inr (at t 2 0 0 []))"
proof -
  obtain t where t: "createThread (demo_pay no_opts) = Inr t"
    "signature_verdict demo_crypto (at t 1 4 4 [[5, 5, 1], [2, 9]]) (p2pkh_ops (replicate 20 6)) [5, 5, 1] [2, 9] = Inr True"
    using demo_pay_runs by (auto split: sum.split_asm)
  have o': "foldl (\<lambda>p f. f p) no_opts [demo_pay] = demo_pay no_opts" by simp
  have "opts_locking (demo_pay no_opts) = (Inr (p2pkh_lock (replicate 20 6)) :: thread fault + _)"
    "opts_unlocking (demo_pay no_opts) = (Inr (p2pkh_unlock [5, 5, 1] [2, 9]) :: thread fault + _)"
    by (simp_all add: demo_pay_def WithTx_def opts_locking_def opts_unlocking_def demo_out_def)
  then show ?thesis
    using P2PKH_spend [of "[demo_pay]" t "replicate 20 6" "[5, 5, 1]" "[2, 9]" demo_crypto, unfolded o'] t
    by (simp add: demo_crypto_def)
qed

end
