(* ===== verification/Base58.thy ===== *)
theory Base58
  imports Prelude
begin

text \<open>
  \<^verbatim>\<open>compat/base58/base58.go\<close> and \<^verbatim>\<open>alphabet.go\<close>: the base 58 encoding of byte strings. A string is its bytes. Big integers are natural
  numbers: \<open>be_nat\<close> is \<^verbatim>\<open>big.Int.SetBytes\<close>, \<open>nat_be\<close> is \<^verbatim>\<open>big.Int.Bytes\<close>, which has no leading zero.

  Numbers in a base are lists of digits, least significant first; the round trip rests on the two conversions being inverse for both
  bases.
\<close>

subsection \<open>Digits\<close>

fun undigits :: "nat \<Rightarrow> nat list \<Rightarrow> nat" where
  "undigits B [] = 0"
| "undigits B (d # ds) = d + B * undigits B ds"

function digits :: "nat \<Rightarrow> nat \<Rightarrow> nat list" where
  "digits B n = (if n = 0 \<or> B < 2 then [] else n mod B # digits B (n div B))"
  by pat_completeness auto
termination by (relation "measure snd") auto

declare digits.simps [simp del]

lemma undigits_digits: "2 \<le> B \<Longrightarrow> undigits B (digits B n) = n"
proof (induction B n rule: digits.induct)
  case (1 B n)
  then show ?case by (subst digits.simps) simp
qed

lemma undigits_pos: "2 \<le> B \<Longrightarrow> ds \<noteq> [] \<Longrightarrow> last ds \<noteq> 0 \<Longrightarrow> undigits B ds \<noteq> 0"
  by (induction ds) (auto split: if_split_asm)

lemma digits_undigits:
  assumes "2 \<le> B" "\<forall>d\<in>set ds. d < B" "ds \<noteq> [] \<Longrightarrow> last ds \<noteq> 0"
  shows "digits B (undigits B ds) = ds"
  using assms(2,3)
proof (induction ds)
  case Nil
  then show ?case by (simp add: digits.simps)
next
  case (Cons d ds)
  have pos: "undigits B (d # ds) \<noteq> 0"
    using undigits_pos [OF assms(1), of "d # ds"] Cons.prems(2) by blast
  have "digits B (undigits B ds) = ds"
    using Cons by (cases ds) (auto simp: digits.simps)
  then show ?case
    using pos assms(1) Cons.prems(1) by (subst digits.simps) auto
qed

lemma digits_less: "2 \<le> B \<Longrightarrow> d \<in> set (digits B n) \<Longrightarrow> d < B"
proof (induction B n rule: digits.induct)
  case (1 B n)
  then show ?case by (subst (asm) (2) digits.simps) (auto split: if_split_asm)
qed

lemma last_digits: "2 \<le> B \<Longrightarrow> digits B n \<noteq> [] \<Longrightarrow> last (digits B n) \<noteq> 0"
proof (induction B n rule: digits.induct)
  case (1 B n)
  have n: "n \<noteq> 0"
    using "1.prems" digits.simps [of B 0] by (cases n) auto
  show ?case
  proof (cases "n div B = 0")
    case True
    then have "digits B n = [n]"
      using n "1.prems"(1) by (simp add: digits.simps [of B n] digits.simps [of B 0] div_eq_0_iff)
    then show ?thesis using n by simp
  next
    case False
    then have "digits B (n div B) \<noteq> []"
      using "1.prems"(1) by (simp add: digits.simps [of B "n div B"])
    then show ?thesis
      using "1.IH" n "1.prems"(1) by (simp add: digits.simps [of B n])
  qed
qed

lemma undigits_append_zeros: "undigits B (ds @ replicate z 0) = undigits B ds"
  by (induction ds) (induction z, auto)

subsection \<open>Big integers\<close>

definition be_nat :: "bytes \<Rightarrow> nat" where
  "be_nat b = undigits 256 (map unat (rev b))"

definition nat_be :: "nat \<Rightarrow> bytes" where
  "nat_be n = rev (map word_of_nat (digits 256 n))"

lemma be_nat_nat_be [simp]: "be_nat (nat_be n) = n"
proof -
  have "map (unat \<circ> (word_of_nat :: nat \<Rightarrow> byte)) (digits 256 n) = digits 256 n"
    by (intro map_idI) (use digits_less [of 256 _ n] in auto)
  then show ?thesis by (simp add: be_nat_def nat_be_def undigits_digits)
qed

lemma nat_be_be_nat: "(b \<noteq> [] \<Longrightarrow> hd b \<noteq> 0) \<Longrightarrow> nat_be (be_nat b) = b"
proof -
  assume "b \<noteq> [] \<Longrightarrow> hd b \<noteq> 0"
  then have "digits 256 (undigits 256 (map unat (rev b))) = map unat (rev b)"
    by (intro digits_undigits) (auto simp: last_map last_rev unat_gt_0)
  then show ?thesis
    by (simp add: be_nat_def nat_be_def rev_map o_def)
qed

lemma be_nat_zeros: "be_nat (replicate z 0 @ b) = be_nat b"
  by (simp add: be_nat_def undigits_append_zeros)

lemma hd_nat_be: "nat_be n \<noteq> [] \<Longrightarrow> hd (nat_be n) \<noteq> 0"
proof -
  assume "nat_be n \<noteq> []"
  then have ne: "digits 256 n \<noteq> []" by (simp add: nat_be_def)
  then have "last (digits 256 n) \<noteq> 0" "last (digits 256 n) < 256"
    using last_digits [of 256 n] digits_less [of 256 "last (digits 256 n)" n] by auto
  then have "unat (word_of_nat (last (digits 256 n)) :: byte) \<noteq> 0" by simp
  then have "(word_of_nat (last (digits 256 n)) :: byte) \<noteq> 0"
    by (metis unsigned_0)
  then show ?thesis
    using ne by (simp add: nat_be_def hd_rev last_map)
qed

subsection \<open>The alphabet\<close>

definition alphabet :: bytes where
  "alphabet = map of_char ''123456789ABCDEFGHJKLMNPQRSTUVWXYZabcdefghijkmnopqrstuvwxyz''"

definition alphabetIdx0 :: byte where
  "alphabetIdx0 = of_char (CHR ''1'')"

definition b58 :: bytes where
  "b58 =
     [255, 255, 255, 255, 255, 255, 255, 255, 255, 255, 255, 255, 255, 255, 255, 255,
      255, 255, 255, 255, 255, 255, 255, 255, 255, 255, 255, 255, 255, 255, 255, 255,
      255, 255, 255, 255, 255, 255, 255, 255, 255, 255, 255, 255, 255, 255, 255, 255,
      255, 0, 1, 2, 3, 4, 5, 6, 7, 8, 255, 255, 255, 255, 255, 255,
      255, 9, 10, 11, 12, 13, 14, 15, 16, 255, 17, 18, 19, 20, 21, 255,
      22, 23, 24, 25, 26, 27, 28, 29, 30, 31, 32, 255, 255, 255, 255, 255,
      255, 33, 34, 35, 36, 37, 38, 39, 40, 41, 42, 43, 255, 44, 45, 46,
      47, 48, 49, 50, 51, 52, 53, 54, 55, 56, 57, 255, 255, 255, 255, 255] @ replicate 128 255"

lemma alphabet_b58: "list_all (\<lambda>d. b58 ! unat (alphabet ! d) = word_of_nat d) [0 ..< 58]"
  by code_simp

lemma b58_alphabet:
  "list_all (\<lambda>n. b58 ! n = 255 \<or> unat (b58 ! n) < 58 \<and> alphabet ! unat (b58 ! n) = word_of_nat n) [0 ..< 256]"
  by code_simp

lemma b58_of_digit: "d < 58 \<Longrightarrow> b58 ! unat (alphabet ! d) = word_of_nat d"
  using alphabet_b58 by (auto simp: list_all_iff)

lemma digit_of_b58: "b58 ! unat c \<noteq> 255 \<Longrightarrow> unat (b58 ! unat c) < 58 \<and> alphabet ! unat (b58 ! unat c) = c"
  using b58_alphabet unat_byte_lt [of c] by (auto simp: list_all_iff simp del: unat_byte_lt)

lemma alphabet_0: "alphabet ! 0 = alphabetIdx0"
  by (simp add: alphabet_def alphabetIdx0_def)

subsection \<open>Encoding and decoding\<close>

text \<open>The loop of \<open>Encode\<close> appends the least significant digit first.\<close>

function encode_loop :: "nat \<Rightarrow> bytes" where
  "encode_loop x = (if x > 0 then alphabet ! (x mod 58) # encode_loop (x div 58) else [])"
  by pat_completeness auto
termination by (relation "measure id") auto

declare encode_loop.simps [simp del]

definition Encode :: "bytes \<Rightarrow> bytes" where
  "Encode b = rev (encode_loop (be_nat b) @ map (\<lambda>_. alphabetIdx0) (takeWhile (\<lambda>i. i = 0) b))"

text \<open>The loop of \<open>Decode\<close> runs from the last character, with the weight \<open>j\<close>; \<open>None\<close> is the error.\<close>

primrec decode_loop :: "bytes \<Rightarrow> nat \<Rightarrow> nat \<Rightarrow> nat option" where
  "decode_loop [] answer j = Some answer"
| "decode_loop (c # cs) answer j =
     (let tmp = b58 ! unat c in if tmp = 255 then None else decode_loop cs (answer + j * unat tmp) (j * 58))"

definition Decode :: "bytes \<Rightarrow> bytes option" where
  "Decode b = (case decode_loop (rev b) 0 1 of None \<Rightarrow> None
     | Some answer \<Rightarrow> Some (replicate (length (takeWhile (\<lambda>c. c = alphabetIdx0) b)) 0 @ nat_be answer))"

subsection \<open>The round trip\<close>

lemma takeWhile_lead:
  "(b' \<noteq> [] \<Longrightarrow> hd b' \<noteq> a) \<Longrightarrow> takeWhile (\<lambda>i. i = a) (replicate z a @ b') = replicate z a"
  by (induction z) (cases b', auto)

lemma split_lead: obtains z b' where "b = replicate z a @ b'" "b' \<noteq> [] \<Longrightarrow> hd b' \<noteq> a"
proof (induction b arbitrary: thesis)
  case Nil
  then show ?case using Nil [of 0 "[]"] by simp
next
  case (Cons x b)
  obtain z b' where b: "b = replicate z a @ b'" "b' \<noteq> [] \<Longrightarrow> hd b' \<noteq> a"
    using Cons.IH by blast
  show ?case
  proof (cases "x = a")
    case True
    then show ?thesis using Cons.prems [of "Suc z" b'] b by simp
  next
    case False
    then show ?thesis using Cons.prems [of 0 "x # b"] by simp
  qed
qed

definition digit :: "byte \<Rightarrow> nat" where
  "digit c = unat (b58 ! unat c)"

definition valid58 :: "bytes \<Rightarrow> bool" where
  "valid58 s = list_all (\<lambda>c. b58 ! unat c \<noteq> 255) s"

lemma decode_loop_eq:
  "decode_loop cs answer j = (if valid58 cs then Some (answer + j * undigits 58 (map digit cs)) else None)"
  by (induction cs arbitrary: answer j) (auto simp: Let_def valid58_def digit_def algebra_simps)

lemma encode_loop_eq: "encode_loop x = map (\<lambda>d. alphabet ! d) (digits 58 x)"
proof (induction x rule: encode_loop.induct)
  case (1 x)
  then show ?case by (subst encode_loop.simps, subst digits.simps) simp
qed

lemma digit_alphabet: "d < 58 \<Longrightarrow> digit (alphabet ! d) = d \<and> b58 ! unat (alphabet ! d) \<noteq> 255"
  by (simp add: digit_def b58_of_digit word_unat_eq_iff)

lemma digits_alphabet:
  assumes "\<forall>d\<in>set ds. d < 58"
  shows "map digit (map (\<lambda>d. alphabet ! d) ds) = ds" "valid58 (map (\<lambda>d. alphabet ! d) ds)"
  using assms digit_alphabet by (auto simp: valid58_def list_all_iff intro!: map_idI)

lemma valid58_digits:
  assumes "valid58 s"
  shows "map (\<lambda>c. alphabet ! digit c) s = s" "\<forall>c\<in>set s. digit c < 58"
  using assms digit_of_b58 by (auto simp: valid58_def list_all_iff digit_def intro!: map_idI)

lemma Encode_lead:
  assumes "b' \<noteq> [] \<Longrightarrow> hd b' \<noteq> 0"
  shows "Encode (replicate z 0 @ b') = replicate z alphabetIdx0 @ rev (map (\<lambda>d. alphabet ! d) (digits 58 (be_nat b')))"
  using takeWhile_lead [OF assms] by (simp add: Encode_def be_nat_zeros encode_loop_eq map_replicate_const)

lemma Decode_lead:
  assumes "valid58 s'" "s' \<noteq> [] \<Longrightarrow> hd s' \<noteq> alphabetIdx0"
  shows "Decode (replicate z alphabetIdx0 @ s') = Some (replicate z 0 @ nat_be (undigits 58 (map digit (rev s'))))"
proof -
  have z: "digit alphabetIdx0 = 0" "b58 ! unat alphabetIdx0 \<noteq> 255"
    using digit_alphabet [of 0] by (simp_all add: alphabet_0)
  have "valid58 (rev s' @ replicate z alphabetIdx0)"
    using assms(1) z(2) by (auto simp: valid58_def list_all_iff)
  moreover have "undigits 58 (map digit (rev s' @ replicate z alphabetIdx0)) = undigits 58 (map digit (rev s'))"
    by (simp add: z(1) undigits_append_zeros)
  ultimately show ?thesis
    using takeWhile_lead [OF assms(2)] by (simp add: Decode_def decode_loop_eq)
qed

lemma Decode_Encode: "Decode (Encode b) = Some b"
proof -
  obtain z b' where b: "b = replicate z 0 @ b'" "b' \<noteq> [] \<Longrightarrow> hd b' \<noteq> 0"
    by (rule split_lead [where b = b and a = 0]) blast
  let ?ds = "digits 58 (be_nat b')"
  have lt: "\<forall>d\<in>set ?ds. d < 58"
    using digits_less [of 58] by auto
  have hd: "hd (rev (map (\<lambda>d. alphabet ! d) ?ds)) \<noteq> alphabetIdx0" if "rev (map (\<lambda>d. alphabet ! d) ?ds) \<noteq> []"
  proof -
    have "last ?ds \<noteq> 0" "last ?ds < 58"
      using that last_digits [of 58 "be_nat b'"] lt by auto
    then have "alphabet ! last ?ds \<noteq> alphabet ! 0"
      using digit_alphabet [of "last ?ds"] digit_alphabet [of 0] by auto
    then show ?thesis
      using that by (simp add: hd_rev last_map alphabet_0)
  qed
  have "valid58 (rev (map (\<lambda>d. alphabet ! d) ?ds))"
    using digits_alphabet(2) [OF lt] by (simp add: valid58_def list_all_iff)
  from Decode_lead [OF this hd, of z] show ?thesis
    using digits_alphabet(1) [OF lt] nat_be_be_nat [OF b(2)] by (simp add: b(1) Encode_lead [OF b(2)] undigits_digits)
qed

lemma Encode_Decode:
  assumes "valid58 s"
  shows "\<exists>b. Decode s = Some b \<and> Encode b = s"
proof -
  obtain z s' where s: "s = replicate z alphabetIdx0 @ s'" "s' \<noteq> [] \<Longrightarrow> hd s' \<noteq> alphabetIdx0"
    by (rule split_lead [where b = s and a = alphabetIdx0]) blast
  let ?v = "undigits 58 (map digit (rev s'))"
  have v: "valid58 s'" using assms by (simp add: s(1) valid58_def)
  note val = valid58_digits [OF v]
  have "digits 58 ?v = map digit (rev s')"
  proof (rule digits_undigits)
    show "last (map digit (rev s')) \<noteq> 0" if "map digit (rev s') \<noteq> []"
    proof
      assume "last (map digit (rev s')) = 0"
      then have "digit (hd s') = 0" using that by (simp add: last_map last_rev)
      moreover have "alphabet ! digit (hd s') = hd s'"
        using that val(1) digit_of_b58 v by (auto simp: valid58_def list_all_iff digit_def)
      ultimately show False using that s(2) alphabet_0 by simp
    qed
  qed (use val(2) in auto)
  then have "rev (map (\<lambda>d. alphabet ! d) (digits 58 ?v)) = s'"
    using val(1) by (simp add: rev_map o_def)
  moreover have "Encode (replicate z 0 @ nat_be ?v) = replicate z alphabetIdx0 @ rev (map (\<lambda>d. alphabet ! d) (digits 58 ?v))"
    using Encode_lead [of "nat_be ?v" z] hd_nat_be by simp
  ultimately show ?thesis
    using Decode_lead [OF v s(2), of z] by (simp add: s(1))
qed

lemma Decode_invalid: "\<not> valid58 s \<Longrightarrow> Decode s = None"
  by (simp add: Decode_def decode_loop_eq valid58_def)

text \<open>(C40) Base 58 is a bijection: every byte string is read back from its encoding, with its leading zeros; a string over the alphabet is decoded,
  and the encoding of the result is the string; any other string is an error.\<close>

theorem base58_bijection:
  "Decode (Encode b) = Some b \<and> valid58 (Encode b)
   \<and> (case Decode s of None \<Rightarrow> \<not> valid58 s | Some d \<Rightarrow> valid58 s \<and> Encode d = s)"
proof -
  have "valid58 (Encode b)"
    using Decode_Encode [of b] Decode_invalid [of "Encode b"] by auto
  moreover have "case Decode s of None \<Rightarrow> \<not> valid58 s | Some d \<Rightarrow> valid58 s \<and> Encode d = s"
    using Encode_Decode [of s] Decode_invalid [of s] by (cases "valid58 s") auto
  ultimately show ?thesis using Decode_Encode by blast
qed

end
