(* ===== verification/Script_Chunks.thy ===== *)
theory Script_Chunks
  imports Opcodes
begin

text \<open>
  \<^verbatim>\<open>script/script_chunk.go\<close> and \<^verbatim>\<open>script/script.go\<close>: decoding a script into chunks, encoding pushes, building scripts, and
  the predicates for script types. This decoder is separate from the parser of the interpreter.

  A script is a list of bytes and a nil data slice the empty list. The two decoders return what they decoded so far together with the error;
  \<open>ReadOp\<close> works at a position in the script. The variadic options of \<open>DecodeScript\<close> are the single option there is.
\<close>

datatype script_err =
    ErrDataTooBig
  | ErrDataTooSmall
  | ErrPartTooBig
  | ErrScriptIndexOutOfRange
  | ErrInvalidAddressLength
  | ErrUnsupportedAddress
  | ErrEncodingBadChar
  | ErrEncodingTooLong
  | ErrEncodingInvalidVersion
  | ErrEncodingChecksumFailed
  | ErrEmptyScript
  | ErrNotP2PKH
  | ErrInvalidOpcodeType
  | ErrBadPublicKeyHash

datatype script_fault = Error script_err | Crash

record ScriptChunk =
  Op :: byte
  Data :: bytes

abbreviation chunk :: "byte \<Rightarrow> bytes \<Rightarrow> ScriptChunk" where
  "chunk c d \<equiv> \<lparr>Op = c, Data = d\<rparr>"

subsection \<open>Reading chunks at a position\<close>

text \<open>The push of \<open>l\<close> bytes whose data starts at \<open>pos\<close>.\<close>

definition read_push :: "bytes \<Rightarrow> byte \<Rightarrow> nat \<Rightarrow> nat \<Rightarrow> script_fault + ScriptChunk \<times> nat" where
  "read_push b c pos l = (if length b < pos + l then Inl (Error ErrDataTooSmall)
     else Inr (chunk c (take l (drop pos b)), pos + l))"

definition ReadOp :: "bytes \<Rightarrow> nat \<Rightarrow> script_fault + ScriptChunk \<times> nat" where
  "ReadOp b pos =
     (if length b \<le> pos then Inl (Error ErrScriptIndexOutOfRange)
      else if b ! pos = OpPUSHDATA1 then
        (if length b < pos + 2 then Inl (Error ErrDataTooSmall)
         else read_push b OpPUSHDATA1 (pos + 2) (unat (b ! (pos + 1))))
      else if b ! pos = OpPUSHDATA2 then
        (if length b < pos + 3 then Inl (Error ErrDataTooSmall)
         else read_push b OpPUSHDATA2 (pos + 3) (unat (Uint16 (drop (pos + 1) b))))
      else if b ! pos = OpPUSHDATA4 then
        (if length b < pos + 5 then Inl (Error ErrDataTooSmall)
         else read_push b OpPUSHDATA4 (pos + 5) (unat (Uint32 (drop (pos + 1) b))))
      else if b ! pos \<ge> OpDATA1 \<and> b ! pos < OpPUSHDATA1 then
        read_push b (b ! pos) (pos + 1) (unat (b ! pos))
      else Inr (chunk (b ! pos) [], pos + 1))"

lemma ReadOp_progress: "ReadOp b pos = Inr (op, pos') \<Longrightarrow> pos < pos' \<and> pos' \<le> length b"
  by (auto simp: ReadOp_def read_push_def split: if_split_asm)

function ParseOps_from :: "bytes \<Rightarrow> nat \<Rightarrow> script_fault + ScriptChunk list" where
  "ParseOps_from s pos =
     (if pos < length s
      then rbind (ReadOp s pos) (\<lambda>(op, pos'). rbind (ParseOps_from s pos') (\<lambda>ops. Inr (op # ops)))
      else Inr [])"
  by pat_completeness auto
termination
  by (relation "measure (\<lambda>(s, pos). length s - pos)") (auto dest: ReadOp_progress)

declare ParseOps_from.simps [simp del]

definition ParseOps :: "bytes \<Rightarrow> script_fault + ScriptChunk list" where
  "ParseOps s = ParseOps_from s 0"

subsection \<open>Decoding a script\<close>

text \<open>One round of the loop of \<open>DecodeScript\<close>, on a script that is not empty: the chunk, the depth of conditionals and what is left.\<close>

definition decode_push :: "byte \<Rightarrow> int \<Rightarrow> nat \<Rightarrow> bytes \<Rightarrow> script_err + ScriptChunk \<times> int \<times> bytes" where
  "decode_push c conditionalBlock l b = (if length b < l then Inl ErrDataTooSmall
     else Inr (chunk c (take l b), conditionalBlock, drop l b))"

definition decode_op :: "bool \<Rightarrow> int \<Rightarrow> bytes \<Rightarrow> script_err + ScriptChunk \<times> int \<times> bytes" where
  "decode_op parseOpReturn conditionalBlock b =
     (let c = b ! 0 in
      if c = OpIF \<or> c = OpNOTIF \<or> c = OpVERIF \<or> c = OpVERNOTIF then Inr (chunk c [], conditionalBlock + 1, drop 1 b)
      else if c = OpENDIF then Inr (chunk c [], conditionalBlock - 1, drop 1 b)
      else if c = OpRETURN then
        (if parseOpReturn \<or> conditionalBlock > 0 then Inr (chunk c [], conditionalBlock, drop 1 b)
         else Inr (chunk c b, conditionalBlock, []))
      else if c = OpPUSHDATA1 then
        (if length b < 2 then Inl ErrDataTooSmall else decode_push c conditionalBlock (unat (b ! 1)) (drop 2 b))
      else if c = OpPUSHDATA2 then
        (if length b < 3 then Inl ErrDataTooSmall else decode_push c conditionalBlock (unat (Uint16 (drop 1 b))) (drop 3 b))
      else if c = OpPUSHDATA4 then
        (if length b < 5 then Inl ErrDataTooSmall else decode_push c conditionalBlock (unat (Uint32 (drop 1 b))) (drop 5 b))
      else if c \<ge> 0x01 \<and> c \<le> OpPUSHDATA4 then decode_push c conditionalBlock (unat c) (drop 1 b)
      else Inr (chunk c [], conditionalBlock, drop 1 b))"

lemma decode_op_progress:
  "b \<noteq> [] \<Longrightarrow> decode_op p k b = Inr (op, k', b') \<Longrightarrow> length b' < length b"
  by (auto simp: decode_op_def decode_push_def Let_def split: if_split_asm)

function DecodeScript_loop :: "bool \<Rightarrow> int \<Rightarrow> bytes \<Rightarrow> ScriptChunk list \<times> script_err option" where
  "DecodeScript_loop p k b =
     (if b = [] then ([], None)
      else case decode_op p k b of
        Inl e \<Rightarrow> ([], Some e)
      | Inr (op, k', b') \<Rightarrow> (let (ops, e) = DecodeScript_loop p k' b' in (op # ops, e)))"
  by pat_completeness auto
termination
  by (relation "measure (\<lambda>(p, k, b). length b)") (auto dest: decode_op_progress)

declare DecodeScript_loop.simps [simp del]

definition DecodeScript :: "bool \<Rightarrow> bytes \<Rightarrow> ScriptChunk list \<times> script_err option" where
  "DecodeScript parseOpReturn b = DecodeScript_loop parseOpReturn 0 b"

definition Chunks :: "bytes \<Rightarrow> ScriptChunk list \<times> script_err option" where
  "Chunks s = DecodeScript False s"

subsection \<open>Encoding\<close>

definition PushDataPrefix :: "bytes \<Rightarrow> script_err + bytes" where
  "PushDataPrefix d =
     (let l = length d in
      if l \<le> 75 then Inr [word_of_nat l]
      else if l \<le> 0xFF then Inr [OpPUSHDATA1, word_of_nat l]
      else if l \<le> 0xFFFF then Inr (OpPUSHDATA2 # PutUint16 (word_of_nat l))
      else if l \<le> 0xFFFFFFFF then Inr (OpPUSHDATA4 # PutUint32 (word_of_nat l))
      else Inl ErrDataTooBig)"

primrec EncodePushDatas :: "bytes list \<Rightarrow> script_err + bytes" where
  "EncodePushDatas [] = Inr []"
| "EncodePushDatas (part # parts) = (case PushDataPrefix part of
     Inl _ \<Rightarrow> Inl ErrPartTooBig
   | Inr pd \<Rightarrow> rbind (EncodePushDatas parts) (\<lambda>b. Inr (pd @ part @ b)))"

definition AppendPushData :: "bytes \<Rightarrow> bytes \<Rightarrow> script_err + bytes" where
  "AppendPushData s d = rbind (EncodePushDatas [d]) (\<lambda>p. Inr (s @ p))"

definition AppendPushDataArray :: "bytes \<Rightarrow> bytes list \<Rightarrow> script_err + bytes" where
  "AppendPushDataArray s d = rbind (EncodePushDatas d) (\<lambda>p. Inr (s @ p))"

definition AppendOpcodes :: "bytes \<Rightarrow> byte list \<Rightarrow> script_err + bytes" where
  "AppendOpcodes s oo = (if list_ex (\<lambda>c. OpDATA1 \<le> c \<and> c \<le> OpPUSHDATA4) oo then Inl ErrInvalidOpcodeType
     else Inr (s @ oo))"

primrec ops_loop :: "bytes \<Rightarrow> ScriptChunk list \<Rightarrow> script_err + bytes" where
  "ops_loop s [] = Inr s"
| "ops_loop s (p # ps) =
     rbind (if Op p \<ge> OpDATA1 \<and> Op p \<le> OpPUSHDATA4 then AppendPushData s (Data p) else AppendOpcodes s [Op p]) (\<lambda>s.
       if Op p = OpRETURN \<and> Data p \<noteq> [] then Inr (s @ Data p) else ops_loop s ps)"

definition NewScriptFromScriptOps :: "ScriptChunk list \<Rightarrow> script_err + bytes" where
  "NewScriptFromScriptOps parts = ops_loop [] parts"

definition MinPushSize :: "bytes \<Rightarrow> nat" where
  "MinPushSize bb =
     (let l = length bb in
      if l > 0xffffffff then 0
      else if l = 0 then 1
      else if l = 1 then (if bb ! 0 \<le> 16 \<or> bb ! 0 = 0x81 then 1 else 2)
      else if l \<le> 75 then l + 1
      else if l \<le> 0xff then l + 2
      else if l \<le> 0xffff then l + 3
      else l + 5)"

subsection \<open>Script types\<close>

definition IsP2PKH :: "bytes \<Rightarrow> bool" where
  "IsP2PKH b = (length b = 25 \<and> b ! 0 = OpDUP \<and> b ! 1 = OpHASH160 \<and> b ! 2 = OpDATA20
     \<and> b ! 23 = OpEQUALVERIFY \<and> b ! 24 = OpCHECKSIG)"

definition IsP2PK :: "bytes \<Rightarrow> bool" where
  "IsP2PK s = (case DecodeScript False s of
     (_, Some _) \<Rightarrow> False
   | (parts, None) \<Rightarrow>
       length parts = 2 \<and> Data (parts ! 0) \<noteq> [] \<and> Op (parts ! 1) = OpCHECKSIG
       \<and> (let pubkey = Data (parts ! 0); version = pubkey ! 0
          in (version = 4 \<or> version = 6 \<or> version = 7) \<and> length pubkey = 65
             \<or> (version = 3 \<or> version = 2) \<and> length pubkey = 33))"

definition IsData :: "bytes \<Rightarrow> bool" where
  "IsData b = (length b > 0 \<and> b ! 0 = OpRETURN \<or> length b > 1 \<and> b ! 0 = OpFALSE \<and> b ! 1 = OpRETURN)"

definition Script_Slice :: "bytes \<Rightarrow> u64 \<Rightarrow> u64 \<Rightarrow> script_fault + bytes" where
  "Script_Slice s start end' = (if end' < start \<or> unat end' > length s then Inl Crash
     else Inr (take (unat end' - unat start) (drop (unat start) s)))"

definition IsSmallIntOp :: "byte \<Rightarrow> bool" where
  "IsSmallIntOp c = (c = OpZERO \<or> c \<ge> OpONE \<and> c \<le> Op16)"

definition IsMultiSigOut :: "bytes \<Rightarrow> bool" where
  "IsMultiSigOut s = (case DecodeScript False s of
     (_, Some _) \<Rightarrow> False
   | (parts, None) \<Rightarrow>
       \<not> length parts < 3 \<and> IsSmallIntOp (Op (parts ! 0))
       \<and> list_all (\<lambda>i. Data (parts ! i) \<noteq> []) [1 ..< length parts - 2]
       \<and> IsSmallIntOp (Op (parts ! (length parts - 2))) \<and> Op (parts ! (length parts - 1)) = OpCHECKMULTISIG)"

text \<open>The nil script is \<open>None\<close>.\<close>

definition PublicKeyHash :: "bytes option \<Rightarrow> script_fault + bytes" where
  "PublicKeyHash s0 = (case s0 of None \<Rightarrow> Inl (Error ErrEmptyScript) | Some s \<Rightarrow>
     if length s = 0 then Inl (Error ErrEmptyScript)
     else if s ! 0 \<noteq> OpDUP \<or> length s \<le> 2 \<or> s ! 1 \<noteq> OpHASH160 then Inl (Error ErrNotP2PKH)
     else (case DecodeScript False (drop 2 s) of
         (_, Some e) \<Rightarrow> Inl (Error e)
       | (parts, None) \<Rightarrow> if parts = [] then Inl Crash else Inr (Data (parts ! 0))))"

definition Equals :: "bytes \<Rightarrow> bytes \<Rightarrow> bool" where
  "Equals s b = (s = b)"

definition EqualsBytes :: "bytes \<Rightarrow> bytes \<Rightarrow> bool" where
  "EqualsBytes s b = (s = b)"

end
