(* ===== verification/Chunk_Laws.thy ===== *)
theory Chunk_Laws
  imports Script_Chunks
begin

text \<open>
  The decoders of script chunks lose nothing and agree with each other, and pushes are read back.
\<close>

text \<open>The bytes of the script that a chunk stands for. The data of a final \<open>OP_RETURN\<close> includes the opcode.\<close>

definition chunk_bytes :: "ScriptChunk \<Rightarrow> bytes" where
  "chunk_bytes c =
     (if Op c = OpRETURN \<and> Data c \<noteq> [] then Data c
      else if Op c = OpPUSHDATA1 then Op c # word_of_nat (length (Data c)) # Data c
      else if Op c = OpPUSHDATA2 then Op c # PutUint16 (word_of_nat (length (Data c))) @ Data c
      else if Op c = OpPUSHDATA4 then Op c # PutUint32 (word_of_nat (length (Data c))) @ Data c
      else Op c # Data c)"

lemma PutUint16_Uint16: "length bs = 2 \<Longrightarrow> PutUint16 (Uint16 bs) = bs"
  using le_val_less [of bs] le_bytes_le_val [of bs]
  by (simp add: Uint16_def PutUint16_def unsigned_of_nat take_bit_eq_mod)

lemma PutUint_Uint_take:
  "2 \<le> length bs \<Longrightarrow> PutUint16 (Uint16 bs) = take 2 bs" "4 \<le> length bs \<Longrightarrow> PutUint32 (Uint32 bs) = take 4 bs"
  using PutUint16_Uint16 [of "take 2 bs"] PutUint32_Uint32 [of "take 4 bs"] by (simp_all add: Uint16_def Uint32_def)

lemma cut_after_head: "b \<noteq> [] \<Longrightarrow> b ! 0 # take k (drop (Suc 0) b) @ drop (Suc k) b = b"
  by (cases b) auto

lemma decode_push_Inr:
  "decode_push c k l r = Inr (op, k', b') \<Longrightarrow> \<exists>d. op = chunk c d \<and> k' = k \<and> length d = l \<and> r = d @ b'"
  by (auto simp: decode_push_def split: if_split_asm)

lemma decode_op_lossless:
  assumes "b \<noteq> []" "decode_op p k b = Inr (c, k', b')"
  shows "chunk_bytes c @ b' = b"
proof -
  have two: "b ! 0 # b ! Suc 0 # drop 2 b = b" if "2 \<le> length b"
    using that by (cases b; cases "tl b") auto
  show ?thesis
    using assms(2) cut_after_head [OF assms(1), of 0] two cut_after_head [OF assms(1), of 2] cut_after_head [OF assms(1), of 4]
    by (auto simp: decode_op_def chunk_bytes_def Let_def PutUint_Uint_take dest!: decode_push_Inr split: if_split_asm)
qed

lemma DecodeScript_loop_lossless:
  "DecodeScript_loop p k b = (ops, None) \<Longrightarrow> concat (map chunk_bytes ops) = b"
proof (induction p k b arbitrary: ops rule: DecodeScript_loop.induct)
  case (1 p k b)
  show ?case
  proof (cases "b = []")
    case False
    then obtain c k' b' ops' where c: "decode_op p k b = Inr (c, k', b')" "ops = c # ops'"
      "DecodeScript_loop p k' b' = (ops', None)"
      using "1.prems" by (subst (asm) DecodeScript_loop.simps) (auto split: sum.split_asm prod.split_asm)
    then show ?thesis
      using "1.IH" [OF False c(1) refl refl c(3)] decode_op_lossless [OF False c(1)] by simp
  qed (use "1.prems" in \<open>simp add: DecodeScript_loop.simps\<close>)
qed

subsection \<open>The two decoders\<close>

definition next_depth :: "byte \<Rightarrow> int \<Rightarrow> int" where
  "next_depth c k = (if c = OpIF \<or> c = OpNOTIF \<or> c = OpVERIF \<or> c = OpVERNOTIF then k + 1 else if c = OpENDIF then k - 1 else k)"

lemma decode_push_read_push:
  "pos \<le> length b \<Longrightarrow> decode_push c k l (drop pos b) =
    (case read_push b c pos l of Inl _ \<Rightarrow> Inl ErrDataTooSmall | Inr (op, pos') \<Rightarrow> Inr (op, k, drop pos' b))"
  by (auto simp: decode_push_def read_push_def add.commute)

lemma byte_class: "c = 0x4C \<or> c = 0x4D \<or> c = 0x4E \<or> (c \<ge> 1 \<and> c < 0x4C) \<or> c = 0 \<or> (c :: byte) > 0x4E"
proof -
  have "unat c = 76 \<or> unat c = 77 \<or> unat c = 78 \<or> (1 \<le> unat c \<and> unat c < 76) \<or> unat c = 0 \<or> 78 < unat c"
    by linarith
  then show ?thesis by (simp add: word_unat_eq_iff word_less_nat_alt word_le_nat_alt)
qed

lemma decode_op_ReadOp:
  assumes "pos < length s"
  shows "decode_op True k (drop pos s) = (case ReadOp s pos of
      Inl _ \<Rightarrow> Inl ErrDataTooSmall
    | Inr (c, pos') \<Rightarrow> Inr (c, next_depth (s ! pos) k, drop pos' s))"
proof -
  let ?c = "s ! pos"
  have r: "drop pos s ! 0 = ?c" "drop j (drop pos s) = drop (pos + j) s" for j
    using assms by (simp_all add: add.commute)
  consider "?c = 0x4C" | "?c = 0x4D" | "?c = 0x4E" | "?c \<ge> 1" "?c < 0x4C" | "?c = 0 \<or> ?c > 0x4E"
    using byte_class [of ?c] by blast
  then show ?thesis
  proof cases
    case 1
    then have nd: "next_depth ?c k = k" by (simp add: next_depth_def)
    show ?thesis
      unfolding nd using 1 decode_push_read_push [of "pos + 2" s] by (auto simp: decode_op_def ReadOp_def r simp del: drop_drop)
  next
    case 2
    then have nd: "next_depth ?c k = k" by (simp add: next_depth_def)
    show ?thesis
      unfolding nd using 2 decode_push_read_push [of "pos + 3" s] by (auto simp: decode_op_def ReadOp_def r simp del: drop_drop)
  next
    case 3
    then have nd: "next_depth ?c k = k" by (simp add: next_depth_def)
    show ?thesis
      unfolding nd using 3 decode_push_read_push [of "pos + 5" s] by (auto simp: decode_op_def ReadOp_def r simp del: drop_drop)
  next
    case 4
    then have ne: "?c \<noteq> c" if "c \<ge> 0x4C" for c using that by auto
    then have nd: "next_depth ?c k = k" by (simp add: next_depth_def)
    have "?c \<le> 0x4E" using 4 by (simp add: word_less_nat_alt word_le_nat_alt)
    then show ?thesis
      unfolding nd using 4 ne assms decode_push_read_push [of "pos + 1" s]
      by (simp add: decode_op_def ReadOp_def r Let_def)
  next
    case 5
    then have "\<not> (?c \<ge> 1 \<and> ?c \<le> 0x4E)" "\<not> (?c \<ge> 1 \<and> ?c < 0x4C)" "?c \<noteq> 0x4C" "?c \<noteq> 0x4D" "?c \<noteq> 0x4E"
      by (auto simp: word_unat_eq_iff word_less_nat_alt word_le_nat_alt)
    then show ?thesis
      using assms by (auto simp: decode_op_def ReadOp_def next_depth_def r Let_def)
  qed
qed

lemma ParseOps_from_DecodeScript:
  "ParseOps_from s pos = (case DecodeScript_loop True k (drop pos s) of
     (ops, None) \<Rightarrow> Inr ops | (_, Some e) \<Rightarrow> Inl (Error e))"
proof (induction s pos arbitrary: k rule: ParseOps_from.induct)
  case (1 s pos)
  show ?case
  proof (cases "pos < length s")
    case True
    show ?thesis
    proof (cases "ReadOp s pos")
      case (Inl e)
      then have "e = Error ErrDataTooSmall"
        using True by (auto simp: ReadOp_def read_push_def split: if_split_asm)
      then show ?thesis
        using True Inl decode_op_ReadOp [OF True, of k]
        by (simp add: ParseOps_from.simps [of s pos] DecodeScript_loop.simps [of True k "drop pos s"])
    next
      case (Inr r)
      obtain c pos' where r: "r = (c, pos')" by (cases r)
      have "ParseOps_from s pos' = (case DecodeScript_loop True (next_depth (s ! pos) k) (drop pos' s) of
          (ops, None) \<Rightarrow> Inr ops | (_, Some e) \<Rightarrow> Inl (Error e))"
        by (rule "1.IH" [OF True Inr]) (simp add: r)
      then show ?thesis
        using True Inr r decode_op_ReadOp [OF True, of k]
        by (simp add: ParseOps_from.simps [of s pos] DecodeScript_loop.simps [of True k "drop pos s"]
            split: prod.split option.split)
    qed
  next
    case False
    then show ?thesis
      by (simp add: ParseOps_from.simps [of s pos] DecodeScript_loop.simps [of True k])
  qed
qed

subsection \<open>Pushes\<close>

definition push_chunk :: "bytes \<Rightarrow> ScriptChunk" where
  "push_chunk d = chunk (let l = length d in if l \<le> 75 then word_of_nat l else if l \<le> 0xFF then OpPUSHDATA1
     else if l \<le> 0xFFFF then OpPUSHDATA2 else OpPUSHDATA4) d"

lemma unat_length:
  "n < 2 ^ 8 \<Longrightarrow> unat (word_of_nat n :: byte) = n" "n < 2 ^ 16 \<Longrightarrow> unat (word_of_nat n :: u16) = n"
  "n < 2 ^ 32 \<Longrightarrow> unat (word_of_nat n :: u32) = n"
  by (simp_all add: unsigned_of_nat take_bit_eq_mod)

lemma decode_small_push:
  assumes "length d \<le> 75"
  shows "decode_op p k (word_of_nat (length d) # d @ r) = Inr (chunk (word_of_nat (length d)) d, k, r)"
proof -
  have n: "unat (word_of_nat (length d) :: byte) = length d"
    using assms by (simp add: unsigned_of_nat take_bit_eq_mod)
  show ?thesis
  proof (cases "d = []")
    case False
    then have "(word_of_nat (length d) :: byte) \<ge> 1"
      using n by (simp add: word_le_nat_alt Suc_le_eq)
    moreover have "(word_of_nat (length d) :: byte) < 0x4C"
      using n assms by (simp add: word_less_nat_alt)
    moreover have "(word_of_nat (length d) :: byte) \<le> 0x4E"
      using n assms by (simp add: word_le_nat_alt)
    moreover have "(word_of_nat (length d) :: byte) \<noteq> c" if "c \<ge> 0x4C" for c
      using calculation(2) that by auto
    ultimately show ?thesis
      using n by (auto simp: decode_op_def decode_push_def Let_def)
  qed (simp add: decode_op_def Let_def)
qed

lemma decode_op_push:
  assumes "PushDataPrefix d = Inr pd"
  shows "decode_op p k (pd @ d @ r) = Inr (push_chunk d, k, r)"
proof -
  have u: "Uint16 (PutUint16 v @ x) = v" "Uint32 (PutUint32 w @ x) = w" for v w x by simp_all
  consider "length d \<le> 75" | "75 < length d" "length d \<le> 0xFF" | "0xFF < length d" "length d \<le> 0xFFFF"
    | "0xFFFF < length d" "length d \<le> 0xFFFFFFFF"
    using assms by (force simp: PushDataPrefix_def Let_def split: if_split_asm)
  then show ?thesis
  proof cases
    case 1
    then show ?thesis
      using assms decode_small_push [OF 1] by (auto simp: PushDataPrefix_def push_chunk_def)
  next
    case 2
    then show ?thesis
      using assms by (auto simp: PushDataPrefix_def push_chunk_def decode_op_def decode_push_def)
  next
    case 3
    then show ?thesis
      using assms unat_length(2) [of "length d"]
      by (auto simp: PushDataPrefix_def push_chunk_def decode_op_def decode_push_def)
  next
    case 4
    then show ?thesis
      using assms unat_length(3) [of "length d"]
      by (auto simp: PushDataPrefix_def push_chunk_def decode_op_def decode_push_def)
  qed
qed

lemma EncodePushDatas_decode:
  "EncodePushDatas parts = Inr b \<Longrightarrow> DecodeScript_loop p k (b @ r) =
     (let (ops, e) = DecodeScript_loop p k r in (map push_chunk parts @ ops, e))"
proof (induction parts arbitrary: b)
  case Nil
  then show ?case by (auto split: prod.split)
next
  case (Cons d parts)
  then obtain pd b' where b: "PushDataPrefix d = Inr pd" "EncodePushDatas parts = Inr b'" "b = pd @ d @ b'"
    by (auto simp: res_simps split: sum.split_asm)
  have "pd \<noteq> []"
    using b(1) by (auto simp: PushDataPrefix_def Let_def split: if_split_asm)
  then show ?case
    using Cons.IH [OF b(2)] decode_op_push [OF b(1), of p k "b' @ r"]
    by (subst DecodeScript_loop.simps) (simp add: b(3) split: prod.split)
qed

lemma EncodePushDatas_fails_iff:
  "EncodePushDatas parts = Inl e \<longleftrightarrow> e = ErrPartTooBig \<and> (\<exists>d\<in>set parts. length d > 0xFFFFFFFF)"
proof (induction parts)
  case (Cons d parts)
  have "(\<exists>x. PushDataPrefix d = Inl x) \<longleftrightarrow> length d > 0xFFFFFFFF"
    by (auto simp: PushDataPrefix_def Let_def)
  then show ?case
    using Cons by (cases "PushDataPrefix d") (auto simp: res_simps)
qed simp

lemma Data_push_chunk [simp]: "Data (push_chunk d) = d"
  by (simp add: push_chunk_def)

text \<open>(C37) The decoders of script chunks. Both return on every script. \<open>DecodeScript\<close> with the option to parse after \<open>OP_RETURN\<close>
  and \<open>ParseOps\<close> give the same chunks and the same error, and when \<open>DecodeScript\<close> gives no error the bytes its chunks stand for, put
  together, are the script, with either option. \<open>EncodePushDatas\<close> fails exactly if a part is longer than a 32 bit length can say, and otherwise
  \<open>DecodeScript\<close> reads the parts back as pushes, in order and whatever script follows.\<close>

theorem script_chunks:
  "ParseOps s = (case DecodeScript True s of (ops, None) \<Rightarrow> Inr ops | (_, Some e) \<Rightarrow> Inl (Error e))
   \<and> (snd (DecodeScript p s) = None \<longrightarrow> concat (map chunk_bytes (fst (DecodeScript p s))) = s)
   \<and> (case EncodePushDatas parts of
        Inl e \<Rightarrow> e = ErrPartTooBig \<and> (\<exists>d\<in>set parts. length d > 0xFFFFFFFF)
      | Inr b \<Rightarrow> (\<forall>d\<in>set parts. length d \<le> 0xFFFFFFFF)
          \<and> DecodeScript p (b @ s) = (map push_chunk parts @ fst (DecodeScript p s), snd (DecodeScript p s)))"
proof (intro conjI impI)
  show "ParseOps s = (case DecodeScript True s of (ops, None) \<Rightarrow> Inr ops | (_, Some e) \<Rightarrow> Inl (Error e))"
    unfolding ParseOps_def DecodeScript_def by (subst ParseOps_from_DecodeScript [of s 0 0]) simp
  show "concat (map chunk_bytes (fst (DecodeScript p s))) = s" if "snd (DecodeScript p s) = None"
    using that DecodeScript_loop_lossless [of p 0 s]
    by (cases "DecodeScript_loop p 0 s") (simp add: DecodeScript_def)
  show "case EncodePushDatas parts of
        Inl e \<Rightarrow> e = ErrPartTooBig \<and> (\<exists>d\<in>set parts. length d > 0xFFFFFFFF)
      | Inr b \<Rightarrow> (\<forall>d\<in>set parts. length d \<le> 0xFFFFFFFF)
          \<and> DecodeScript p (b @ s) = (map push_chunk parts @ fst (DecodeScript p s), snd (DecodeScript p s))"
  proof (cases "EncodePushDatas parts")
    case (Inl e)
    then show ?thesis using EncodePushDatas_fails_iff [of parts e] by simp
  next
    case (Inr b)
    then have "\<forall>d\<in>set parts. length d \<le> 0xFFFFFFFF"
      using EncodePushDatas_fails_iff [of parts ErrPartTooBig] by (force simp: not_less)
    then show ?thesis
      using Inr EncodePushDatas_decode [OF Inr, of p 0 s] by (simp add: DecodeScript_def split: prod.split)
  qed
qed

theorem script_chunks_witness:
  "DecodeScript False [0x76, 2, 1, 2, 0x4C, 1, 9, 0x6A, 5] =
     ([chunk 0x76 [], chunk 2 [1, 2], chunk 0x4C [9], chunk 0x6A [0x6A, 5]], None)
   \<and> concat (map chunk_bytes [chunk 0x76 [], chunk 2 [1, 2], chunk 0x4C [9], chunk 0x6A [0x6A, 5]])
     = [0x76, 2, 1, 2, 0x4C, 1, 9, 0x6A, 5]
   \<and> EncodePushDatas [[1, 2], replicate 80 7] = Inr ([2, 1, 2, 0x4C, 80] @ replicate 80 7)
   \<and> DecodeScript False ([2, 1, 2, 0x4C, 80] @ replicate 80 7 @ [0x51]) =
     ([chunk 2 [1, 2], chunk 0x4C (replicate 80 7), chunk 0x51 []], None)"
proof -
  let ?s = "[0x76, 2, 1, 2, 0x4C, 1, 9, 0x6A, 5] :: bytes"
  have d: "DecodeScript False ?s = ([chunk 0x76 [], chunk 2 [1, 2], chunk 0x4C [9], chunk 0x6A [0x6A, 5]], None)"
    "DecodeScript False [0x51] = ([chunk 0x51 []], None)"
    by code_simp+
  have e: "EncodePushDatas [[1, 2], replicate 80 7] = Inr ([2, 1, 2, 0x4C, 80] @ replicate 80 7)"
    by (simp add: PushDataPrefix_def Let_def)
  have "concat (map chunk_bytes (fst (DecodeScript False ?s))) = ?s"
    using script_chunks [of ?s False "[]"] by (simp add: d(1))
  moreover have "DecodeScript False (([2, 1, 2, 0x4C, 80] @ replicate 80 7) @ [0x51]) =
      (map push_chunk [[1, 2], replicate 80 7] @ [chunk 0x51 []], None)"
    using script_chunks [of "[0x51]" False "[[1, 2], replicate 80 7]"] by (simp only: d(2) e sum.case fst_conv snd_conv)
  ultimately show ?thesis
    by (simp add: d(1) e push_chunk_def Let_def del: EncodePushDatas.simps)
qed

text \<open>The chunks of a script with a final \<open>OP_RETURN\<close> do not build the script again: the opcode is written twice.\<close>

lemma NewScriptFromScriptOps_doubles_return:
  "NewScriptFromScriptOps (fst (DecodeScript False [0x6A, 1, 9])) = Inr [0x6A, 0x6A, 1, 9]"
  by code_simp

end
