(* ===== verification/Address.thy ===== *)
theory Address
  imports Base58 Chunk_Laws Sighash
begin

text \<open>
  \<^verbatim>\<open>script/address.go\<close>, \<^verbatim>\<open>script/addressvalidation.go\<close> and the template \<^verbatim>\<open>transaction/template/p2pkh/p2pkh.go\<close>: addresses and the scripts that pay
  to them. SHA-256 is a parameter. The BIP 276 form of an address, which is matched with a regular expression, and the functions that take a
  public key or a hex string are not modelled.
\<close>

record Address =
  AddressString :: bytes
  addrPublicKeyHash :: bytes

abbreviation (input) hashP2PKH :: byte where "hashP2PKH \<equiv> 0x00"
abbreviation (input) hashTestNetP2PKH :: byte where "hashTestNetP2PKH \<equiv> 0x6f"

definition checksum :: "(bytes \<Rightarrow> bytes) \<Rightarrow> bytes \<Rightarrow> bytes" where
  "checksum sha input = take 4 (Sha256d sha input)"

definition Base58EncodeMissingChecksum :: "(bytes \<Rightarrow> bytes) \<Rightarrow> bytes \<Rightarrow> bytes" where
  "Base58EncodeMissingChecksum sha input = Encode (input @ checksum sha input)"

definition NewAddressFromPublicKeyHash :: "(bytes \<Rightarrow> bytes) \<Rightarrow> bytes \<Rightarrow> bool \<Rightarrow> Address" where
  "NewAddressFromPublicKeyHash sha hash mainnet =
     (let bb = (if \<not> mainnet then [111] else [0]) @ hash
      in \<lparr>AddressString = Base58EncodeMissingChecksum sha bb, addrPublicKeyHash = hash\<rparr>)"

definition addressToPubKeyHash :: "bytes \<Rightarrow> script_err + bytes" where
  "addressToPubKeyHash address = (case Decode address of
     None \<Rightarrow> Inl ErrEncodingBadChar
   | Some decoded \<Rightarrow>
       if length decoded \<noteq> 25 then Inl ErrInvalidAddressLength
       else if decoded ! 0 = hashP2PKH then Inr (take (length decoded - 5) (drop 1 decoded))
       else if decoded ! 0 = hashTestNetP2PKH then Inr (take (length decoded - 5) (drop 1 decoded))
       else Inl ErrUnsupportedAddress)"

definition NewAddressFromString :: "bytes \<Rightarrow> script_err + Address" where
  "NewAddressFromString addr = rbind (addressToPubKeyHash addr) (\<lambda>pkh.
     Inr \<lparr>AddressString = addr, addrPublicKeyHash = pkh\<rparr>)"

subsection \<open>Validation\<close>

text \<open>\<^verbatim>\<open>bytes.IndexByte\<close>.\<close>

definition IndexByte :: "bytes \<Rightarrow> byte \<Rightarrow> nat option" where
  "IndexByte b c = (let n = length (takeWhile (\<lambda>x. x \<noteq> c) b) in if n < length b then Some n else None)"

definition tmpl :: bytes where
  "tmpl = map of_char ''123456789ABCDEFGHJKLMNPQRSTUVWXYZabcdefghijkmnopqrstuvwxyz''"

text \<open>The inner loop of \<open>set58\<close>, on the bytes from the last to the first: the bytes and the carry that is left.\<close>

primrec mul58_add :: "bytes \<Rightarrow> nat \<Rightarrow> bytes \<times> nat" where
  "mul58_add [] c = ([], c)"
| "mul58_add (x # xs) c = (let c = c + 58 * unat x; (ys, d) = mul58_add xs (c div 256) in (word_of_nat (c mod 256) # ys, d))"

primrec set58 :: "bytes \<Rightarrow> bytes \<Rightarrow> script_err + bytes" where
  "set58 [] a = Inr a"
| "set58 (s1 # s) a = (case IndexByte tmpl s1 of
     None \<Rightarrow> Inl ErrEncodingBadChar
   | Some c \<Rightarrow> (let (r, d) = mul58_add (rev a) c in if d > 0 then Inl ErrEncodingTooLong else set58 s (rev r)))"

definition embeddedChecksum :: "bytes \<Rightarrow> bytes" where
  "embeddedChecksum a = drop 21 a"

definition computeChecksum :: "(bytes \<Rightarrow> bytes) \<Rightarrow> bytes \<Rightarrow> bytes" where
  "computeChecksum sha a = take 4 (Sha256d sha (take 21 a))"

definition validA58 :: "(bytes \<Rightarrow> bytes) \<Rightarrow> bytes \<Rightarrow> script_err + bool" where
  "validA58 sha a58 = rbind (set58 a58 (replicate 25 0)) (\<lambda>a.
     if a ! 0 \<noteq> 0 \<and> a ! 0 \<noteq> 0x6f then Inl ErrEncodingInvalidVersion
     else if embeddedChecksum a \<noteq> computeChecksum sha a then Inl ErrEncodingChecksumFailed
     else Inr True)"

subsection \<open>The template\<close>

definition Lock :: "Address \<Rightarrow> script_err + bytes" where
  "Lock a = (if length (addrPublicKeyHash a) \<noteq> 20 then Inl ErrBadPublicKeyHash
     else Inr ([OpDUP, OpHASH160, OpDATA20] @ addrPublicKeyHash a @ [OpEQUALVERIFY, OpCHECKSIG]))"

definition chunk_at :: "ScriptChunk list \<Rightarrow> nat \<Rightarrow> script_fault + ScriptChunk" where
  "chunk_at chunks i = (if i < length chunks then Inr (chunks ! i) else Inl Crash)"

text \<open>\<open>Decode\<close> of the template: the disjunction stops at the first condition that holds, and each reads a chunk.\<close>

definition p2pkh_Decode :: "(bytes \<Rightarrow> bytes) \<Rightarrow> bytes \<Rightarrow> bool \<Rightarrow> script_fault + Address option" where
  "p2pkh_Decode sha s mainnet =
     (if length s \<noteq> 25 then Inr None
      else case Chunks s of
        (_, Some _) \<Rightarrow> Inr None
      | (chunks, None) \<Rightarrow>
          rbind (chunk_at chunks 0) (\<lambda>c0. if Op c0 \<noteq> OpDUP then Inr None else
          rbind (chunk_at chunks 1) (\<lambda>c1. if Op c1 \<noteq> OpHASH160 then Inr None else
          rbind (chunk_at chunks 2) (\<lambda>c2. if length (Data c2) \<noteq> 20 then Inr None else
          rbind (chunk_at chunks 3) (\<lambda>c3. if Op c3 \<noteq> OpEQUALVERIFY then Inr None else
          rbind (chunk_at chunks 4) (\<lambda>c4. if Op c4 \<noteq> OpCHECKSIG then Inr None else
            Inr (Some (NewAddressFromPublicKeyHash sha (Data c2) mainnet))))))))"

subsection \<open>Addresses are read back\<close>

lemma IndexByte_tmpl:
  "list_all (\<lambda>n. IndexByte tmpl (word_of_nat n) = (if b58 ! n = 255 then None else Some (unat (b58 ! n)))) [0 ..< 256]"
  by code_simp

lemma IndexByte_eq: "IndexByte tmpl c = (if b58 ! unat c = 255 then None else Some (digit c))"
  using IndexByte_tmpl [unfolded list_all_iff, THEN bspec, of "unat c"] by (simp add: digit_def)

lemma mul58_add_value:
  "mul58_add xs c = (ys, d) \<Longrightarrow>
   length ys = length xs \<and> undigits 256 (map unat ys) + 256 ^ length xs * d = 58 * undigits 256 (map unat xs) + c"
proof (induction xs arbitrary: c ys d)
  case (Cons x xs)
  let ?c = "c + 58 * unat x"
  obtain zs where zs: "mul58_add xs (?c div 256) = (zs, d)" "ys = word_of_nat (?c mod 256) # zs"
    using Cons.prems by (auto simp: Let_def split: prod.split_asm)
  have IH: "length zs = length xs" "undigits 256 (map unat zs) + 256 ^ length xs * d = 58 * undigits 256 (map unat xs) + ?c div 256"
    using Cons.IH [OF zs(1)] by auto
  have "undigits 256 (map unat ys) + 256 ^ length (x # xs) * d
      = ?c mod 256 + 256 * (undigits 256 (map unat zs) + 256 ^ length xs * d)"
    by (simp add: zs(2) algebra_simps)
  also have "\<dots> = 58 * undigits 256 (map unat (x # xs)) + c"
    unfolding IH(2) using div_mult_mod_eq [of ?c 256] by (simp add: algebra_simps)
  finally show ?case using IH(1) zs(2) by simp
qed simp

lemma undigits_snoc: "undigits B (ds @ [d]) = undigits B ds + B ^ length ds * d"
  by (induction ds) (auto simp: algebra_simps)

lemma undigits_bound: "\<forall>d\<in>set ds. d < B \<Longrightarrow> undigits B ds < B ^ length ds"
proof (induction ds)
  case (Cons d ds)
  then have "d + B * undigits B ds < B * (1 + undigits B ds)" by simp
  also have "\<dots> \<le> B * B ^ length ds" using Cons by (intro mult_le_mono2) simp
  finally show ?case by simp
qed simp

lemma set58_value:
  assumes "valid58 s" "be_nat a * 58 ^ length s + undigits 58 (map digit (rev s)) < 256 ^ length a"
  shows "\<exists>r. set58 s a = Inr r \<and> length r = length a \<and> be_nat r = be_nat a * 58 ^ length s + undigits 58 (map digit (rev s))"
  using assms
proof (induction s arbitrary: a)
  case (Cons c s)
  obtain ys d where m: "mul58_add (rev a) (digit c) = (ys, d)" by (cases "mul58_add (rev a) (digit c)")
  have v: "length ys = length a" "undigits 256 (map unat ys) + 256 ^ length a * d = 58 * be_nat a + digit c"
    using mul58_add_value [OF m] by (simp_all add: be_nat_def)
  have "(58 * be_nat a + digit c) * 58 ^ length s \<le> be_nat a * 58 ^ length (c # s) + undigits 58 (map digit (rev (c # s)))"
    by (simp add: undigits_snoc algebra_simps)
  also have "\<dots> < 256 ^ length a" by (rule Cons.prems(2))
  finally have "58 * be_nat a + digit c < 256 ^ length a"
    by (metis le_less_trans mult_le_mono2 nat_mult_1_right one_le_numeral one_le_power)
  then have d: "d = 0"
    using v(2) by (cases d) auto
  have b: "be_nat (rev ys) = 58 * be_nat a + digit c"
    using v(2) d by (simp add: be_nat_def)
  have "be_nat (rev ys) * 58 ^ length s + undigits 58 (map digit (rev s))
      = be_nat a * 58 ^ length (c # s) + undigits 58 (map digit (rev (c # s)))"
    by (simp add: b undigits_snoc algebra_simps)
  then show ?case
    using Cons.IH [of "rev ys"] Cons.prems m d v(1) by (simp add: IndexByte_eq valid58_def)
qed simp

lemma Encode_value: "undigits 58 (map digit (rev (Encode b))) = be_nat b"
proof -
  obtain z b' where b: "b = replicate z 0 @ b'" "b' \<noteq> [] \<Longrightarrow> hd b' \<noteq> 0"
    by (rule split_lead [where b = b and a = 0]) blast
  let ?ds = "digits 58 (be_nat b')"
  have "map digit (map (\<lambda>d. alphabet ! d) ?ds) = ?ds"
    using digits_less [of 58] by (intro digits_alphabet(1)) auto
  then show ?thesis
    using digit_alphabet [of 0] by (simp add: b(1) Encode_lead [OF b(2)] be_nat_zeros undigits_append_zeros undigits_digits alphabet_0)
qed

lemma be_nat_inj: "length a = length b \<Longrightarrow> be_nat a = be_nat b \<Longrightarrow> a = b"
proof -
  have "undigits 256 (map unat xs) = undigits 256 (map unat ys) \<Longrightarrow> xs = ys" if "length xs = length ys" for xs ys :: bytes
    using that
  proof (induction xs ys rule: list_induct2)
    case (Cons x xs y ys)
    have "(unat x + 256 * undigits 256 (map unat xs)) mod 256 = (unat y + 256 * undigits 256 (map unat ys)) mod 256"
      using Cons.prems by simp
    then have "unat x = unat y" by simp
    then show ?case using Cons by (simp add: word_unat_eq_iff)
  qed simp
  then show "length a = length b \<Longrightarrow> be_nat a = be_nat b \<Longrightarrow> a = b"
    by (metis be_nat_def length_rev rev_rev_ident)
qed

lemma be_nat_bound: "be_nat b < 256 ^ length b"
  using undigits_bound [of "map unat (rev b)" 256] by (simp add: be_nat_def)

lemma set58_Encode:
  assumes "length p = 25"
  shows "set58 (Encode p) (replicate 25 0) = Inr p"
proof -
  have v: "valid58 (Encode p)"
    using Decode_Encode [of p] Decode_invalid [of "Encode p"] by auto
  have z: "be_nat (replicate 25 0) = 0"
    using be_nat_zeros [of 25 "[]"] by (simp add: be_nat_def)
  obtain r where "set58 (Encode p) (replicate 25 0) = Inr r" "length r = 25" "be_nat r = be_nat p"
    using set58_value [OF v, of "replicate 25 0"] be_nat_bound [of p] assms by (auto simp: z Encode_value)
  then show ?thesis using be_nat_inj [of r p] assms by simp
qed

text \<open>(C39) Addresses. The address made from a public key hash of 20 bytes, for either network, is read back from its string by
  \<open>NewAddressFromString\<close> to the same address, and the byte-wise base conversion of the validator accepts the string, its version and its checksum.\<close>

theorem address_roundtrip:
  assumes "\<forall>b. length (sha b) = 32" "length h = 20"
  shows "NewAddressFromString (AddressString (NewAddressFromPublicKeyHash sha h mainnet)) = Inr (NewAddressFromPublicKeyHash sha h mainnet)
    \<and> validA58 sha (AddressString (NewAddressFromPublicKeyHash sha h mainnet)) = Inr True"
proof -
  define v :: byte where "v = (if mainnet then 0 else 111)"
  define p where "p = v # h @ checksum sha (v # h)"
  have a: "NewAddressFromPublicKeyHash sha h mainnet = \<lparr>AddressString = Encode p, addrPublicKeyHash = h\<rparr>"
    by (simp add: NewAddressFromPublicKeyHash_def Base58EncodeMissingChecksum_def p_def v_def)
  have ck: "length (checksum sha (v # h)) = 4"
    using assms(1) by (simp add: checksum_def Sha256d_def)
  then have p: "length p = 25" "take 20 (drop 1 p) = h" "take 21 p = v # h" "drop 21 p = checksum sha (v # h)"
    using assms(2) by (simp_all add: p_def)
  have ver: "p ! 0 = 0 \<or> p ! 0 = 0x6f" by (simp add: p_def v_def)
  have "NewAddressFromString (Encode p) = Inr \<lparr>AddressString = Encode p, addrPublicKeyHash = h\<rparr>"
    using p(1,2) ver by (auto simp: NewAddressFromString_def addressToPubKeyHash_def Decode_Encode)
  moreover have "validA58 sha (Encode p) = Inr True"
    using p ver by (auto simp: validA58_def set58_Encode embeddedChecksum_def computeChecksum_def checksum_def)
  ultimately show ?thesis by (simp add: a)
qed

definition toy_sha :: "bytes \<Rightarrow> bytes" where
  "toy_sha b = replicate 31 7 @ [foldl (\<lambda>a x. 3 * a + x) 1 b]"

theorem address_roundtrip_witness:
  "NewAddressFromString (AddressString (NewAddressFromPublicKeyHash toy_sha (replicate 20 9) True))
     = Inr (NewAddressFromPublicKeyHash toy_sha (replicate 20 9) True)
   \<and> validA58 toy_sha (AddressString (NewAddressFromPublicKeyHash toy_sha (replicate 20 9) True)) = Inr True"
proof -
  have "\<forall>b. length (toy_sha b) = 32" by (simp add: toy_sha_def)
  then show ?thesis using address_roundtrip [of toy_sha "replicate 20 9" True] by simp
qed

text \<open>\<open>NewAddressFromString\<close> does not look at the checksum: with other checksum bytes the same hash is read, where the validator fails.\<close>

lemma checksum_ignored:
  assumes "length h = 20" "length ck = 4"
  shows "addressToPubKeyHash (Encode (0 # h @ ck)) = Inr h"
    "ck \<noteq> take 4 (Sha256d sha (0 # h)) \<Longrightarrow> validA58 sha (Encode (0 # h @ ck)) = Inl ErrEncodingChecksumFailed"
  using assms
  by (simp_all add: addressToPubKeyHash_def Decode_Encode validA58_def set58_Encode embeddedChecksum_def computeChecksum_def)

text \<open>The validator does not look at the number of leading \<open>1\<close>s either: with one more the string has another length when decoded.\<close>

lemma leading_ones_ignored: "validA58 sha (alphabetIdx0 # s) = validA58 sha s"
proof -
  have "mul58_add (replicate n 0) 0 = (replicate n 0, 0)" for n
    by (induction n) (simp_all add: Let_def)
  moreover have "IndexByte tmpl alphabetIdx0 = Some 0" by code_simp
  ultimately show ?thesis by (simp add: validA58_def)
qed

subsection \<open>The template and the scripts of its shape\<close>

lemma decode_op_Op: "decode_op p k b = Inr (c, k', b') \<Longrightarrow> Op c = b ! 0"
  by (auto simp: decode_op_def decode_push_def Let_def split: if_split_asm)

lemma DecodeScript_loop_Cons:
  assumes "DecodeScript_loop p k b = (ops, None)" "b \<noteq> []"
  obtains c k' b' ops' where "decode_op p k b = Inr (c, k', b')" "ops = c # ops'" "Op c = b ! 0"
    "DecodeScript_loop p k' b' = (ops', None)"
  using assms decode_op_Op [of p k b]
  by (subst (asm) DecodeScript_loop.simps) (auto split: sum.split_asm prod.split_asm)

lemma decode_op_plain:
  "c \<in> {OpDUP, OpHASH160, OpEQUALVERIFY, OpCHECKSIG} \<Longrightarrow> decode_op p k (c # b) = Inr (chunk c [], k, b)"
  by (elim insertE; simp add: decode_op_def)

lemma decode_op_twenty:
  assumes "decode_op False k r = Inr (c, k', b')" "length r = 23" "length (Data c) = 20" "k = 0"
  shows "k' = 0 \<and> (r ! 0 = OpDATA20 \<and> b' = drop 21 r
    \<or> r ! 0 = OpPUSHDATA1 \<and> r ! 1 = 20 \<and> b' = drop 22 r \<or> r ! 0 = OpPUSHDATA2 \<and> r ! 1 = 20 \<and> r ! 2 = 0 \<and> b' = [])"
proof -
  have two: "Uint16 (drop 1 r) = 20 \<longleftrightarrow> r ! 1 = 20 \<and> r ! 2 = 0"
  proof -
    have "take 2 (drop 1 r) = [r ! 1, r ! 2]"
      using assms(2) by (simp add: numeral_2_eq_2 take_Suc_conv_app_nth)
    then have "Uint16 (drop 1 r) = Uint16 [r ! 1, r ! 2]" "PutUint16 (Uint16 (drop 1 r)) = [r ! 1, r ! 2]"
      using PutUint_Uint_take(1) [of "drop 1 r"] assms(2) by (simp_all add: Uint16_def)
    moreover have "PutUint16 20 = [20, 0]" "Uint16 [20, 0] = 20" by code_simp+
    ultimately show ?thesis by auto
  qed
  have u: "unat (x :: byte) = 20 \<longleftrightarrow> x = 20" "unat (y :: u16) = 20 \<longleftrightarrow> y = 20" for x y
    by (simp_all add: word_unat_eq_iff)
  show ?thesis
    using assms by (auto simp: decode_op_def decode_push_def Let_def u two [simplified] split: if_split_asm)
qed

definition decode_panics :: "bytes \<Rightarrow> bool" where
  "decode_panics s = (length s = 25 \<and>
     (take 4 s = [OpDUP, OpHASH160, OpPUSHDATA1, 20] \<and> s ! 24 = OpEQUALVERIFY \<or> take 5 s = [OpDUP, OpHASH160, OpPUSHDATA2, 20, 0]))"

lemma p2pkh_Decode_shapes:
  assumes "p2pkh_Decode sha s mainnet \<noteq> Inr None"
  shows "IsP2PKH s \<or> decode_panics s"
proof -
  have len: "length s = 25" and ops: "snd (Chunks s) = None"
    using assms by (auto simp: p2pkh_Decode_def split: prod.splits option.splits if_split_asm)
  obtain a b r where s: "s = a # b # r" and r: "length r = 23"
    using len by (cases s; cases "tl s") auto
  obtain ops where ops: "DecodeScript_loop False 0 s = (ops, None)"
    using ops by (cases "Chunks s") (auto simp: Chunks_def DecodeScript_def)
  note D = assms [unfolded p2pkh_Decode_def Chunks_def DecodeScript_def ops, simplified len, simplified]
  obtain c0 k0 b0 o0 where 0: "decode_op False 0 s = Inr (c0, k0, b0)" "ops = c0 # o0" "Op c0 = s ! 0" "DecodeScript_loop False k0 b0 = (o0, None)"
    by (rule DecodeScript_loop_Cons [OF ops]) (use s in auto)
  have a: "a = OpDUP" using D 0(2,3) s by (auto simp: chunk_at_def split: if_split_asm)
  then have 0: "ops = chunk a [] # o0" "DecodeScript_loop False 0 (b # r) = (o0, None)"
    using 0 decode_op_plain [of a False 0 "b # r"] s by auto
  obtain c1 k1 b1 o1 where 1: "decode_op False 0 (b # r) = Inr (c1, k1, b1)" "o0 = c1 # o1" "Op c1 = b" "DecodeScript_loop False k1 b1 = (o1, None)"
    by (rule DecodeScript_loop_Cons [OF 0(2)]) auto
  have b: "b = OpHASH160" using D 0(1) 1(2,3) a by (auto simp: chunk_at_def split: if_split_asm)
  then have 1: "o0 = chunk b [] # o1" "DecodeScript_loop False 0 r = (o1, None)"
    using 1 decode_op_plain [of b False 0 r] by auto
  obtain c2 k2 b2 o2 where 2: "decode_op False 0 r = Inr (c2, k2, b2)" "o1 = c2 # o2" "DecodeScript_loop False k2 b2 = (o2, None)"
    by (rule DecodeScript_loop_Cons [OF 1(2)]) (use r in auto)
  have ops': "ops = chunk a [] # chunk b [] # c2 # o2" by (simp add: 0(1) 1(1) 2(2))
  have c2: "length (Data c2) = 20"
    using D a b unfolding ops' by (auto simp: chunk_at_def split: if_split_asm)
  note sh = decode_op_twenty [OF 2(1) r c2 refl]
  have op3: "b2 \<noteq> [] \<Longrightarrow> b2 ! 0 = OpEQUALVERIFY"
  proof -
    assume "b2 \<noteq> []"
    then obtain c3 o3 where "o2 = c3 # o3" "Op c3 = b2 ! 0"
      using DecodeScript_loop_Cons [OF 2(3)] by metis
    then show ?thesis using D a b c2 unfolding ops' by (auto simp: chunk_at_def split: if_split_asm)
  qed
  have op4: "b2 ! 1 = OpCHECKSIG" if l: "length b2 = 2"
  proof -
    obtain y where b2: "b2 = [OpEQUALVERIFY, y]"
      using op3 l by (cases b2; cases "tl b2") auto
    then obtain c3 k3 b3 o3 where 3: "decode_op False k2 b2 = Inr (c3, k3, b3)" "o2 = c3 # o3" "DecodeScript_loop False k3 b3 = (o3, None)"
      using DecodeScript_loop_Cons [OF 2(3)] by (metis list.distinct(1))
    then have 3: "o2 = chunk OpEQUALVERIFY [] # o3" "DecodeScript_loop False k2 [y] = (o3, None)"
      using decode_op_plain [of OpEQUALVERIFY False k2 "[y]"] b2 by auto
    obtain c4 o4 where "o3 = c4 # o4" "Op c4 = y"
      using DecodeScript_loop_Cons [OF 3(2)] by (metis list.distinct(1) nth_Cons_0)
    then show ?thesis using D a b c2 b2 3(1) unfolding ops' by (auto simp: chunk_at_def split: if_split_asm)
  qed
  consider "r ! 0 = OpDATA20" "b2 = drop 21 r" | "r ! 0 = OpPUSHDATA1" "r ! 1 = 20" "b2 = drop 22 r"
    | "r ! 0 = OpPUSHDATA2" "r ! 1 = 20" "r ! 2 = 0" using sh by auto
  then show ?thesis
  proof cases
    case 1
    then show ?thesis using op3 op4 r a b by (simp add: IsP2PKH_def s nth_append)
  next
    case 2
    then show ?thesis using op3 r a b by (simp add: decode_panics_def s take_Cons' numeral_eq_Suc take_Suc_conv_app_nth)
  next
    case 3
    then show ?thesis using r a b by (simp add: decode_panics_def s take_Cons' numeral_eq_Suc take_Suc_conv_app_nth)
  qed
qed

lemma Decode_direct:
  assumes "length h = 20"
  shows "DecodeScript_loop False 0 ([OpDUP, OpHASH160, OpDATA20] @ h @ t) =
      (let (ops, e) = DecodeScript_loop False 0 t in (chunk OpDUP [] # chunk OpHASH160 [] # chunk OpDATA20 h # ops, e))"
    "DecodeScript_loop False 0 ([OpDUP, OpHASH160, OpPUSHDATA1, 20] @ h @ t) =
      (let (ops, e) = DecodeScript_loop False 0 t in (chunk OpDUP [] # chunk OpHASH160 [] # chunk OpPUSHDATA1 h # ops, e))"
    "DecodeScript_loop False 0 ([OpDUP, OpHASH160, OpPUSHDATA2, 20, 0] @ h @ t) =
      (let (ops, e) = DecodeScript_loop False 0 t in (chunk OpDUP [] # chunk OpHASH160 [] # chunk OpPUSHDATA2 h # ops, e))"
proof -
  have "Uint16 (20 # 0 # x) = 20" for x :: bytes
    by (simp add: Uint16_def)
  then have "decode_op False 0 (OpDATA20 # h @ t) = Inr (chunk OpDATA20 h, 0, t)"
    "decode_op False 0 (OpPUSHDATA1 # 20 # h @ t) = Inr (chunk OpPUSHDATA1 h, 0, t)"
    "decode_op False 0 (OpPUSHDATA2 # 20 # 0 # h @ t) = Inr (chunk OpPUSHDATA2 h, 0, t)"
    using assms by (simp_all add: decode_op_def decode_push_def)
  then show "DecodeScript_loop False 0 ([OpDUP, OpHASH160, OpDATA20] @ h @ t) =
      (let (ops, e) = DecodeScript_loop False 0 t in (chunk OpDUP [] # chunk OpHASH160 [] # chunk OpDATA20 h # ops, e))"
    "DecodeScript_loop False 0 ([OpDUP, OpHASH160, OpPUSHDATA1, 20] @ h @ t) =
      (let (ops, e) = DecodeScript_loop False 0 t in (chunk OpDUP [] # chunk OpHASH160 [] # chunk OpPUSHDATA1 h # ops, e))"
    "DecodeScript_loop False 0 ([OpDUP, OpHASH160, OpPUSHDATA2, 20, 0] @ h @ t) =
      (let (ops, e) = DecodeScript_loop False 0 t in (chunk OpDUP [] # chunk OpHASH160 [] # chunk OpPUSHDATA2 h # ops, e))"
    by (simp_all add: DecodeScript_loop.simps [of False 0 "OpDUP # _"] DecodeScript_loop.simps [of False 0 "OpHASH160 # _"]
      DecodeScript_loop.simps [of False 0 "OpDATA20 # _"] DecodeScript_loop.simps [of False 0 "OpPUSHDATA1 # _"]
      DecodeScript_loop.simps [of False 0 "OpPUSHDATA2 # _"] decode_op_plain split: prod.split)
qed

lemma DecodeScript_tails:
  "DecodeScript_loop False 0 [OpEQUALVERIFY, OpCHECKSIG] = ([chunk OpEQUALVERIFY [], chunk OpCHECKSIG []], None)"
  "DecodeScript_loop False 0 [OpEQUALVERIFY] = ([chunk OpEQUALVERIFY []], None)"
  "DecodeScript_loop False 0 [] = ([], None)"
  by code_simp+

lemma split_at: "length s = 25 \<Longrightarrow> take n s = a \<Longrightarrow> n \<le> 5 \<Longrightarrow> s = a @ take 20 (drop n s) @ drop (n + 20) s"
  by (metis append_take_drop_id drop_drop add.commute)

lemma p2pkh_Decode_lock:
  assumes "s = [OpDUP, OpHASH160, OpDATA20] @ h @ [OpEQUALVERIFY, OpCHECKSIG]" "length h = 20"
  shows "p2pkh_Decode sha s mainnet = Inr (Some (NewAddressFromPublicKeyHash sha h mainnet))"
  using assms Decode_direct(1) [of h "[OpEQUALVERIFY, OpCHECKSIG]"]
  by (simp add: p2pkh_Decode_def Chunks_def DecodeScript_def DecodeScript_tails chunk_at_def)

lemma p2pkh_Decode_typed:
  assumes s: "IsP2PKH s"
  shows "p2pkh_Decode sha s mainnet = Inr (Some (NewAddressFromPublicKeyHash sha (take 20 (drop 3 s)) mainnet))"
proof (rule p2pkh_Decode_lock)
  have "take 3 s = [OpDUP, OpHASH160, OpDATA20]" "drop 23 s = [OpEQUALVERIFY, OpCHECKSIG]"
    using s by (simp_all add: IsP2PKH_def list_eq_iff_nth_eq nth_Cons' less_Suc_eq numeral_eq_Suc)
  then show "s = [OpDUP, OpHASH160, OpDATA20] @ take 20 (drop 3 s) @ [OpEQUALVERIFY, OpCHECKSIG]"
    using split_at [of s 3] s by (simp add: IsP2PKH_def)
  show "length (take 20 (drop 3 s)) = 20" using s by (simp add: IsP2PKH_def)
qed

lemma p2pkh_Decode_crash:
  assumes bad: "decode_panics s"
  shows "p2pkh_Decode sha s mainnet = Inl Crash"
proof -
  have l: "length s = 25" using bad by (simp add: decode_panics_def)
  consider "take 4 s = [OpDUP, OpHASH160, OpPUSHDATA1, 20]" "drop 24 s = [OpEQUALVERIFY]" | "take 5 s = [OpDUP, OpHASH160, OpPUSHDATA2, 20, 0]" "drop 25 s = []"
    using bad Cons_nth_drop_Suc [of 24 s] by (auto simp: decode_panics_def)
  then show ?thesis
  proof cases
    case 1
    then show ?thesis
      using split_at [OF l 1(1)] Decode_direct(2) [of "take 20 (drop 4 s)" "drop 24 s"] l
      by (simp add: p2pkh_Decode_def Chunks_def DecodeScript_def DecodeScript_tails chunk_at_def)
  next
    case 2
    then show ?thesis
      using split_at [OF l 2(1)] Decode_direct(3) [of "take 20 (drop 5 s)" "drop 25 s"] l
      by (simp add: p2pkh_Decode_def Chunks_def DecodeScript_def DecodeScript_tails chunk_at_def)
  qed
qed

text \<open>(C38) The pay-to-public-key-hash template. The script that \<open>Lock\<close> builds for a hash of 20 bytes has the type \<open>IsP2PKH\<close>,
  and \<open>PublicKeyHash\<close> and the template's \<open>Decode\<close> read the hash back from it; other hashes are refused. \<open>Decode\<close> gives an address exactly on
  the scripts of this type, and panics exactly on the scripts of the same length that push the hash with \<open>OP_PUSHDATA1\<close> or
  \<open>OP_PUSHDATA2\<close> and for that reason have a chunk too few.\<close>

theorem p2pkh_template:
  shows "(case Lock a of
      Inl _ \<Rightarrow> length (addrPublicKeyHash a) \<noteq> 20
    | Inr s \<Rightarrow> IsP2PKH s \<and> PublicKeyHash (Some s) = Inr (addrPublicKeyHash a)
        \<and> p2pkh_Decode sha s mainnet = Inr (Some (NewAddressFromPublicKeyHash sha (addrPublicKeyHash a) mainnet)))
    \<and> p2pkh_Decode sha s mainnet =
      (if IsP2PKH s then Inr (Some (NewAddressFromPublicKeyHash sha (take 20 (drop 3 s)) mainnet))
       else if decode_panics s then Inl Crash else Inr None)"
proof -
  let ?h = "addrPublicKeyHash a"
  let ?l = "[OpDUP, OpHASH160, OpDATA20] @ ?h @ [OpEQUALVERIFY, OpCHECKSIG]"
  have "IsP2PKH ?l \<and> PublicKeyHash (Some ?l) = Inr ?h" if h: "length ?h = 20"
  proof
    show "IsP2PKH ?l" using h by (simp add: IsP2PKH_def nth_append)
    have "decode_op False 0 (OpDATA20 # ?h @ [OpEQUALVERIFY, OpCHECKSIG]) = Inr (chunk OpDATA20 ?h, 0, [OpEQUALVERIFY, OpCHECKSIG])"
      using h by (simp add: decode_op_def decode_push_def)
    then show "PublicKeyHash (Some ?l) = Inr ?h"
      by (simp add: PublicKeyHash_def DecodeScript_def DecodeScript_tails DecodeScript_loop.simps [of False 0 "OpDATA20 # _"])
  qed
  then show ?thesis
    using p2pkh_Decode_lock [OF refl, of ?h] p2pkh_Decode_typed [of s] p2pkh_Decode_crash [of s] p2pkh_Decode_shapes [of sha s mainnet] by (auto simp: Lock_def)
qed

end
