(* ===== verification/SPV.thy ===== *)
theory SPV
  imports Engine_Props Merkle_Root
begin

text \<open>
  Package \<open>spv\<close>: \<^verbatim>\<open>spv/verify.go\<close> and \<^verbatim>\<open>spv/scripts_only.go\<close>. \<open>Verify\<close> walks a transaction and the transactions it spends from with a queue:
  a transaction with a merkle path is checked against the chain tracker, the inputs of the others are run by the script engine.

  The chain tracker and the fee model are services: arguments of \<open>spv_Verify\<close>. The tracker that the code takes when it is given none is such a service
  too. The errors of the package are the constructors of \<open>spv_fault\<close>; an error or panic of another package is passed on in \<open>Passed\<close>. A result \<open>None\<close> would be
  an engine that does not return. The sum \<open>inputTotal\<close>, which the code keeps and never reads, has no counterpart.

  \<open>apply\<close> of the engine stores the spent output in the input it runs (\<open>set_source\<close>); \<open>attach\<close> is that effect on the transaction of the caller, which the
  later inputs see. A transaction that two inputs spend from is one object in the code and two equal values here: a second visit finds in it the stored copies
  of the outputs that the first visit read, where the model has the outputs themselves.
\<close>

datatype spv_fault =
    ErrFeeTooLow
  | ErrInvalidMerklePath
  | ErrMissingSourceTransaction
  | ErrScriptVerificationFailed "thread fault"
  | Passed "thread fault"

text \<open>\<^verbatim>\<open>Transaction.TxID\<close>; \<^verbatim>\<open>chainhash.NewHash\<close> gives nil for another length, and the callers dereference it.\<close>

definition TxID :: "(bytes \<Rightarrow> bytes) \<Rightarrow> Transaction \<Rightarrow> 's fault + bytes option" where
  "TxID sha tx = rbind (Tx_Bytes tx) (\<lambda>b. let h = Sha256d sha b in Inr (if length h = 32 then Some h else None))"

definition txid_of :: "(bytes \<Rightarrow> bytes) \<Rightarrow> Transaction \<Rightarrow> 's fault + bytes" where
  "txid_of sha tx = rbind (TxID sha tx) (\<lambda>h. case h of None \<Rightarrow> Inl Panic | Some h \<Rightarrow> Inr h)"

definition attach :: "Transaction \<Rightarrow> nat \<Rightarrow> TransactionOutput \<Rightarrow> Transaction" where
  "attach tx vin out = with_Inputs tx ((Inputs tx)[vin := SetSourceTxOutput (Inputs tx ! vin)
     (Some \<lparr>Satoshis = Satoshis out, LockingScript = LockingScript out, Change = False\<rparr>)])"

definition run_input :: "('pk, 'sg) crypto \<Rightarrow> Transaction \<Rightarrow> nat \<Rightarrow> TransactionOutput \<Rightarrow> outcome option" where
  "run_input c tx vin out = Execute c [WithTx (Some tx) (int vin) (Some out), WithForkID, WithAfterGenesis]"

definition enqueue :: "(bytes \<Rightarrow> bytes) \<Rightarrow> bytes list \<Rightarrow> Transaction option \<Rightarrow> Transaction list \<Rightarrow> spv_fault + Transaction list" where
  "enqueue sha verified src queue = (case src of
     None \<Rightarrow> Inr queue
   | Some s \<Rightarrow> (case txid_of sha s of
       Inl e \<Rightarrow> Inl (Passed e)
     | Inr h \<Rightarrow> Inr (if h \<in> set verified then queue else queue @ [s])))"

text \<open>The loop over the inputs, at the positions \<open>vins\<close>: the queue with the transactions to visit.\<close>

primrec verify_inputs ::
  "('pk, 'sg) crypto \<Rightarrow> bytes list \<Rightarrow> nat list \<Rightarrow> Transaction \<Rightarrow> Transaction list \<Rightarrow> (spv_fault + Transaction list) option" where
  "verify_inputs c verified [] tx queue = Some (Inr queue)"
| "verify_inputs c verified (vin # vins) tx queue = (case SourceTxOutput (Inputs tx ! vin) of
     Inl e \<Rightarrow> Some (Inl (Passed e))
   | Inr None \<Rightarrow> Some (Inl ErrMissingSourceTransaction)
   | Inr (Some out) \<Rightarrow> (case enqueue (sha256 c) verified (SourceTransaction (Inputs tx ! vin)) queue of
       Inl e \<Rightarrow> Some (Inl e)
     | Inr queue \<Rightarrow> (case run_input c tx vin out of
         None \<Rightarrow> None
       | Some (Inl e) \<Rightarrow> Some (Inl (if e = Panic then Passed Panic else ErrScriptVerificationFailed e))
       | Some (Inr _) \<Rightarrow> verify_inputs c verified vins (attach tx vin out) queue)))"

abbreviation queue_size :: "Transaction list \<Rightarrow> nat" where
  "queue_size q \<equiv> sum_list (map size q)"

lemma enqueue_size: "enqueue sha verified src queue = Inr q \<Longrightarrow> queue_size q \<le> queue_size queue + size_option size src"
  by (auto simp: enqueue_def split: option.split_asm sum.split_asm if_split_asm)

lemma SourceTransaction_SetSourceTxOutput [simp]: "SourceTransaction (SetSourceTxOutput i out) = SourceTransaction i"
  by (simp add: SetSourceTxOutput_def)

lemma attach_simps [simp]:
  "length (Inputs (attach tx vin out)) = length (Inputs tx)"
  "SourceTransaction (Inputs (attach tx vin out) ! k) = SourceTransaction (Inputs tx ! k)"
  by (simp_all add: attach_def) (metis SourceTransaction_SetSourceTxOutput list_update_beyond not_less nth_list_update)

lemma verify_inputs_size:
  "verify_inputs c verified vins tx queue = Some (Inr q) \<Longrightarrow>
   queue_size q \<le> queue_size queue + sum_list (map (\<lambda>vin. size_option size (SourceTransaction (Inputs tx ! vin))) vins)"
proof (induction vins arbitrary: tx queue)
  case (Cons vin vins)
  then obtain out q' where "enqueue (sha256 c) verified (SourceTransaction (Inputs tx ! vin)) queue = Inr q'"
    "verify_inputs c verified vins (attach tx vin out) q' = Some (Inr q)"
    by (auto split: sum.split_asm option.split_asm if_split_asm)
  with Cons.IH [OF this(2)] enqueue_size [OF this(1)] show ?case by simp
qed simp

lemma size_pos: "0 < size (tx :: Transaction)"
  by (cases tx) simp

lemma sources_size:
  "sum_list (map (\<lambda>vin. size_option size (SourceTransaction (Inputs tx ! vin))) [0 ..< length (Inputs tx)]) < size tx"
proof -
  have i: "size_option size (SourceTransaction i) \<le> size i" for i by (cases i) simp
  have "sum_list (map (\<lambda>i. size_option size (SourceTransaction i)) ins) \<le> size_list size ins" for ins :: "TransactionInput list"
    using i by (induction ins) (simp_all add: add_mono le_SucI)
  moreover have "map (\<lambda>vin. size_option size (SourceTransaction (Inputs tx ! vin))) [0 ..< length (Inputs tx)]
      = map (\<lambda>i. size_option size (SourceTransaction i)) (Inputs tx)"
    by (rule nth_equalityI) simp_all
  ultimately show ?thesis by (cases tx) (simp add: le_imp_less_Suc)
qed

function verify_loop ::
  "('pk, 'sg) crypto \<Rightarrow> (bytes option \<Rightarrow> u32 \<Rightarrow> thread fault + bool) \<Rightarrow> bytes list \<Rightarrow> Transaction list \<Rightarrow> (spv_fault + bool) option" where
  "verify_loop c ct verified [] = Some (Inr True)"
| "verify_loop c ct verified (tx # queue) = (case txid_of (sha256 c) tx of
     Inl e \<Rightarrow> Some (Inl (Passed e))
   | Inr txid \<Rightarrow>
       if txid \<in> set verified then verify_loop c ct verified queue
       else (case MerklePath tx of
         Some mp \<Rightarrow> (case Verify_path (sha256 c) ct mp (Some txid) of
             Inl e \<Rightarrow> Some (Inl (Passed e))
           | Inr isValid \<Rightarrow> if isValid then verify_loop c ct (txid # verified) queue else Some (Inl ErrInvalidMerklePath))
       | None \<Rightarrow> (case verify_inputs c verified [0 ..< length (Inputs tx)] tx queue of
             None \<Rightarrow> None
           | Some (Inl e) \<Rightarrow> Some (Inl e)
           | Some (Inr queue') \<Rightarrow> verify_loop c ct verified queue')))"
  by pat_completeness auto
termination
proof (relation "measure (\<lambda>(c, ct, verified, queue). queue_size queue)", goal_cases)
  case (3 c ct verified tx queue txid r queue')
  then show ?case
    using verify_inputs_size [of c verified "[0 ..< length (Inputs tx)]" tx queue queue'] sources_size [of tx] by simp
qed (simp_all add: size_pos)

definition spv_Verify ::
  "('pk, 'sg) crypto \<Rightarrow> (bytes option \<Rightarrow> u32 \<Rightarrow> thread fault + bool) \<Rightarrow> (Transaction \<Rightarrow> thread fault + u64) option \<Rightarrow> Transaction \<Rightarrow>
   (spv_fault + bool) option" where
  "spv_Verify c ct feeModel t =
     (case (case feeModel of None \<Rightarrow> Inr ()
        | Some ComputeFee \<Rightarrow> (case GetFee t of
            Inl e \<Rightarrow> Inl (Passed e)
          | Inr txFee \<Rightarrow> (case ComputeFee t of
              Inl e \<Rightarrow> Inl (Passed e)
            | Inr requiredFee \<Rightarrow> if txFee < requiredFee then Inl ErrFeeTooLow else Inr ()))) of
       Inl e \<Rightarrow> Some (Inl e)
     | Inr _ \<Rightarrow> verify_loop c ct [] [t])"

definition IsValidRootForHeight_gullible :: "bytes option \<Rightarrow> u32 \<Rightarrow> thread fault + bool" where
  "IsValidRootForHeight_gullible merkleRoot height = Inr True"

definition VerifyScripts :: "('pk, 'sg) crypto \<Rightarrow> Transaction \<Rightarrow> (spv_fault + bool) option" where
  "VerifyScripts c t = spv_Verify c IsValidRootForHeight_gullible None t"

subsection \<open>The loop returns\<close>

lemma run_input_returns [simp]: "run_input c tx vin out \<noteq> None"
  unfolding run_input_def by (rule Execute_cases) auto

lemma verify_inputs_returns [simp]: "verify_inputs c verified vins tx queue \<noteq> None"
proof (induction vins arbitrary: tx queue)
  case (Cons vin vins)
  then show ?case
    by (auto simp del: not_None_eq split: sum.split option.split)
qed simp

lemma verify_loop_returns: "verify_loop c ct verified queue \<noteq> None"
proof (induction c ct verified queue rule: verify_loop.induct)
  case (2 c ct verified tx queue)
  then show ?case
    by (auto simp del: not_None_eq split: sum.split option.split)
qed simp

subsection \<open>What an accepted transaction has\<close>

text \<open>The transaction when its input \<open>vin\<close> is run: the inputs before it hold the outputs they spend.\<close>

primrec with_sources :: "Transaction \<Rightarrow> nat \<Rightarrow> Transaction" where
  "with_sources tx 0 = tx"
| "with_sources tx (Suc k) = (case SourceTxOutput (Inputs tx ! k) :: thread fault + _ of
     Inr (Some out) \<Rightarrow> attach (with_sources tx k) k out | _ \<Rightarrow> with_sources tx k)"

definition spends :: "('pk, 'sg) crypto \<Rightarrow> Transaction \<Rightarrow> nat \<Rightarrow> bool" where
  "spends c tx vin = (case SourceTxOutput (Inputs tx ! vin) :: thread fault + _ of
     Inr (Some out) \<Rightarrow> (case run_input c (with_sources tx vin) vin out of Some (Inr _) \<Rightarrow> True | _ \<Rightarrow> False) | _ \<Rightarrow> False)"

definition proven :: "('pk, 'sg) crypto \<Rightarrow> (bytes option \<Rightarrow> u32 \<Rightarrow> thread fault + bool) \<Rightarrow> Transaction \<Rightarrow> bool" where
  "proven c ct tx = (\<exists>h mp. txid_of (sha256 c) tx = (Inr h :: thread fault + _) \<and> MerklePath tx = Some mp
     \<and> Verify_path (sha256 c) ct mp (Some h) = Inr True)"

inductive ancestor :: "Transaction \<Rightarrow> Transaction \<Rightarrow> bool" for t where
  self: "ancestor t t"
| source: "ancestor t a \<Longrightarrow> i \<in> set (Inputs a) \<Longrightarrow> SourceTransaction i = Some s \<Longrightarrow> ancestor t s"

text \<open>The ancestors that are not settled by a proof of one of the transaction ids \<open>V\<close>.\<close>

inductive unsettled :: "(bytes \<Rightarrow> bytes) \<Rightarrow> bytes set \<Rightarrow> Transaction \<Rightarrow> Transaction \<Rightarrow> bool" for sha V t where
  self: "\<forall>h\<in>V. txid_of sha t \<noteq> (Inr h :: thread fault + _) \<Longrightarrow> unsettled sha V t t"
| source: "unsettled sha V t a \<Longrightarrow> i \<in> set (Inputs a) \<Longrightarrow> SourceTransaction i = Some s \<Longrightarrow>
    \<forall>h\<in>V. txid_of sha s \<noteq> (Inr h :: thread fault + _) \<Longrightarrow> unsettled sha V t s"

text \<open>An ancestor that is not settled by a proof: it has none itself, and each of its inputs is spent by its script.\<close>

definition sound_spend :: "('pk, 'sg) crypto \<Rightarrow> Transaction \<Rightarrow> bool" where
  "sound_spend c a = (MerklePath a = None \<and> (\<exists>h. txid_of (sha256 c) a = (Inr h :: thread fault + _))
     \<and> (\<forall>vin < length (Inputs a). spends c a vin))"

lemma unsettled_top: "unsettled sha V t a \<Longrightarrow> \<forall>h\<in>V. txid_of sha t \<noteq> (Inr h :: thread fault + _)"
  by (induction rule: unsettled.induct) auto

lemma unsettled_step:
  "unsettled sha V t a \<Longrightarrow> a = t \<or> (\<exists>i\<in>set (Inputs t). \<exists>s. SourceTransaction i = Some s \<and> unsettled sha V s a)"
proof (induction rule: unsettled.induct)
  case (source a i s)
  then show ?case by (auto intro: unsettled.intros)
qed simp

lemma ancestor_step: "i \<in> set (Inputs t) \<Longrightarrow> SourceTransaction i = Some s \<Longrightarrow> ancestor s a \<Longrightarrow> ancestor t a"
  by (rotate_tac 2, induction rule: ancestor.induct) (auto intro: ancestor.intros)

lemma with_sources_later: "k \<le> j \<Longrightarrow> Inputs (with_sources tx k) ! j = Inputs tx ! j"
  by (induction k) (auto simp: attach_def split: sum.split option.split)

lemma verify_inputs_sound:
  assumes "verify_inputs c verified [k ..< n] (with_sources tx k) queue = Some (Inr q)" "n \<le> length (Inputs tx)" "k \<le> n"
  shows "set queue \<subseteq> set q \<and> set q \<subseteq> set queue \<union> {s. \<exists>i\<in>set (Inputs tx). SourceTransaction i = Some s}
    \<and> (\<forall>vin\<in>{k ..< n}. spends c tx vin \<and> (\<forall>s. SourceTransaction (Inputs tx ! vin) = Some s \<longrightarrow>
         s \<in> set q \<or> (\<exists>h\<in>set verified. txid_of (sha256 c) s = (Inr h :: thread fault + _))))"
  using assms
proof (induction "n - k" arbitrary: k queue)
  case (Suc d)
  then have k: "k < n" "[k ..< n] = k # [Suc k ..< n]" by (simp_all add: upt_conv_Cons)
  obtain out q' t where out: "SourceTxOutput (Inputs tx ! k) = (Inr (Some out) :: thread fault + _)"
    and q': "enqueue (sha256 c) verified (SourceTransaction (Inputs tx ! k)) queue = Inr q'"
    and run: "run_input c (with_sources tx k) k out = Some (Inr t)"
    and rest: "verify_inputs c verified [Suc k ..< n] (attach (with_sources tx k) k out) q' = Some (Inr q)"
    using Suc.prems(1) unfolding k(2)
    by (auto simp: with_sources_later split: sum.split_asm option.split_asm if_split_asm)
  have "attach (with_sources tx k) k out = with_sources tx (Suc k)" using out by simp
  with rest Suc.hyps(2) Suc.prems(2) k(1)
  have IH: "set q' \<subseteq> set q" "set q \<subseteq> set q' \<union> {s. \<exists>i\<in>set (Inputs tx). SourceTransaction i = Some s}"
    "\<forall>vin\<in>{Suc k ..< n}. spends c tx vin \<and> (\<forall>s. SourceTransaction (Inputs tx ! vin) = Some s \<longrightarrow>
         s \<in> set q \<or> (\<exists>h\<in>set verified. txid_of (sha256 c) s = (Inr h :: thread fault + _)))"
    using Suc.hyps(1) [of "Suc k" q'] by auto
  have mem: "Inputs tx ! k \<in> set (Inputs tx)" using k(1) Suc.prems(2) by simp
  have enq: "set queue \<subseteq> set q'" "set q' \<subseteq> set queue \<union> {s. \<exists>i\<in>set (Inputs tx). SourceTransaction i = Some s}"
    "\<forall>s. SourceTransaction (Inputs tx ! k) = Some s \<longrightarrow> s \<in> set q' \<or> (\<exists>h\<in>set verified. txid_of (sha256 c) s = (Inr h :: thread fault + _))"
    using q' mem by (auto simp: enqueue_def split: option.split_asm sum.split_asm if_split_asm)
  have "spends c tx k" using out run by (simp add: spends_def)
  moreover have "vin = k \<or> vin \<in> {Suc k ..< n}" if "vin \<in> {k ..< n}" for vin using that by auto
  ultimately show ?case using IH enq by blast
qed simp

text \<open>The result of the loop: the transaction ids \<open>V\<close> that are proven at the end.\<close>

definition justified :: "('pk, 'sg) crypto \<Rightarrow> (bytes option \<Rightarrow> u32 \<Rightarrow> thread fault + bool) \<Rightarrow> bytes list \<Rightarrow> Transaction list \<Rightarrow> bytes set \<Rightarrow> bool" where
  "justified c ct verified queue V = (set verified \<subseteq> V
    \<and> (\<forall>h\<in>V. h \<in> set verified \<or> (\<exists>q\<in>set queue. \<exists>a. ancestor q a \<and> txid_of (sha256 c) a = (Inr h :: thread fault + _) \<and> proven c ct a))
    \<and> (\<forall>q\<in>set queue. \<forall>a. unsettled (sha256 c) V q a \<longrightarrow> sound_spend c a))"

lemma justified_settled:
  assumes "justified c ct verified queue V" "txid_of (sha256 c) tx = (Inr txid :: thread fault + _)" "txid \<in> set verified"
  shows "justified c ct verified (tx # queue) V"
proof -
  have "\<not> unsettled (sha256 c) V tx a" for a
    using unsettled_top [of "sha256 c" V tx a] assms by (auto simp: justified_def)
  with assms(1) show ?thesis by (auto simp: justified_def)
qed

lemma justified_proven:
  assumes "justified c ct (txid # verified) queue V" "txid_of (sha256 c) tx = (Inr txid :: thread fault + _)" "proven c ct tx"
  shows "justified c ct verified (tx # queue) V"
proof -
  note V = assms(1) [unfolded justified_def]
  have u: "\<not> unsettled (sha256 c) V tx a" for a
    using unsettled_top [of "sha256 c" V tx a] assms(2) V by auto
  have "h \<in> set verified \<or> (\<exists>q\<in>set (tx # queue). \<exists>a. ancestor q a \<and> txid_of (sha256 c) a = (Inr h :: thread fault + _) \<and> proven c ct a)"
    if "h \<in> V" for h
  proof (cases "h = txid")
    case True
    then show ?thesis using assms(2,3) ancestor.self [of tx] by (intro disjI2 bexI [of _ tx] exI [of _ tx]) simp_all
  next
    case False
    with V that show ?thesis by force
  qed
  with V u show ?thesis by (simp add: justified_def)
qed

lemma justified_inputs:
  assumes V: "justified c ct verified q V" and tx: "sound_spend c tx"
    and q: "set queue \<subseteq> set q" "set q \<subseteq> set queue \<union> {s. \<exists>i\<in>set (Inputs tx). SourceTransaction i = Some s}"
    and src: "\<And>i s. i \<in> set (Inputs tx) \<Longrightarrow> SourceTransaction i = Some s \<Longrightarrow>
      s \<in> set q \<or> (\<exists>h\<in>set verified. txid_of (sha256 c) s = (Inr h :: thread fault + _))"
  shows "justified c ct verified (tx # queue) V"
proof -
  have s: "sound_spend c a" if "unsettled (sha256 c) V s a" "i \<in> set (Inputs tx)" "SourceTransaction i = Some s" for i s a
    using src [OF that(2,3)] unsettled_top [OF that(1)] V that(1) by (auto simp: justified_def)
  have 1: "sound_spend c a" if "unsettled (sha256 c) V t a" "t \<in> set (tx # queue)" for t a
  proof (cases "t = tx")
    case True
    then show ?thesis using unsettled_step that(1) tx s by blast
  next
    case False
    then show ?thesis using that V q(1) by (auto simp: justified_def)
  qed
  have 2: "\<exists>t\<in>set (tx # queue). ancestor t a" if "t \<in> set q" "ancestor t a" for t a
    using q(2) that ancestor_step by fastforce
  show ?thesis
    using V 1 2 unfolding justified_def by blast
qed

lemma verify_loop_sound:
  "verify_loop c ct verified queue = Some (Inr True) \<Longrightarrow> \<exists>V. justified c ct verified queue V"
proof (induction c ct verified queue rule: verify_loop.induct)
  case (1 c ct verified)
  then show ?case by (auto simp: justified_def)
next
  case (2 c ct verified tx queue)
  obtain txid where txid: "txid_of (sha256 c) tx = (Inr txid :: thread fault + _)"
    using "2.prems" by (auto split: sum.split_asm)
  consider (old) "txid \<in> set verified"
    | (path) mp where "txid \<notin> set verified" "MerklePath tx = Some mp" "Verify_path (sha256 c) ct mp (Some txid) = Inr True"
        "verify_loop c ct (txid # verified) queue = Some (Inr True)"
    | (ins) q where "txid \<notin> set verified" "MerklePath tx = None"
        "verify_inputs c verified [0 ..< length (Inputs tx)] tx queue = Some (Inr q)" "verify_loop c ct verified q = Some (Inr True)"
    using "2.prems" txid by (auto split: sum.split_asm option.split_asm if_split_asm)
  then show ?case
  proof cases
    case old
    with "2.IH"(1) [OF txid old] "2.prems" txid show ?thesis by (auto intro: justified_settled)
  next
    case path
    then have "proven c ct tx" using txid by (auto simp: proven_def)
    with "2.IH"(3) [OF txid path(1-3) _ path(4)] txid show ?thesis by (auto intro: justified_proven)
  next
    case ins
    note S = verify_inputs_sound [of c verified 0 "length (Inputs tx)" tx queue q, simplified, OF ins(3)]
    have sp: "sound_spend c tx" using S ins(2) txid by (simp add: sound_spend_def)
    have src: "s \<in> set q \<or> (\<exists>h\<in>set verified. txid_of (sha256 c) s = (Inr h :: thread fault + _))"
      if i: "i \<in> set (Inputs tx)" "SourceTransaction i = Some s" for i s
    proof -
      obtain vin where "vin < length (Inputs tx)" "Inputs tx ! vin = i" using i(1) by (auto simp: in_set_conv_nth)
      then show ?thesis using S i(2) by auto
    qed
    obtain V where "justified c ct verified q V"
      using "2.IH"(2) [OF txid ins(1-3) _ ins(4)] by auto
    then have "justified c ct verified (tx # queue) V"
      by (rule justified_inputs [OF _ sp]) (use S src in auto)
    then show ?thesis ..
  qed
qed

text \<open>(C14) \<open>Verify\<close> returns on every transaction, with every tracker and fee model, and its answer is true or an error, never a plain false.
  The queue holds the ancestors still to visit and the engine returns on each input.\<close>

theorem spv_Verify_returns: "\<exists>r. spv_Verify c ct feeModel t = Some r \<and> r \<noteq> Inr False"
proof -
  have "verify_loop c ct verified queue \<noteq> Some (Inr False)" for verified queue
    by (induction c ct verified queue rule: verify_loop.induct) (auto split: sum.split option.split)
  then show ?thesis
    using verify_loop_returns [of c ct "[]" "[t]"] by (auto simp: spv_Verify_def split: sum.split option.split)
qed

text \<open>(C8) What \<open>Verify\<close> has checked when it accepts a transaction. There is a set of transaction ids, each of an ancestor whose merkle path the chain
  tracker confirmed, such that every transaction which is met on the way from the accepted one through its inputs, and not settled by one of these ids,
  has for each input the output that it spends, and the engine accepts the scripts of the input. With a fee model, the transaction pays the fee.\<close>

theorem spv_Verify_sound:
  assumes "spv_Verify c ct feeModel t = Some (Inr True)"
  shows "(\<exists>V. (\<forall>h\<in>V. \<exists>a. ancestor t a \<and> txid_of (sha256 c) a = (Inr h :: thread fault + _) \<and> proven c ct a)
      \<and> (\<forall>a. unsettled (sha256 c) V t a \<longrightarrow> sound_spend c a))
    \<and> (\<forall>f. feeModel = Some f \<longrightarrow> (\<exists>paid required. GetFee t = (Inr paid :: thread fault + _) \<and> f t = Inr required \<and> required \<le> paid))"
proof -
  have "verify_loop c ct [] [t] = Some (Inr True)"
    and fee: "feeModel = Some f \<Longrightarrow> \<exists>paid required. GetFee t = (Inr paid :: thread fault + _) \<and> f t = Inr required \<and> required \<le> paid" for f
    using assms by (auto simp: spv_Verify_def not_less split: sum.split_asm option.split_asm if_split_asm)
  then obtain V where "justified c ct [] [t] V" using verify_loop_sound by blast
  then show ?thesis using fee by (auto simp: justified_def)
qed

text \<open>A block with one transaction, and a transaction that spends its output.\<close>

definition demo_mined :: Transaction where
  "demo_mined = Transaction 1 [TransactionInput (Some (replicate 32 0)) (Some [7]) 0 0 None None None]
     [\<lparr>Satoshis = 1, LockingScript = Some [0x51], Change = False\<rparr>] 0 (Some \<lparr>BlockHeight = 9, Path = [[\<lparr>Offset = 0, Hash = Some (replicate 32 1), Txid = None, Duplicate = None\<rparr>]]\<rparr>)"

definition demo_child :: Transaction where
  "demo_child = Transaction 1 [TransactionInput (Some (replicate 32 5)) (Some []) 0 0 (Some demo_mined) None None]
     [\<lparr>Satoshis = 1000, LockingScript = Some [0x51], Change = False\<rparr>] 0 None"

definition demo_spv :: "(unit, unit) crypto" where
  "demo_spv = demo_crypto\<lparr>sha256 := demo_sha\<rparr>"

lemma demo_child_accepted: "spv_Verify demo_spv IsValidRootForHeight_gullible None demo_child = Some (Inr True)"
  by code_simp
theorem spv_Verify_sound_witness:
  "spv_Verify demo_spv IsValidRootForHeight_gullible None demo_child = Some (Inr True)
   \<and> (\<exists>V. (\<forall>h\<in>V. \<exists>a. ancestor demo_child a \<and> txid_of demo_sha a = (Inr h :: thread fault + _)
            \<and> proven demo_spv IsValidRootForHeight_gullible a)
      \<and> (\<forall>a. unsettled demo_sha V demo_child a \<longrightarrow> sound_spend demo_spv a))"
  using spv_Verify_sound [OF demo_child_accepted] demo_child_accepted by (simp add: demo_spv_def)

text \<open>\<open>Verify\<close> compares neither the values of inputs and outputs nor the id of a source transaction with the id that the input spends from: it accepts
  this transaction, which spends one satoshi and pays a thousand, under an id that is not the one of its source, also with a fee model that asks for
  a fee, since the fee wraps around.\<close>

lemma value_and_source_not_checked:
  "spv_Verify demo_spv IsValidRootForHeight_gullible (Some (\<lambda>t. Inr 500)) demo_child = Some (Inr True)
   \<and> TotalInputSatoshis demo_child = (Inr 1 :: thread fault + _) \<and> TotalOutputSatoshis demo_child = 1000
   \<and> txid_of demo_sha demo_mined \<noteq> (Inr (replicate 32 5) :: thread fault + _)"
  by code_simp

end
