(* ===== verification/Fees.thy ===== *)
theory Fees
  imports Tx
begin

text \<open>
  \<^verbatim>\<open>transaction/fees.go\<close>: computing the fee of a transaction and distributing the change. The fee model is an argument; \<open>GetFee\<close> is in \<open>Tx\<close>. The loop that adds up
  the inputs is the one of \<open>TotalInputSatoshis\<close>.
\<close>

abbreviation (input) ChangeDistributionEqual :: int where "ChangeDistributionEqual \<equiv> 1"
abbreviation (input) ChangeDistributionRandom :: int where "ChangeDistributionRandom \<equiv> 2"

text \<open>The loop over the outputs: the satoshis of the outputs that are not change, and the number of those that are.\<close>

primrec fee_outputs :: "TransactionOutput list \<Rightarrow> u64 \<Rightarrow> u64 \<Rightarrow> u64 \<times> u64" where
  "fee_outputs [] satsOut changeOuts = (satsOut, changeOuts)"
| "fee_outputs (o' # os) satsOut changeOuts =
     (if \<not> Change o' then fee_outputs os (satsOut + Satoshis o') changeOuts else fee_outputs os satsOut (changeOuts + 1))"

definition Fee :: "(Transaction \<Rightarrow> 's fault + u64) \<Rightarrow> int \<Rightarrow> Transaction \<Rightarrow> 's fault + Transaction" where
  "Fee f changeDistribution tx =
     rbind (f tx) (\<lambda>fee.
     rbind (TotalInputSatoshis_loop (Inputs tx) 0) (\<lambda>satsIn.
       let (satsOut, changeOuts) = fee_outputs (Outputs tx) 0 0
       in if satsIn < satsOut + fee then Inl (FailTx ErrInsufficientInputs)
          else let change = satsIn - satsOut - fee
            in if changeOuts > change then Inr (with_Outputs tx (filter (\<lambda>o'. \<not> Change o') (Outputs tx)))
               else if changeDistribution = ChangeDistributionRandom then Inl (FailTx ErrNotImplemented)
               else if changeDistribution = ChangeDistributionEqual then
                 (if changeOuts = 0 then Inl Panic
                  else let changePerOutput = change div changeOuts
                    in Inr (with_Outputs tx (map (\<lambda>o'. if Change o' then o'\<lparr>Satoshis := changePerOutput\<rparr> else o') (Outputs tx))))
               else Inr tx))"

subsection \<open>Sums of satoshis\<close>

abbreviation paid_out :: "Transaction \<Rightarrow> TransactionOutput list" where
  "paid_out tx \<equiv> filter (\<lambda>o'. \<not> Change o') (Outputs tx)"

abbreviation change_count :: "Transaction \<Rightarrow> nat" where
  "change_count tx \<equiv> length (filter Change (Outputs tx))"

lemma fee_outputs_eq:
  "fee_outputs os a n = (a + sum_list (map Satoshis (filter (\<lambda>o'. \<not> Change o') os)), n + word_of_nat (length (filter Change os)))"
  by (induction os arbitrary: a n) (simp_all add: algebra_simps)

lemma with_Outputs_sel: "Inputs (with_Outputs tx os) = Inputs tx" "Outputs (with_Outputs tx os) = os"
  by (simp_all add: with_Outputs_def)

lemma TotalOutputSatoshis_sum: "TotalOutputSatoshis tx = sum_list (map Satoshis (Outputs tx))"
proof -
  have "foldl (\<lambda>total' out. total' + Satoshis out) a os = a + sum_list (map Satoshis os)" for a and os :: "TransactionOutput list"
    by (induction os arbitrary: a) (simp_all add: algebra_simps)
  then show ?thesis by (simp add: TotalOutputSatoshis_def)
qed

lemma sum_with_change:
  fixes v :: u64
  shows "sum_list (map Satoshis (map (\<lambda>o'. if Change o' then o'\<lparr>Satoshis := v\<rparr> else o') os))
   = sum_list (map Satoshis (filter (\<lambda>o'. \<not> Change o') os)) + word_of_nat (length (filter Change os)) * v"
  by (induction os) (simp_all add: algebra_simps)

lemma unat_sum_list: "sum_list (map unat xs) < 2 ^ 64 \<Longrightarrow> unat (sum_list xs :: u64) = sum_list (map unat xs)"
proof (induction xs)
  case (Cons x xs)
  then have "unat (sum_list xs) = sum_list (map unat xs)" by simp
  with Cons.prems show ?case by (simp add: unat_add_lem [THEN iffD1])
qed simp

text \<open>\<open>Fee\<close> with the change in equal parts, with its sums written out.\<close>

lemma Fee_equal:
  assumes "f tx = (Inr fee :: 's fault + _)" "TotalInputSatoshis tx = (Inr satsIn :: 's fault + _)"
    and "out = sum_list (map Satoshis (paid_out tx))" "n = word_of_nat (change_count tx)" "change = satsIn - out - fee"
  shows "Fee f ChangeDistributionEqual tx = (if satsIn < out + fee then Inl (FailTx ErrInsufficientInputs)
      else if n > change then Inr (with_Outputs tx (paid_out tx))
      else if n = 0 then Inl Panic
      else Inr (with_Outputs tx (map (\<lambda>o'. if Change o' then o'\<lparr>Satoshis := change div n\<rparr> else o') (Outputs tx))))"
  unfolding Fee_def assms(5) unfolding assms(3,4) using assms(1,2) by (simp add: TotalInputSatoshis_def fee_outputs_eq)

lemma GetFee_same_inputs:
  assumes "TotalInputSatoshis tx = (Inr satsIn :: 's fault + _)" "Inputs tx' = Inputs tx"
  shows "GetFee tx' = (Inr (satsIn - sum_list (map Satoshis (Outputs tx'))) :: 's fault + _)"
  using assms by (simp add: GetFee_def TotalInputSatoshis_def TotalOutputSatoshis_sum)

lemma paid_out_with_change:
  "filter (\<lambda>o'. \<not> Change o') (map (\<lambda>o'. if Change o' then o'\<lparr>Satoshis := v\<rparr> else o') os) = filter (\<lambda>o'. \<not> Change (o' :: TransactionOutput)) os"
  by (induction os) simp_all

text \<open>The two ways to leave the change: all of it to the miners, or the rest of the division.\<close>

lemma fee_left:
  fixes satsIn out fee n change :: u64
  assumes "change = satsIn - out - fee" "n \<noteq> 0"
  shows "satsIn - out = fee + change" "satsIn - (out + n * (change div n)) = fee + change mod n" "change mod n < n" "change mod n \<le> change"
proof -
  show "satsIn - out = fee + change" "satsIn - (out + n * (change div n)) = fee + change mod n"
    using assms(1) mult_div_mod_eq [of n change] by (simp_all add: algebra_simps)
  show "change mod n < n" "change mod n \<le> change"
    using assms(2) by (simp_all add: word_mod_less_divisor word_gt_0 word_le_nat_alt unat_mod)
qed

lemma fee_no_overflow:
  fixes satsIn out fee rest :: u64
  assumes "unat out + unat fee \<le> unat satsIn" "rest \<le> satsIn - out - fee"
  shows "unat (fee + rest) = unat fee + unat rest"
proof -
  have "unat (satsIn - out - fee) = unat satsIn - unat out - unat fee"
    using assms(1) by (simp add: unat_sub_if' word_le_nat_alt)
  then have "unat fee + unat rest \<le> unat satsIn" using assms by (simp add: word_le_nat_alt)
  then show ?thesis by (metis le_less_trans unat_add_lem unsigned_less)
qed

text \<open>(C35) What a transaction pays after \<open>Fee\<close>, when the sums of its satoshis fit 64 bits. With the fee that the model asks for, and the change in
  equal parts: \<open>Fee\<close> fails with \<open>ErrInsufficientInputs\<close> exactly if the inputs do not cover the outputs and the fee, and panics exactly if they do and there is
  no change output. Otherwise the outputs that are not change are unchanged, and the transaction pays the fee and what cannot be divided,
  less than one satoshi for each change output.\<close>

theorem Fee_pays:
  assumes f: "f tx = (Inr fee :: 's fault + _)" and ins: "TotalInputSatoshis tx = (Inr satsIn :: 's fault + _)"
    and small: "sum_list (map (unat \<circ> Satoshis) (paid_out tx)) + unat fee < 2 ^ 64" "length (Outputs tx) < 2 ^ 64"
  shows "case Fee f ChangeDistributionEqual tx of
      Inl e \<Rightarrow> (if unat satsIn < sum_list (map (unat \<circ> Satoshis) (paid_out tx)) + unat fee then e = FailTx ErrInsufficientInputs
               else e = Panic \<and> change_count tx = 0)
    | Inr tx' \<Rightarrow> sum_list (map (unat \<circ> Satoshis) (paid_out tx)) + unat fee \<le> unat satsIn \<and> paid_out tx' = paid_out tx
        \<and> (\<exists>rest. GetFee tx' = (Inr (fee + rest) :: 's fault + _) \<and> unat (fee + rest) = unat fee + unat rest \<and> unat rest < change_count tx)"
proof -
  define out where "out = sum_list (map Satoshis (paid_out tx))"
  define n :: u64 where "n = word_of_nat (change_count tx)"
  define change where "change = satsIn - out - fee"
  note F = Fee_equal [of f tx fee satsIn out n change, OF f ins out_def n_def change_def]
  have out: "unat out = sum_list (map (unat \<circ> Satoshis) (paid_out tx))"
    using unat_sum_list [of "map Satoshis (paid_out tx)"] small(1) by (simp add: out_def)
  have sum: "unat (out + fee) = unat out + unat fee"
    using small(1) by (simp add: out [symmetric] unat_add_lem [THEN iffD1])
  have "change_count tx < 2 ^ 64"
    using small(2) length_filter_le [of Change "Outputs tx"] by (rule le_less_trans [rotated])
  then have n: "unat n = change_count tx"
    by (simp add: n_def unsigned_of_nat take_bit_eq_mod)
  then have n0: "n = 0 \<longleftrightarrow> change_count tx = 0"
    by (metis unat_0 unat_eq_zero)
  have less: "unat rest < change_count tx" if "rest < n" for rest using that n by (simp add: word_less_nat_alt)
  consider "satsIn < out + fee" | "\<not> satsIn < out + fee" "n > change" | "\<not> satsIn < out + fee" "n \<le> change" "n = 0"
    | "\<not> satsIn < out + fee" "n \<le> change" "n \<noteq> 0" by (metis not_less)
  then show ?thesis
  proof cases
    case 1
    then show ?thesis using sum out by (simp add: F word_less_nat_alt)
  next
    case 2
    then have "n \<noteq> 0" by auto
    with 2 show ?thesis
      using sum out fee_no_overflow [of out fee satsIn change] less [of change] fee_left(1) [OF change_def, of n]
        GetFee_same_inputs [OF ins, of "with_Outputs tx (paid_out tx)"]
      by (auto simp: F with_Outputs_sel out_def [symmetric] change_def [symmetric] word_less_nat_alt not_less)
  next
    case 3
    then show ?thesis using sum out n0 by (simp add: F word_less_nat_alt)
  next
    case 4
    let ?tx = "with_Outputs tx (map (\<lambda>o'. if Change o' then o'\<lparr>Satoshis := change div n\<rparr> else o') (Outputs tx))"
    have "sum_list (map Satoshis (Outputs ?tx)) = out + n * (change div n)"
      using sum_with_change [of "change div n" "Outputs tx"] by (simp add: with_Outputs_sel out_def n_def)
    with 4 show ?thesis
      using sum out fee_no_overflow [of out fee satsIn "change mod n"] less [of "change mod n"] fee_left(2-) [OF change_def 4(3)]
        GetFee_same_inputs [OF ins, of ?tx] paid_out_with_change [of "change div n" "Outputs tx"]
      by (auto simp: F with_Outputs_sel change_def [symmetric] word_less_nat_alt word_le_nat_alt not_less)
  qed
qed

definition demo_funded :: Transaction where
  "demo_funded = Transaction 1
     [TransactionInput (Some (replicate 32 1)) None 0 0 None (Some \<lparr>Satoshis = 100, LockingScript = Some [], Change = False\<rparr>) None]
     [\<lparr>Satoshis = 60, LockingScript = Some [], Change = False\<rparr>, \<lparr>Satoshis = 0, LockingScript = Some [1], Change = True\<rparr>,
      \<lparr>Satoshis = 0, LockingScript = Some [2], Change = True\<rparr>] 0 None"

theorem Fee_pays_witness:
  "\<exists>tx' rest. Fee (\<lambda>tx. Inr 5) ChangeDistributionEqual demo_funded = (Inr tx' :: unit fault + _)
     \<and> GetFee tx' = (Inr (5 + rest) :: unit fault + _) \<and> unat rest < 2"
proof -
  have ins: "TotalInputSatoshis demo_funded = (Inr 100 :: unit fault + _)" by code_simp
  have outs: "paid_out demo_funded = [\<lparr>Satoshis = 60, LockingScript = Some [], Change = False\<rparr>]" "change_count demo_funded = 2"
    "length (Outputs demo_funded) = 3"
    by (simp_all add: demo_funded_def)
  show ?thesis
    using Fee_pays [of "\<lambda>tx. Inr 5 :: unit fault + u64" demo_funded 5 100] ins
    by (auto simp: outs split: sum.split_asm)
qed

end
