(* ===== verification/Beef.thy ===== *)
theory Beef
  imports SPV
begin

text \<open>
  \<^verbatim>\<open>transaction/beef.go\<close> and \<^verbatim>\<open>beefTx.go\<close>: the containers (BEEF, BRC-62, BRC-95, BRC-96) that carry transactions together with the merkle paths
  that prove their ancestors. This theory has the container and its validation.

  The map from transaction ids to entries is an association list. Go enumerates a map in an order of its own; the list stands for one such order, so what is
  proved for every list holds for every order. The maps with boolean values that \<open>ValidateTransactions\<close> keeps are lists of their keys. A transaction id that the
  code prints as a hex string and reads back is its bytes. The field \<open>InputTxids\<close>, which no operation here reads, is left out.
\<close>

datatype DataFormat = RawTx | RawTxAndBumpIndex | TxIDOnly

record BeefTx =
  beefFormat :: DataFormat
  KnownTxID :: "bytes option"
  beefTransaction :: "Transaction option"
  BumpIndex :: int

record Beef =
  beefVersion :: u32
  BUMPs :: "MerklePath list"
  Transactions :: "(bytes \<times> BeefTx) list"
  NewestTxID :: "bytes option"

abbreviation (input) BEEF_V1 :: u32 where "BEEF_V1 \<equiv> 4022206465"
abbreviation (input) BEEF_V2 :: u32 where "BEEF_V2 \<equiv> 4022206466"
abbreviation (input) ATOMIC_BEEF :: u32 where "ATOMIC_BEEF \<equiv> 0x01010101"

definition newEmptyBeef :: "u32 \<Rightarrow> Beef" where
  "newEmptyBeef version = \<lparr>beefVersion = version, BUMPs = [], Transactions = [], NewestTxID = None\<rparr>"

definition NewBeef :: Beef where
  "NewBeef = \<lparr>beefVersion = BEEF_V2, BUMPs = [], Transactions = [], NewestTxID = None\<rparr>"

definition NewBeefV1 :: Beef where "NewBeefV1 = newEmptyBeef BEEF_V1"
definition NewBeefV2 :: Beef where "NewBeefV2 = newEmptyBeef BEEF_V2"

subsection \<open>Lookup\<close>

definition findTxid :: "Beef \<Rightarrow> bytes option \<Rightarrow> BeefTx option" where
  "findTxid b txid = (case txid of None \<Rightarrow> None | Some h \<Rightarrow> map_of (Transactions b) h)"

text \<open>The leaves of a path; reading \<open>Path[0]\<close> of an empty path panics.\<close>

definition leaves :: "MerklePath \<Rightarrow> 's fault + PathElement list" where
  "leaves mp = (case Path mp of [] \<Rightarrow> Inl Panic | lv # _ \<Rightarrow> Inr lv)"

primrec find_bump :: "bytes \<Rightarrow> MerklePath list \<Rightarrow> 's fault + MerklePath option" where
  "find_bump h [] = Inr None"
| "find_bump h (bump # bumps) = rbind (leaves bump) (\<lambda>lv.
     if \<exists>l\<in>set lv. Hash l = Some h then Inr (Some bump) else find_bump h bumps)"

definition FindBumpByHash :: "Beef \<Rightarrow> bytes option \<Rightarrow> 's fault + MerklePath option" where
  "FindBumpByHash b txid = (case txid of None \<Rightarrow> Inr None | Some h \<Rightarrow> find_bump h (BUMPs b))"

definition FindTransactionByHash :: "Beef \<Rightarrow> bytes option \<Rightarrow> Transaction option" where
  "FindTransactionByHash b txid = (case findTxid b txid of None \<Rightarrow> None | Some btx \<Rightarrow> beefTransaction btx)"

subsection \<open>Changing a container\<close>

definition RemoveExistingTxid :: "Beef \<Rightarrow> bytes option \<Rightarrow> Beef" where
  "RemoveExistingTxid b txid = (case txid of None \<Rightarrow> b
     | Some h \<Rightarrow> b\<lparr>Transactions := filter (\<lambda>(k, _). k \<noteq> h) (Transactions b)\<rparr>)"

definition put_tx :: "Beef \<Rightarrow> bytes \<Rightarrow> BeefTx \<Rightarrow> Beef" where
  "put_tx b h btx = b\<lparr>Transactions := AList.update h btx (Transactions b)\<rparr>"

definition MakeTxidOnly :: "Beef \<Rightarrow> bytes option \<Rightarrow> BeefTx option \<times> Beef" where
  "MakeTxidOnly b txid = (case txid of None \<Rightarrow> (None, b)
     | Some h \<Rightarrow> (case map_of (Transactions b) h of
         None \<Rightarrow> (None, b)
       | Some tx \<Rightarrow> if beefFormat tx = TxIDOnly then (Some tx, b)
           else let tx = \<lparr>beefFormat = TxIDOnly, KnownTxID = Some h, beefTransaction = None, BumpIndex = 0\<rparr>
             in (Some tx, put_tx b h tx)))"

definition MergeTxidOnly :: "Beef \<Rightarrow> bytes option \<Rightarrow> BeefTx option \<times> Beef" where
  "MergeTxidOnly b txid = (case txid of None \<Rightarrow> (None, b)
     | Some h \<Rightarrow> (case findTxid b txid of
         Some tx \<Rightarrow> (Some tx, b)
       | None \<Rightarrow> let tx = \<lparr>beefFormat = TxIDOnly, KnownTxID = Some h, beefTransaction = None, BumpIndex = 0\<rparr>
           in (Some tx, put_tx b h tx)))"

definition with_MerklePath :: "Transaction \<Rightarrow> MerklePath option \<Rightarrow> Transaction" where
  "with_MerklePath tx mp = Transaction (Version tx) (Inputs tx) (Outputs tx) (LockTime tx) mp"

definition tryToValidateBumpIndex :: "BeefTx \<Rightarrow> bytes \<Rightarrow> 's fault + BeefTx" where
  "tryToValidateBumpIndex btx h = (case beefTransaction btx of
     None \<Rightarrow> Inr btx
   | Some tx \<Rightarrow> (case MerklePath tx of
       None \<Rightarrow> Inr btx
     | Some mp \<Rightarrow> if beefFormat btx = TxIDOnly then Inr btx
         else rbind (leaves mp) (\<lambda>lv. if \<exists>n\<in>set lv. Hash n = Some h then Inr btx
           else Inr (btx\<lparr>beefTransaction := Some (with_MerklePath tx None)\<rparr>))))"

definition MergeRawTx :: "(bytes \<Rightarrow> bytes) \<Rightarrow> Beef \<Rightarrow> bytes \<Rightarrow> int option \<Rightarrow> 's fault + BeefTx \<times> Beef" where
  "MergeRawTx sha b rawTx bumpIndex =
     rbind (Tx_ReadFrom rawTx) (\<lambda>(tx, _, _).
     rbind (txid_of sha tx) (\<lambda>txid.
       let b = RemoveExistingTxid b (Some txid);
           beefTx = \<lparr>beefFormat = RawTx, KnownTxID = None, beefTransaction = Some tx, BumpIndex = 0\<rparr>
       in rbind (case bumpIndex of
              None \<Rightarrow> Inr beefTx
            | Some i \<Rightarrow> if i < 0 \<or> i \<ge> int (length (BUMPs b)) then Inl (FailTx ErrBeefBumpIndex)
                else Inr (beefTx\<lparr>beefTransaction := Some (with_MerklePath tx (Some (BUMPs b ! nat i))), beefFormat := RawTxAndBumpIndex\<rparr>)) (\<lambda>beefTx.
          rbind (tryToValidateBumpIndex beefTx txid) (\<lambda>beefTx.
            Inr (beefTx, put_tx b txid beefTx)))))"

primrec txid_only :: "(bytes \<Rightarrow> bytes) \<Rightarrow> (bytes \<times> BeefTx) list \<Rightarrow> 's fault + (bytes \<times> BeefTx) list" where
  "txid_only sha [] = Inr []"
| "txid_only sha (x # xs) = (case x of (txid, tx) \<Rightarrow>
     rbind (if beefFormat tx = TxIDOnly then Inr (KnownTxID tx)
            else (case beefTransaction tx of None \<Rightarrow> Inl Panic | Some t \<Rightarrow> TxID sha t)) (\<lambda>known.
     rbind (txid_only sha xs) (\<lambda>r.
       Inr ((txid, \<lparr>beefFormat = TxIDOnly, KnownTxID = known, beefTransaction = None, BumpIndex = 0\<rparr>) # r))))"

definition TxidOnly :: "(bytes \<Rightarrow> bytes) \<Rightarrow> Beef \<Rightarrow> 's fault + Beef" where
  "TxidOnly sha b = rbind (txid_only sha (Transactions b)) (\<lambda>txs.
     Inr \<lparr>beefVersion = beefVersion b, BUMPs = BUMPs b, Transactions = txs, NewestTxID = None\<rparr>)"

definition AddComputedLeaves :: "(bytes \<Rightarrow> bytes) \<Rightarrow> Beef \<Rightarrow> Beef" where
  "AddComputedLeaves sha b = b\<lparr>BUMPs := map (ComputeMissingHashes sha) (BUMPs b)\<rparr>"

subsection \<open>Trimming\<close>

definition has_needed_leaf :: "bytes list \<Rightarrow> MerklePath \<Rightarrow> bool" where
  "has_needed_leaf needed bump = (case Path bump of [] \<Rightarrow> False
     | lv # _ \<Rightarrow> \<exists>l\<in>set lv. (case Hash l of None \<Rightarrow> False | Some h \<Rightarrow> h \<in> set needed))"

text \<open>The indices that are used, each once, as the keys of the map \<open>usedBumpIndices\<close>; some may not be indices of a path.\<close>

definition used_indices :: "Beef \<Rightarrow> int list" where
  "used_indices b =
     (let direct = List.map_filter (\<lambda>(_, tx). if beefFormat tx = RawTxAndBumpIndex then Some (BumpIndex tx) else None) (Transactions b);
          needed = List.map_filter (\<lambda>(txid, tx). if beefFormat tx = RawTx then Some txid
            else if beefFormat tx = TxIDOnly then KnownTxID tx else None) (Transactions b)
      in remdups (direct @ filter (\<lambda>i. has_needed_leaf needed (BUMPs b ! nat i)) (map int [0 ..< length (BUMPs b)])))"

definition trimUnreferencedBumps :: "Beef \<Rightarrow> Beef" where
  "trimUnreferencedBumps b =
     (if length (BUMPs b) = 0 then b
      else let used = used_indices b
        in if length used = length (BUMPs b) then b
           else let kept = filter (\<lambda>i. int i \<in> set used) [0 ..< length (BUMPs b)];
                    newIndex = map_of (zip (map int kept) (map int [0 ..< length kept]))
             in b\<lparr>BUMPs := map (\<lambda>i. BUMPs b ! i) kept,
                  Transactions := map (\<lambda>(txid, tx). (txid,
                    if beefFormat tx = RawTxAndBumpIndex
                    then (case newIndex (BumpIndex tx) of None \<Rightarrow> tx | Some k \<Rightarrow> tx\<lparr>BumpIndex := k\<rparr>) else tx)) (Transactions b)\<rparr>)"

definition TrimknownTxIDs :: "Beef \<Rightarrow> bytes list \<Rightarrow> Beef" where
  "TrimknownTxIDs b knownTxIDs = trimUnreferencedBumps
     (b\<lparr>Transactions := filter (\<lambda>(txid, tx). \<not> (beefFormat tx = TxIDOnly \<and> txid \<in> set knownTxIDs)) (Transactions b)\<rparr>)"

subsection \<open>Validation\<close>

text \<open>What \<open>ValidateTransactions\<close> keeps while it sorts the entries. \<open>BeefTx\<close> pointers in its lists are the entries.\<close>

record vstate =
  validTxids :: "bytes list"
  missingInputs :: "bytes list"
  hasProof :: "BeefTx list"
  txidOnly :: "BeefTx list"
  needsValidation :: "BeefTx list"
  withMissingInputs :: "BeefTx list"

record ValidationResult =
  Valid :: "bytes list"
  NotValid :: "bytes list"
  onlyTxids :: "bytes list"
  WithMissingInputs :: "bytes list"
  MissingInputs :: "bytes list"

definition txids_in_bump :: "MerklePath \<Rightarrow> bytes list" where
  "txids_in_bump bump = (case Path bump of [] \<Rightarrow> []
     | lv # _ \<Rightarrow> List.map_filter (\<lambda>e. if is_set (Txid e) then Hash e else None) lv)"

definition txidsInBumps :: "Beef \<Rightarrow> bytes list" where
  "txidsInBumps b = concat (map txids_in_bump (BUMPs b))"

text \<open>The inputs whose transactions the container does not have.\<close>

primrec missing_of :: "Beef \<Rightarrow> TransactionInput list \<Rightarrow> 's fault + bytes list" where
  "missing_of b [] = Inr []"
| "missing_of b (i # ins) = (case SourceTXID i of None \<Rightarrow> Inl Panic
     | Some h \<Rightarrow> rbind (missing_of b ins) (\<lambda>ms. Inr (if map_of (Transactions b) h = None then h # ms else ms)))"

definition categorize :: "Beef \<Rightarrow> bytes \<Rightarrow> BeefTx \<Rightarrow> vstate \<Rightarrow> 's fault + vstate" where
  "categorize b txid btx st = (case beefFormat btx of
     TxIDOnly \<Rightarrow>
       Inr (case KnownTxID btx of
         Some h \<Rightarrow> if h \<in> set (txidsInBumps b) then st\<lparr>validTxids := h # validTxids st, txidOnly := txidOnly st @ [btx]\<rparr>
           else st\<lparr>txidOnly := txidOnly st @ [btx]\<rparr>
       | None \<Rightarrow> st\<lparr>txidOnly := txidOnly st @ [btx]\<rparr>)
   | RawTxAndBumpIndex \<Rightarrow>
       if BumpIndex btx \<ge> 0 \<and> BumpIndex btx < int (length (BUMPs b)) then
         rbind (leaves (BUMPs b ! nat (BumpIndex btx))) (\<lambda>lv.
           Inr (if \<exists>e\<in>set lv. Hash e = Some txid then st\<lparr>validTxids := txid # validTxids st, hasProof := hasProof st @ [btx]\<rparr>
             else st\<lparr>needsValidation := needsValidation st @ [btx]\<rparr>))
       else Inr (st\<lparr>needsValidation := needsValidation st @ [btx]\<rparr>)
   | RawTx \<Rightarrow>
       if txid \<in> set (txidsInBumps b) then Inr (st\<lparr>validTxids := txid # validTxids st, hasProof := hasProof st @ [btx]\<rparr>)
       else (case beefTransaction btx of None \<Rightarrow> Inr st
         | Some tx \<Rightarrow> rbind (missing_of b (Inputs tx)) (\<lambda>ms.
             Inr (if ms \<noteq> [] then st\<lparr>missingInputs := missingInputs st @ ms, withMissingInputs := withMissingInputs st @ [btx]\<rparr>
               else st\<lparr>needsValidation := needsValidation st @ [btx]\<rparr>))))"

primrec categorize_all :: "Beef \<Rightarrow> (bytes \<times> BeefTx) list \<Rightarrow> vstate \<Rightarrow> 's fault + vstate" where
  "categorize_all b [] st = Inr st"
| "categorize_all b (x # xs) st = rbind (categorize b (fst x) (snd x) st) (\<lambda>st. categorize_all b xs st)"

text \<open>The inner loop over the inputs, which stops at the first that is not valid.\<close>

primrec inputs_valid :: "bytes list \<Rightarrow> TransactionInput list \<Rightarrow> 's fault + bool" where
  "inputs_valid valid [] = Inr True"
| "inputs_valid valid (i # ins) = (case SourceTXID i of None \<Rightarrow> Inl Panic
     | Some h \<Rightarrow> if h \<in> set valid then inputs_valid valid ins else Inr False)"

text \<open>One round over the transactions that need validation: the valid ids, the transactions found valid, and those that remain. A round makes
  progress if it finds one.\<close>

primrec validate_round :: "(bytes \<Rightarrow> bytes) \<Rightarrow> BeefTx list \<Rightarrow> bytes list \<Rightarrow> 's fault + bytes list \<times> BeefTx list \<times> BeefTx list" where
  "validate_round sha [] valid = Inr (valid, [], [])"
| "validate_round sha (btx # needs) valid = (case beefTransaction btx of
     None \<Rightarrow> Inl Panic
   | Some tx \<Rightarrow> rbind (inputs_valid valid (Inputs tx)) (\<lambda>ok.
       if ok then rbind (txid_of sha tx) (\<lambda>h.
         rbind (validate_round sha needs (h # valid)) (\<lambda>(valid, new, still). Inr (valid, btx # new, still)))
       else rbind (validate_round sha needs valid) (\<lambda>(valid, new, still). Inr (valid, new, btx # still))))"

lemma validate_round_length:
  "validate_round sha needs valid = Inr (valid', new, still) \<Longrightarrow> length new + length still = length needs"
proof (induction needs arbitrary: valid valid' new still)
  case (Cons btx needs)
  then show ?case
    by (clarsimp simp: res_simps split: option.split_asm if_split_asm) (auto dest!: Cons.IH split: if_split_asm)
qed simp

function validate_loop :: "(bytes \<Rightarrow> bytes) \<Rightarrow> BeefTx list \<Rightarrow> bytes list \<Rightarrow> BeefTx list \<Rightarrow> 's fault + bytes list \<times> BeefTx list \<times> BeefTx list" where
  "validate_loop sha needs valid found =
     (if needs = [] then Inr (valid, found, [])
      else case validate_round sha needs valid of
        Inl e \<Rightarrow> Inl e
      | Inr (valid', new, still) \<Rightarrow>
          if new = [] then Inr (valid', found, still) else validate_loop sha still valid' (found @ new))"
  by pat_completeness auto
termination
proof (relation "measure (\<lambda>(sha, needs, valid, found). length needs)", goal_cases)
  case 2
  then show ?case by (auto dest!: validate_round_length simp: less_add_same_cancel2 [of "length _", symmetric] neq_Nil_conv)
qed simp

declare validate_loop.simps [simp del]

text \<open>The ids of the entries of a list that have a transaction.\<close>

primrec ids_of :: "(bytes \<Rightarrow> bytes) \<Rightarrow> BeefTx list \<Rightarrow> 's fault + bytes list" where
  "ids_of sha [] = Inr []"
| "ids_of sha (btx # bs) = (case beefTransaction btx of None \<Rightarrow> ids_of sha bs
     | Some tx \<Rightarrow> rbind (txid_of sha tx) (\<lambda>h. rbind (ids_of sha bs) (\<lambda>hs. Inr (h # hs))))"

primrec only_ids :: "(bytes \<Rightarrow> bytes) \<Rightarrow> BeefTx list \<Rightarrow> 's fault + bytes list" where
  "only_ids sha [] = Inr []"
| "only_ids sha (btx # bs) = (case KnownTxID btx of
     Some h \<Rightarrow> rbind (only_ids sha bs) (\<lambda>hs. Inr (h # hs))
   | None \<Rightarrow> (case beefTransaction btx of None \<Rightarrow> only_ids sha bs
       | Some tx \<Rightarrow> rbind (txid_of sha tx) (\<lambda>h. rbind (only_ids sha bs) (\<lambda>hs. Inr (h # hs)))))"

definition ValidateTransactions :: "(bytes \<Rightarrow> bytes) \<Rightarrow> Beef \<Rightarrow> 's fault + ValidationResult" where
  "ValidateTransactions sha b =
     rbind (categorize_all b (Transactions b) \<lparr>validTxids = [], missingInputs = [], hasProof = [], txidOnly = [],
       needsValidation = [], withMissingInputs = []\<rparr>) (\<lambda>st.
     rbind (validate_loop sha (needsValidation st) (validTxids st) (hasProof st)) (\<lambda>(valid, found, rest).
     rbind (ids_of sha rest) (\<lambda>notValid.
     rbind (ids_of sha (withMissingInputs st)) (\<lambda>withMissing.
     rbind (only_ids sha (txidOnly st)) (\<lambda>only.
     rbind (ids_of sha found) (\<lambda>proven.
       Inr \<lparr>Valid = filter (\<lambda>h. h \<in> set valid) only @ proven, NotValid = notValid, onlyTxids = only,
            WithMissingInputs = withMissing, MissingInputs = remdups (missingInputs st)\<rparr>))))))"

definition GetValidTxids :: "(bytes \<Rightarrow> bytes) \<Rightarrow> Beef \<Rightarrow> 's fault + bytes list" where
  "GetValidTxids sha b = rbind (ValidateTransactions sha b) (\<lambda>r. Inr (Valid r))"

text \<open>\<open>verifyValid\<close>: the roots that the flagged leaves of the paths give, one for each height, or \<open>None\<close> where the code returns early with
  \<open>valid\<close> unset.\<close>

definition confirmComputedRoot :: "(bytes \<Rightarrow> bytes) \<Rightarrow> (u32 \<times> bytes) list \<Rightarrow> MerklePath \<Rightarrow> bytes \<Rightarrow> 's fault + (u32 \<times> bytes) list option" where
  "confirmComputedRoot sha roots mp h = (case (ComputeRoot sha mp (Some h) :: 's fault + _) of
     Inl e \<Rightarrow> if e = Panic then Inl Panic else Inr None
   | Inr None \<Rightarrow> Inl Panic
   | Inr (Some root) \<Rightarrow> (case map_of roots (BlockHeight mp) of
       Some existing \<Rightarrow> Inr (if existing \<noteq> root then None else Some (AList.update (BlockHeight mp) root roots))
     | None \<Rightarrow> Inr (Some (AList.update (BlockHeight mp) root roots))))"

primrec confirm_leaves :: "(bytes \<Rightarrow> bytes) \<Rightarrow> MerklePath \<Rightarrow> PathElement list \<Rightarrow> (u32 \<times> bytes) list \<Rightarrow> 's fault + (u32 \<times> bytes) list option" where
  "confirm_leaves sha mp [] roots = Inr (Some roots)"
| "confirm_leaves sha mp (n # ns) roots = (case Hash n of
     Some h \<Rightarrow> if is_set (Txid n) then rbind (confirmComputedRoot sha roots mp h) (\<lambda>r.
         case r of None \<Rightarrow> Inr None | Some roots \<Rightarrow> confirm_leaves sha mp ns roots)
       else confirm_leaves sha mp ns roots
   | None \<Rightarrow> confirm_leaves sha mp ns roots)"

primrec confirm_bumps :: "(bytes \<Rightarrow> bytes) \<Rightarrow> MerklePath list \<Rightarrow> (u32 \<times> bytes) list \<Rightarrow> 's fault + (u32 \<times> bytes) list option" where
  "confirm_bumps sha [] roots = Inr (Some roots)"
| "confirm_bumps sha (mp # mps) roots = rbind (leaves mp) (\<lambda>lv.
     rbind (confirm_leaves sha mp lv roots) (\<lambda>r. case r of None \<Rightarrow> Inr None | Some roots \<Rightarrow> confirm_bumps sha mps roots))"

primrec indices_match :: "Beef \<Rightarrow> (bytes \<times> BeefTx) list \<Rightarrow> 's fault + bool" where
  "indices_match b [] = Inr True"
| "indices_match b (x # xs) = (case x of (txid, btx) \<Rightarrow>
     if beefFormat btx = RawTxAndBumpIndex then
       (if BumpIndex btx < 0 \<or> BumpIndex btx \<ge> int (length (BUMPs b)) then Inr False
        else rbind (leaves (BUMPs b ! nat (BumpIndex btx))) (\<lambda>lv.
          if \<exists>l\<in>set lv. Hash l = Some txid then indices_match b xs else Inr False))
     else indices_match b xs)"

definition verifyValid :: "(bytes \<Rightarrow> bytes) \<Rightarrow> Beef \<Rightarrow> bool \<Rightarrow> 's fault + (u32 \<times> bytes) list option" where
  "verifyValid sha b allowTxidOnly =
     rbind (ValidateTransactions sha b) (\<lambda>vr.
       if MissingInputs vr \<noteq> [] \<or> NotValid vr \<noteq> [] \<or> (onlyTxids vr \<noteq> [] \<and> \<not> allowTxidOnly) \<or> WithMissingInputs vr \<noteq> []
       then Inr None
       else rbind (confirm_bumps sha (BUMPs b) []) (\<lambda>r. case r of None \<Rightarrow> Inr None
         | Some roots \<Rightarrow> rbind (indices_match b (Transactions b)) (\<lambda>ok. Inr (if ok then Some roots else None))))"

definition IsValid :: "(bytes \<Rightarrow> bytes) \<Rightarrow> Beef \<Rightarrow> bool \<Rightarrow> 's fault + bool" where
  "IsValid sha b allowTxidOnly = rbind (verifyValid sha b allowTxidOnly) (\<lambda>r. Inr (r \<noteq> None))"

primrec roots_confirmed :: "(bytes option \<Rightarrow> u32 \<Rightarrow> 's fault + bool) \<Rightarrow> (u32 \<times> bytes) list \<Rightarrow> 's fault + bool" where
  "roots_confirmed ct [] = Inr True"
| "roots_confirmed ct (x # xs) = rbind (ct (Some (snd x)) (fst x)) (\<lambda>ok. if ok then roots_confirmed ct xs else Inr False)"

definition Beef_Verify :: "(bytes \<Rightarrow> bytes) \<Rightarrow> Beef \<Rightarrow> (bytes option \<Rightarrow> u32 \<Rightarrow> 's fault + bool) \<Rightarrow> bool \<Rightarrow> 's fault + bool" where
  "Beef_Verify sha b ct allowTxidOnly = rbind (verifyValid sha b allowTxidOnly) (\<lambda>r.
     case r of None \<Rightarrow> Inr False | Some roots \<Rightarrow> roots_confirmed ct roots)"

end
