(* ===== verification/Beef_Valid.thy ===== *)
theory Beef_Valid
  imports Beef
begin

text \<open>
  The validation of a container. \<open>grounded\<close> is the specification: the transactions that a merkle path of the container proves, and those all
  of whose inputs are grounded, as the least such set. The rounds of \<open>ValidateTransactions\<close> compute it.
\<close>

subsection \<open>Containers\<close>

text \<open>An entry is stored under its transaction id, and the container can be read without a panic: paths have leaves, inputs have the ids they spend from.\<close>

definition entry_ok :: "(bytes \<Rightarrow> bytes) \<Rightarrow> bytes \<Rightarrow> BeefTx \<Rightarrow> bool" where
  "entry_ok sha k btx = (if beefFormat btx = TxIDOnly then KnownTxID btx = Some k
     else (\<exists>tx. beefTransaction btx = Some tx \<and> txid_of sha tx = (Inr k :: unit fault + _) \<and> (\<forall>i\<in>set (Inputs tx). SourceTXID i \<noteq> None)))"

definition keyed :: "(bytes \<Rightarrow> bytes) \<Rightarrow> Beef \<Rightarrow> bool" where
  "keyed sha b = (distinct (map fst (Transactions b)) \<and> (\<forall>(k, btx)\<in>set (Transactions b). entry_ok sha k btx)
     \<and> (\<forall>mp\<in>set (BUMPs b). Path mp \<noteq> []))"

definition by_bump :: "Beef \<Rightarrow> bytes \<Rightarrow> BeefTx \<Rightarrow> bool" where
  "by_bump b k btx = (if beefFormat btx = RawTxAndBumpIndex
     then 0 \<le> BumpIndex btx \<and> BumpIndex btx < int (length (BUMPs b)) \<and> (\<exists>e\<in>set (hd (Path (BUMPs b ! nat (BumpIndex btx)))). Hash e = Some k)
     else k \<in> set (txidsInBumps b))"

abbreviation sources :: "BeefTx \<Rightarrow> bytes list" where
  "sources btx \<equiv> map (the \<circ> SourceTXID) (Inputs (the (beefTransaction btx)))"

inductive grounded :: "Beef \<Rightarrow> bytes \<Rightarrow> bool" for b where
  proof_path: "(k, btx) \<in> set (Transactions b) \<Longrightarrow> by_bump b k btx \<Longrightarrow> grounded b k"
| spends: "(k, btx) \<in> set (Transactions b) \<Longrightarrow> beefFormat btx \<noteq> TxIDOnly \<Longrightarrow> (\<And>h. h \<in> set (sources btx) \<Longrightarrow> grounded b h) \<Longrightarrow> grounded b k"

definition lacks_inputs :: "Beef \<Rightarrow> BeefTx \<Rightarrow> bool" where
  "lacks_inputs b btx = (beefFormat btx = RawTx \<and> (\<exists>h\<in>set (sources btx). h \<notin> fst ` set (Transactions b)))"

lemma grounded_key: "grounded b k \<Longrightarrow> k \<in> fst ` set (Transactions b)"
  by (erule grounded.cases) (auto intro: rev_image_eqI)

lemma missing_of_eq:
  "\<forall>i\<in>set ins. SourceTXID i \<noteq> None \<Longrightarrow>
   missing_of b ins = (Inr (filter (\<lambda>h. h \<notin> fst ` set (Transactions b)) (map (the \<circ> SourceTXID) ins)) :: unit fault + _)"
  by (induction ins) (auto simp: map_of_eq_None_iff simp del: not_None_eq split: option.split)

lemma inputs_valid_eq:
  "\<forall>i\<in>set ins. SourceTXID i \<noteq> None \<Longrightarrow>
   inputs_valid valid ins = (Inr (\<forall>h\<in>set (map (the \<circ> SourceTXID) ins). h \<in> set valid) :: unit fault + _)"
  by (induction ins) auto

lemma leaves_eq: "Path mp \<noteq> [] \<Longrightarrow> leaves mp = (Inr (hd (Path mp)) :: unit fault + _)"
  by (cases "Path mp") (auto simp: leaves_def)

subsection \<open>Sorting the entries\<close>

definition needs_check :: "Beef \<Rightarrow> bytes \<times> BeefTx \<Rightarrow> bool" where
  "needs_check b = (\<lambda>(k, btx). \<not> by_bump b k btx \<and> beefFormat btx \<noteq> TxIDOnly \<and> \<not> lacks_inputs b btx)"

definition lacking :: "Beef \<Rightarrow> bytes \<times> BeefTx \<Rightarrow> bool" where
  "lacking b = (\<lambda>(k, btx). \<not> by_bump b k btx \<and> beefFormat btx \<noteq> TxIDOnly \<and> lacks_inputs b btx)"

text \<open>What sorting the entries \<open>X\<close> adds to the state.\<close>

definition sorted_in :: "Beef \<Rightarrow> (bytes \<times> BeefTx) set \<Rightarrow> vstate \<Rightarrow> vstate \<Rightarrow> bool" where
  "sorted_in b X st st' =
    (set (validTxids st') = set (validTxids st) \<union> {k. \<exists>btx. (k, btx) \<in> X \<and> by_bump b k btx}
    \<and> set (hasProof st') = set (hasProof st) \<union> {btx. \<exists>k. (k, btx) \<in> X \<and> by_bump b k btx \<and> beefFormat btx \<noteq> TxIDOnly}
    \<and> set (txidOnly st') = set (txidOnly st) \<union> {btx. \<exists>k. (k, btx) \<in> X \<and> beefFormat btx = TxIDOnly}
    \<and> set (needsValidation st') = set (needsValidation st) \<union> {btx. \<exists>k. (k, btx) \<in> X \<and> needs_check b (k, btx)}
    \<and> set (withMissingInputs st') = set (withMissingInputs st) \<union> {btx. \<exists>k. (k, btx) \<in> X \<and> lacking b (k, btx)})"

lemma pair_sets:
  "{k. \<exists>x. (k, x) \<in> {(a, c)} \<and> P k x} = (if P a c then {a} else {})" "{x. \<exists>k. (k, x) \<in> {(a, c)} \<and> P k x} = (if P a c then {c} else {})"
  by auto

lemma pair_sets_insert:
  "{k. \<exists>x. (k, x) \<in> insert y X \<and> P k x} = {k. \<exists>x. (k, x) \<in> {y} \<and> P k x} \<union> {k. \<exists>x. (k, x) \<in> X \<and> P k x}"
  "{x. \<exists>k. (k, x) \<in> insert y X \<and> P k x} = {x. \<exists>k. (k, x) \<in> {y} \<and> P k x} \<union> {x. \<exists>k. (k, x) \<in> X \<and> P k x}"
  by auto

lemma sorted_in_insert:
  assumes "sorted_in b {x} st st1" "sorted_in b X st1 st'"
  shows "sorted_in b (insert x X) st st'"
  using assms unfolding sorted_in_def pair_sets_insert(1) [of x X] pair_sets_insert(2) [of x X] by (simp only: Un_assoc)

lemma sorted_in_single:
  "sorted_in b {(k, btx)} st st' \<longleftrightarrow>
    set (validTxids st') = set (validTxids st) \<union> (if by_bump b k btx then {k} else {})
    \<and> set (hasProof st') = set (hasProof st) \<union> (if by_bump b k btx \<and> beefFormat btx \<noteq> TxIDOnly then {btx} else {})
    \<and> set (txidOnly st') = set (txidOnly st) \<union> (if beefFormat btx = TxIDOnly then {btx} else {})
    \<and> set (needsValidation st') = set (needsValidation st) \<union> (if needs_check b (k, btx) then {btx} else {})
    \<and> set (withMissingInputs st') = set (withMissingInputs st) \<union> (if lacking b (k, btx) then {btx} else {})"
  unfolding sorted_in_def pair_sets by (rule refl)

lemma categorize_sorts:
  assumes ok: "entry_ok sha k btx" and b: "\<forall>mp\<in>set (BUMPs b). Path mp \<noteq> []"
  shows "\<exists>st'. categorize b k btx st = (Inr st' :: unit fault + _) \<and> sorted_in b {(k, btx)} st st'"
proof (cases "beefFormat btx")
  case RawTx
  then obtain tx where tx: "beefTransaction btx = Some tx" "\<forall>i\<in>set (Inputs tx). SourceTXID i \<noteq> None"
    using ok by (auto simp: entry_ok_def)
  have m: "filter (\<lambda>h. h \<notin> fst ` set (Transactions b)) (sources btx) \<noteq> [] \<longleftrightarrow> lacks_inputs b btx"
    using RawTx by (auto simp: lacks_inputs_def filter_empty_conv)
  show ?thesis
  proof (cases "k \<in> set (txidsInBumps b)")
    case True
    then show ?thesis using RawTx by (simp add: categorize_def sorted_in_single by_bump_def needs_check_def lacking_def)
  next
    case False
    then show ?thesis
      using RawTx tx m missing_of_eq [OF tx(2), of b]
      by (cases "lacks_inputs b btx") (simp_all add: categorize_def sorted_in_single by_bump_def needs_check_def lacking_def)
  qed
next
  case RawTxAndBumpIndex
  then have n: "\<not> lacks_inputs b btx" by (simp add: lacks_inputs_def)
  show ?thesis
  proof (cases "by_bump b k btx")
    case True
    then show ?thesis
      using RawTxAndBumpIndex b n by (auto simp: categorize_def sorted_in_single by_bump_def needs_check_def lacking_def leaves_eq)
  next
    case False
    then have "categorize b k btx st = (Inr (st\<lparr>needsValidation := needsValidation st @ [btx]\<rparr>) :: unit fault + _)"
      using RawTxAndBumpIndex b by (auto simp: categorize_def by_bump_def leaves_eq)
    then show ?thesis using False n RawTxAndBumpIndex by (simp add: sorted_in_single needs_check_def lacking_def)
  qed
next
  case TxIDOnly
  then show ?thesis
    using ok by (auto simp: categorize_def sorted_in_single by_bump_def needs_check_def lacking_def entry_ok_def)
qed

lemma categorize_all_sorts:
  assumes "\<forall>(k, btx)\<in>set xs. entry_ok sha k btx" "\<forall>mp\<in>set (BUMPs b). Path mp \<noteq> []"
  shows "\<exists>st'. categorize_all b xs st = (Inr st' :: unit fault + _) \<and> sorted_in b (set xs) st st'"
  using assms(1)
proof (induction xs arbitrary: st)
  case Nil
  then show ?case by (simp add: sorted_in_def)
next
  case (Cons x xs)
  then obtain st1 where 1: "categorize b (fst x) (snd x) st = (Inr st1 :: unit fault + _)" "sorted_in b {x} st st1"
    using categorize_sorts [of sha "fst x" "snd x" b st] assms(2) by auto
  obtain st' where "categorize_all b xs st1 = (Inr st' :: unit fault + _)" "sorted_in b (set xs) st1 st'"
    using Cons by auto
  then show ?case using 1 sorted_in_insert by auto
qed

subsection \<open>The rounds\<close>

text \<open>A transaction of the container that the rounds look at, with its id.\<close>

definition raw_entry :: "(bytes \<Rightarrow> bytes) \<Rightarrow> Beef \<Rightarrow> bytes \<Rightarrow> BeefTx \<Rightarrow> bool" where
  "raw_entry sha b k btx = ((k, btx) \<in> set (Transactions b) \<and> beefFormat btx \<noteq> TxIDOnly \<and> entry_ok sha k btx)"

definition raw_id :: "(bytes \<Rightarrow> bytes) \<Rightarrow> BeefTx \<Rightarrow> bytes" where
  "raw_id sha btx = projr (txid_of sha (the (beefTransaction btx)) :: unit fault + _)"

lemma raw_entryD:
  assumes "raw_entry sha b k btx"
  obtains tx where "beefTransaction btx = Some tx" "txid_of sha tx = (Inr k :: unit fault + _)" "\<forall>i\<in>set (Inputs tx). SourceTXID i \<noteq> None" "raw_id sha btx = k"
  using assms by (auto simp: raw_entry_def entry_ok_def raw_id_def)

lemma ids_of_raw:
  "\<forall>btx\<in>set bs. \<exists>k. raw_entry sha b k btx \<Longrightarrow> ids_of sha bs = (Inr (map (raw_id sha) bs) :: unit fault + _)"
proof (induction bs)
  case (Cons btx bs)
  then obtain k where "raw_entry sha b k btx" by auto
  then show ?case using Cons by (elim raw_entryD) auto
qed simp

definition settled :: "bytes set \<Rightarrow> BeefTx \<Rightarrow> bool" where
  "settled V btx = (set (sources btx) \<subseteq> V)"

lemma validate_round_total:
  assumes "\<forall>btx\<in>set needs. \<exists>k. raw_entry sha b k btx" "set valid \<subseteq> {h. grounded b h}"
  shows "\<exists>valid' new still. validate_round sha needs valid = (Inr (valid', new, still) :: unit fault + _)
    \<and> set valid' = set valid \<union> raw_id sha ` set new \<and> set needs = set new \<union> set still \<and> set valid' \<subseteq> {h. grounded b h}
    \<and> (new = [] \<longrightarrow> (\<forall>btx\<in>set still. \<not> settled (set valid) btx))"
  using assms
proof (induction needs arbitrary: valid)
  case (Cons btx needs)
  obtain k tx where k: "raw_entry sha b k btx" and tx: "beefTransaction btx = Some tx" "txid_of sha tx = (Inr k :: unit fault + _)"
      "\<forall>i\<in>set (Inputs tx). SourceTXID i \<noteq> None" "raw_id sha btx = k"
    using Cons.prems(1) raw_entryD by (metis list.set_intros(1))
  have ok: "inputs_valid valid (Inputs tx) = (Inr (settled (set valid) btx) :: unit fault + _)"
    using inputs_valid_eq [OF tx(3), of valid] by (simp add: settled_def tx(1) image_subset_iff)
  show ?case
  proof (cases "settled (set valid) btx")
    case True
    have "grounded b k"
      using k True Cons.prems(2) by (intro grounded.spends [of k btx]) (auto simp: raw_entry_def settled_def)
    then have "set (k # valid) \<subseteq> {h. grounded b h}" using Cons.prems(2) by simp
    with Cons.IH [of "k # valid"] Cons.prems(1) ok True tx show ?thesis by (auto simp: insert_commute)
  next
    case False
    with Cons.IH [of valid] Cons.prems ok tx show ?thesis by auto
  qed
qed auto

lemma validate_loop_total:
  assumes "\<forall>btx\<in>set needs. \<exists>k. raw_entry sha b k btx" "set valid \<subseteq> {h. grounded b h}"
  shows "\<exists>valid' new still. validate_loop sha needs valid found = (Inr (valid', found @ new, still) :: unit fault + _)
    \<and> set valid' = set valid \<union> raw_id sha ` set new \<and> set needs = set new \<union> set still \<and> set valid' \<subseteq> {h. grounded b h}
    \<and> (\<forall>btx\<in>set still. \<not> settled (set valid') btx)"
  using assms
proof (induction "length needs" arbitrary: needs valid found rule: less_induct)
  case less
  show ?case
  proof (cases "needs = []")
    case True
    then show ?thesis using less.prems by (simp add: validate_loop.simps)
  next
    case ne: False
    obtain valid' new still where r: "validate_round sha needs valid = (Inr (valid', new, still) :: unit fault + _)"
      and v: "set valid' = set valid \<union> raw_id sha ` set new" "set needs = set new \<union> set still" "set valid' \<subseteq> {h. grounded b h}"
        "new = [] \<longrightarrow> (\<forall>btx\<in>set still. \<not> settled (set valid) btx)"
      using validate_round_total [OF less.prems] by metis
    show ?thesis
    proof (cases "new = []")
      case True
      then show ?thesis using v ne r by (simp add: validate_loop.simps [of sha needs])
    next
      case False
      then have "length still < length needs"
        using validate_round_length [OF r] by (cases new) auto
      then obtain valid'' new' rest where "validate_loop sha still valid' (found @ new) = (Inr (valid'', (found @ new) @ new', rest) :: unit fault + _)"
        "set valid'' = set valid' \<union> raw_id sha ` set new'" "set still = set new' \<union> set rest" "set valid'' \<subseteq> {h. grounded b h}"
        "\<forall>btx\<in>set rest. \<not> settled (set valid'') btx"
        using less.hyps [of still valid' "found @ new"] less.prems(1) v(2,3) by auto
      then show ?thesis
        using v ne r False by (intro exI [of _ valid''] exI [of _ "new @ new'"] exI [of _ rest]) (auto simp: validate_loop.simps [of sha needs])
    qed
  qed
qed

text \<open>The valid ids at the end are the grounded ones: the rest has an input that is not valid.\<close>

lemma grounded_valid:
  assumes "distinct (map fst (Transactions b))"
    and valid: "\<And>k btx. (k, btx) \<in> set (Transactions b) \<Longrightarrow> by_bump b k btx \<Longrightarrow> k \<in> V"
    and rest: "\<And>k btx. (k, btx) \<in> set (Transactions b) \<Longrightarrow> needs_check b (k, btx) \<Longrightarrow> k \<in> V \<or> \<not> settled V btx"
    and "grounded b k"
  shows "k \<in> V"
  using assms(4)
proof (induction rule: grounded.induct)
  case (proof_path k btx)
  then show ?case by (rule valid)
next
  case (spends k btx)
  have "set (sources btx) \<subseteq> fst ` set (Transactions b)" "settled V btx"
    using spends(3,4) grounded_key by (auto simp: settled_def)
  then have "\<not> lacks_inputs b btx" by (auto simp: lacks_inputs_def)
  then show ?case
    using spends(1,2) valid rest \<open>settled V btx\<close> by (cases "by_bump b k btx") (auto simp: needs_check_def)
qed

lemma only_ids_eq:
  "\<forall>btx\<in>set bs. KnownTxID btx \<noteq> None \<Longrightarrow> only_ids sha bs = (Inr (map (the \<circ> KnownTxID) bs) :: unit fault + _)"
  by (induction bs) (auto split: option.split)

text \<open>A transaction that is not settled at the end, or lacks an input, is not grounded.\<close>

lemma not_groundedI:
  assumes "distinct (map fst (Transactions b))" "(k, btx) \<in> set (Transactions b)" "\<not> by_bump b k btx" "\<not> settled {h. grounded b h} btx"
  shows "\<not> grounded b k"
proof
  assume "grounded b k"
  then show False
    by cases (use assms in \<open>auto simp: settled_def dest: eq_key_imp_eq_value\<close>)
qed

lemma image_ids:
  assumes "\<And>k x. (k, x) \<in> T \<Longrightarrow> P k x \<Longrightarrow> f x = k"
  shows "f ` {x. \<exists>k. (k, x) \<in> T \<and> P k x} = {k. \<exists>x. (k, x) \<in> T \<and> P k x}"
proof (intro set_eqI iffI)
  fix k assume "k \<in> f ` {x. \<exists>k. (k, x) \<in> T \<and> P k x}"
  then obtain x k' where "(k', x) \<in> T" "P k' x" "k = f x" by blast
  then show "k \<in> {k. \<exists>x. (k, x) \<in> T \<and> P k x}" using assms [of k' x] by auto
next
  fix k assume "k \<in> {k. \<exists>x. (k, x) \<in> T \<and> P k x}"
  then obtain x where "(k, x) \<in> T" "P k x" by blast
  then show "k \<in> f ` {x. \<exists>k. (k, x) \<in> T \<and> P k x}" using assms [of k x] by (intro rev_image_eqI [of x]) auto
qed

lemma ValidateTransactions_parts:
  assumes "keyed sha b"
  obtains r V new rest where "ValidateTransactions sha b = (Inr r :: unit fault + _)"
    and "V = {k. \<exists>btx. (k, btx) \<in> set (Transactions b) \<and> by_bump b k btx} \<union> raw_id sha ` set new"
    and "V \<subseteq> {h. grounded b h}" "\<forall>btx\<in>set rest. \<not> settled V btx"
    and "{btx. \<exists>k. (k, btx) \<in> set (Transactions b) \<and> needs_check b (k, btx)} = set new \<union> set rest"
    and "set (onlyTxids r) = {k. \<exists>btx. (k, btx) \<in> set (Transactions b) \<and> beefFormat btx = TxIDOnly}"
    and "set (Valid r) = (set (onlyTxids r) \<inter> V)
      \<union> {k. \<exists>btx. (k, btx) \<in> set (Transactions b) \<and> by_bump b k btx \<and> beefFormat btx \<noteq> TxIDOnly} \<union> raw_id sha ` set new"
    and "set (NotValid r) = raw_id sha ` set rest"
    and "set (WithMissingInputs r) = {k. \<exists>btx. (k, btx) \<in> set (Transactions b) \<and> lacking b (k, btx)}"
proof -
  let ?T = "set (Transactions b)"
  have ok: "\<forall>(k, btx)\<in>?T. entry_ok sha k btx" and paths: "\<forall>mp\<in>set (BUMPs b). Path mp \<noteq> []"
    using assms by (auto simp: keyed_def)
  let ?st0 = "\<lparr>validTxids = [], missingInputs = [], hasProof = [], txidOnly = [], needsValidation = [], withMissingInputs = []\<rparr>"
  obtain st where st: "categorize_all b (Transactions b) ?st0 = (Inr st :: unit fault + _)" and sorted: "sorted_in b ?T ?st0 st"
    using categorize_all_sorts [OF ok paths] by metis
  have S: "set (validTxids st) = {k. \<exists>btx. (k, btx) \<in> ?T \<and> by_bump b k btx}"
    "set (hasProof st) = {btx. \<exists>k. (k, btx) \<in> ?T \<and> by_bump b k btx \<and> beefFormat btx \<noteq> TxIDOnly}"
    "set (txidOnly st) = {btx. \<exists>k. (k, btx) \<in> ?T \<and> beefFormat btx = TxIDOnly}"
    "set (needsValidation st) = {btx. \<exists>k. (k, btx) \<in> ?T \<and> needs_check b (k, btx)}"
    "set (withMissingInputs st) = {btx. \<exists>k. (k, btx) \<in> ?T \<and> lacking b (k, btx)}"
    using sorted by (simp_all add: sorted_in_def)
  have raw: "raw_entry sha b k btx" if "(k, btx) \<in> ?T" "beefFormat btx \<noteq> TxIDOnly" for k btx
    using ok that by (auto simp: raw_entry_def)
  have id: "raw_id sha btx = k" if "(k, btx) \<in> ?T" "beefFormat btx \<noteq> TxIDOnly" for k btx
    using raw_entryD [OF raw [OF that]] by blast
  have only: "KnownTxID btx = Some k" if "(k, btx) \<in> ?T" "beefFormat btx = TxIDOnly" for k btx
    using ok that by (auto simp: entry_ok_def)
  have fmt: "beefFormat btx \<noteq> TxIDOnly" if "needs_check b (k, btx) \<or> lacking b (k, btx)" for k btx
    using that by (auto simp: needs_check_def lacking_def)
  have needs: "\<forall>btx\<in>set (needsValidation st). \<exists>k. raw_entry sha b k btx" "\<forall>btx\<in>set (hasProof st). \<exists>k. raw_entry sha b k btx"
    "\<forall>btx\<in>set (withMissingInputs st). \<exists>k. raw_entry sha b k btx"
    unfolding S(2,4,5) using raw fmt by blast+
  have start: "set (validTxids st) \<subseteq> {h. grounded b h}" using S by (auto intro: grounded.proof_path)
  obtain V new rest where loop: "validate_loop sha (needsValidation st) (validTxids st) (hasProof st) = (Inr (V, hasProof st @ new, rest) :: unit fault + _)"
    and L: "set V = set (validTxids st) \<union> raw_id sha ` set new" "set (needsValidation st) = set new \<union> set rest" "set V \<subseteq> {h. grounded b h}"
      "\<forall>btx\<in>set rest. \<not> settled (set V) btx"
    using validate_loop_total [OF needs(1) start] by metis
  have raw_ids: "ids_of sha bs = (Inr (map (raw_id sha) bs) :: unit fault + _)" if "\<forall>btx\<in>set bs. \<exists>k. raw_entry sha b k btx" for bs
    using that by (rule ids_of_raw)
  have ids: "ids_of sha rest = (Inr (map (raw_id sha) rest) :: unit fault + _)"
    by (rule raw_ids) (use needs(1) L(2) in \<open>simp add: ball_Un\<close>)
  have ids': "ids_of sha (hasProof st @ new) = (Inr (map (raw_id sha) (hasProof st @ new)) :: unit fault + _)"
    by (rule raw_ids) (use needs(1,2) L(2) in \<open>simp add: ball_Un\<close>)
  have ids'': "ids_of sha (withMissingInputs st) = (Inr (map (raw_id sha) (withMissingInputs st)) :: unit fault + _)"
    by (rule raw_ids) (use needs(3) in simp)
  have only_ids: "only_ids sha (txidOnly st) = (Inr (map (the \<circ> KnownTxID) (txidOnly st)) :: unit fault + _)"
    using S only by (auto intro!: only_ids_eq)
  let ?r = "\<lparr>Valid = filter (\<lambda>h. h \<in> set V) (map (the \<circ> KnownTxID) (txidOnly st)) @ map (raw_id sha) (hasProof st @ new),
    NotValid = map (raw_id sha) rest, onlyTxids = map (the \<circ> KnownTxID) (txidOnly st),
    WithMissingInputs = map (raw_id sha) (withMissingInputs st), MissingInputs = remdups (missingInputs st)\<rparr>"
  have known: "set (map (the \<circ> KnownTxID) (txidOnly st)) = {k. \<exists>btx. (k, btx) \<in> ?T \<and> beefFormat btx = TxIDOnly}"
    using image_ids [of ?T "\<lambda>k btx. beefFormat btx = TxIDOnly" "the \<circ> KnownTxID"] S(3) only by simp
  have proofs: "raw_id sha ` set (hasProof st) = {k. \<exists>btx. (k, btx) \<in> ?T \<and> by_bump b k btx \<and> beefFormat btx \<noteq> TxIDOnly}"
    unfolding S(2) by (rule image_ids) (use id in blast)
  have lack: "raw_id sha ` set (withMissingInputs st) = {k. \<exists>btx. (k, btx) \<in> ?T \<and> lacking b (k, btx)}"
    unfolding S(5) by (rule image_ids) (use id in \<open>auto simp: lacking_def\<close>)
  show ?thesis
  proof (rule that [of ?r "set V" new rest])
    show "ValidateTransactions sha b = (Inr ?r :: unit fault + _)"
      by (simp only: ValidateTransactions_def st loop ids ids' ids'' only_ids rbind_Inr prod.case)
  qed (use S L known proofs lack in \<open>auto simp: image_Un\<close>)
qed

text \<open>(C9) \<open>ValidateTransactions\<close> returns on every container whose entries are stored under their ids, and it decides \<open>grounded\<close>: an entry is
  reported valid exactly if it is grounded, that is proven by a merkle path of the container or, as the least such set, spending only from grounded
  entries; and a transaction is reported as not valid or with missing inputs exactly if it is not grounded.\<close>

theorem ValidateTransactions_grounded:
  assumes "keyed sha b"
  shows "\<exists>r. ValidateTransactions sha b = (Inr r :: unit fault + _)
    \<and> (\<forall>(k, btx)\<in>set (Transactions b).
         (k \<in> set (Valid r) \<longleftrightarrow> grounded b k)
       \<and> (k \<in> set (onlyTxids r) \<longleftrightarrow> beefFormat btx = TxIDOnly)
       \<and> (k \<in> set (NotValid r) \<union> set (WithMissingInputs r) \<longleftrightarrow> beefFormat btx \<noteq> TxIDOnly \<and> \<not> grounded b k))"
proof -
  obtain r V new rest where r: "ValidateTransactions sha b = (Inr r :: unit fault + _)"
    and V: "V = {k. \<exists>btx. (k, btx) \<in> set (Transactions b) \<and> by_bump b k btx} \<union> raw_id sha ` set new" "V \<subseteq> {h. grounded b h}"
    and rest: "\<forall>btx\<in>set rest. \<not> settled V btx"
      "{btx. \<exists>k. (k, btx) \<in> set (Transactions b) \<and> needs_check b (k, btx)} = set new \<union> set rest"
    and only: "set (onlyTxids r) = {k. \<exists>btx. (k, btx) \<in> set (Transactions b) \<and> beefFormat btx = TxIDOnly}"
    and valid: "set (Valid r) = (set (onlyTxids r) \<inter> V)
      \<union> {k. \<exists>btx. (k, btx) \<in> set (Transactions b) \<and> by_bump b k btx \<and> beefFormat btx \<noteq> TxIDOnly} \<union> raw_id sha ` set new"
    and notv: "set (NotValid r) = raw_id sha ` set rest"
      "set (WithMissingInputs r) = {k. \<exists>btx. (k, btx) \<in> set (Transactions b) \<and> lacking b (k, btx)}"
    by (rule ValidateTransactions_parts [OF assms])
  have dist: "distinct (map fst (Transactions b))" using assms by (simp add: keyed_def)
  have id: "raw_id sha btx = k" if "(k, btx) \<in> set (Transactions b)" "beefFormat btx \<noteq> TxIDOnly" for k btx
    by (rule raw_entryD [of sha b k btx]) (use assms that in \<open>auto simp: raw_entry_def keyed_def\<close>)
  have checked: "\<exists>k. (k, btx) \<in> set (Transactions b) \<and> needs_check b (k, btx) \<and> raw_id sha btx = k" if "btx \<in> set new \<union> set rest" for btx
    using that rest(2) id by (fastforce simp: needs_check_def)
  have all_V: "k \<in> V" if "grounded b k" for k
    using grounded_valid [OF dist _ _ that, of V] V(1) rest id by (fastforce simp: needs_check_def)
  then have grounded: "V = {h. grounded b h}" using V(2) by auto
  have lack: "\<not> grounded b k" if l: "(k, btx) \<in> set (Transactions b)" "lacking b (k, btx)" for k btx
  proof -
    obtain h where "h \<in> set (sources btx)" "h \<notin> fst ` set (Transactions b)"
      using l(2) unfolding lacking_def lacks_inputs_def by blast
    then have "\<not> settled {h. grounded b h} btx"
      using grounded_key unfolding settled_def by blast
    then show ?thesis using not_groundedI [OF dist l(1)] l(2) by (simp add: lacking_def)
  qed
  have bad: "\<not> grounded b k" if "btx \<in> set rest" "raw_id sha btx = k" for k btx
    using checked [of btx] not_groundedI [OF dist, of k btx] that rest(1) by (auto simp: needs_check_def grounded)
  have found: "k \<in> raw_id sha ` set new" if "(k, btx) \<in> set (Transactions b)" "\<not> by_bump b k btx" "grounded b k" for k btx
    using that V(1) all_V eq_key_imp_eq_value [OF dist that(1)] by blast
  have "(k \<in> set (Valid r) \<longleftrightarrow> grounded b k) \<and> (k \<in> set (onlyTxids r) \<longleftrightarrow> beefFormat btx = TxIDOnly)
      \<and> (k \<in> set (NotValid r) \<union> set (WithMissingInputs r) \<longleftrightarrow> beefFormat btx \<noteq> TxIDOnly \<and> \<not> grounded b k)"
    if k: "(k, btx) \<in> set (Transactions b)" for k btx
  proof (intro conjI)
    have u: "btx' = btx" if "(k, btx') \<in> set (Transactions b)" for btx' using eq_key_imp_eq_value [OF dist k that] by simp
    show o: "k \<in> set (onlyTxids r) \<longleftrightarrow> beefFormat btx = TxIDOnly" unfolding only using k u by blast
    have "raw_id sha ` set new \<subseteq> {h. grounded b h}" using V by blast
    then show "k \<in> set (Valid r) \<longleftrightarrow> grounded b k"
      using k o grounded found [OF k] by (auto simp: valid intro: grounded.proof_path)
    show "k \<in> set (NotValid r) \<union> set (WithMissingInputs r) \<longleftrightarrow> beefFormat btx \<noteq> TxIDOnly \<and> \<not> grounded b k" (is "?l \<longleftrightarrow> ?r")
    proof
      assume ?l
      then consider btx' where "btx' \<in> set rest" "raw_id sha btx' = k" | btx' where "(k, btx') \<in> set (Transactions b)" "lacking b (k, btx')"
        unfolding notv by blast
      then show ?r
      proof cases
        case 1
        then have "(k, btx') \<in> set (Transactions b)" "needs_check b (k, btx')" using checked [of btx'] by auto
        then show ?thesis using bad [OF 1] u by (auto simp: needs_check_def)
      next
        case 2
        then show ?thesis using lack [OF 2] u by (auto simp: lacking_def)
      qed
    next
      assume ?r
      then have "\<not> by_bump b k btx" using k grounded.proof_path by blast
      then have "lacking b (k, btx) \<or> btx \<in> set new \<union> set rest" using \<open>?r\<close> k rest(2) by (auto simp: lacking_def needs_check_def)
      moreover have "btx \<notin> set new" using \<open>?r\<close> id [OF k] V by blast
      ultimately show ?l using k id [OF k] \<open>?r\<close> by (auto simp: notv)
    qed
  qed
  then show ?thesis using r by blast
qed

subsection \<open>The roots\<close>

definition root_found :: "(bytes \<Rightarrow> bytes) \<Rightarrow> (u32 \<times> bytes) list \<Rightarrow> MerklePath \<Rightarrow> PathElement \<Rightarrow> bool" where
  "root_found sha roots mp n = (\<forall>h. is_set (Txid n) \<and> Hash n = Some h \<longrightarrow>
     (\<exists>root. ComputeRoot sha mp (Some h) = (Inr (Some root) :: unit fault + _) \<and> map_of roots (BlockHeight mp) = Some root))"

lemma root_found_mono: "root_found sha roots mp n \<Longrightarrow> map_of roots \<subseteq>\<^sub>m map_of roots' \<Longrightarrow> root_found sha roots' mp n"
  by (fastforce simp: root_found_def map_le_def dom_def)

lemma confirmComputedRoot_Some:
  assumes "confirmComputedRoot sha roots mp h = (Inr (Some roots') :: unit fault + _)"
  shows "map_of roots \<subseteq>\<^sub>m map_of roots'
    \<and> (\<exists>root. ComputeRoot sha mp (Some h) = (Inr (Some root) :: unit fault + _) \<and> map_of roots' (BlockHeight mp) = Some root)"
  using assms
  by (auto simp: confirmComputedRoot_def update_conv' map_le_def dom_def split: sum.split_asm option.split_asm if_split_asm)

lemma confirm_leaves_Some:
  "confirm_leaves sha mp ns roots = (Inr (Some roots') :: unit fault + _) \<Longrightarrow>
   map_of roots \<subseteq>\<^sub>m map_of roots' \<and> (\<forall>n\<in>set ns. root_found sha roots' mp n)"
proof (induction ns arbitrary: roots)
  case (Cons n ns)
  show ?case
  proof (cases "is_set (Txid n) \<and> Hash n \<noteq> None")
    case False
    then have "confirm_leaves sha mp ns roots = (Inr (Some roots') :: unit fault + _)" "root_found sha roots' mp n"
      using Cons.prems by (auto simp: root_found_def split: option.split_asm)
    then show ?thesis using Cons.IH by simp
  next
    case True
    then obtain h where h: "Hash n = Some h" by auto
    obtain r where r: "confirmComputedRoot sha roots mp h = (Inr (Some r) :: unit fault + _)" "confirm_leaves sha mp ns r = (Inr (Some roots') :: unit fault + _)"
      using Cons.prems True h by (auto simp: res_simps split: option.split_asm)
    note 1 = confirmComputedRoot_Some [OF r(1)] and 2 = Cons.IH [OF r(2)]
    have "root_found sha r mp n" using 1 h by (auto simp: root_found_def)
    then show ?thesis using 1 2 root_found_mono by (auto intro: map_le_trans)
  qed
qed simp

lemma confirm_bumps_Some:
  "confirm_bumps sha mps roots = (Inr (Some roots') :: unit fault + _) \<Longrightarrow>
   map_of roots \<subseteq>\<^sub>m map_of roots' \<and> (\<forall>mp\<in>set mps. \<forall>n\<in>set (hd (Path mp)). root_found sha roots' mp n)"
proof (induction mps arbitrary: roots)
  case (Cons mp mps)
  obtain lv r where r: "leaves mp = (Inr lv :: unit fault + _)" "confirm_leaves sha mp lv roots = (Inr (Some r) :: unit fault + _)"
      "confirm_bumps sha mps r = (Inr (Some roots') :: unit fault + _)"
    using Cons.prems by (auto simp: res_simps split: option.split_asm)
  have lv: "lv = hd (Path mp)" using r(1) by (auto simp: leaves_def split: list.split_asm)
  show ?case
    using confirm_leaves_Some [OF r(2)] Cons.IH [OF r(3)] root_found_mono unfolding lv by (auto intro: map_le_trans)
qed simp

lemma roots_confirmed_iff: "roots_confirmed ct roots = Inr True \<longleftrightarrow> (\<forall>(height, root)\<in>set roots. ct (Some root) height = Inr True)"
proof (induction roots)
  case (Cons x xs)
  then show ?case by (cases x; cases "ct (Some (snd x)) (fst x)") auto
qed simp

text \<open>(C10) What \<open>Verify\<close> of a container has checked when it answers true. Every transaction in it is grounded, entries that are only ids occur only
  if they are allowed, and the chain tracker confirms the root that each leaf with the transaction flag gives, for the path it is in.\<close>

theorem Beef_Verify_sound:
  assumes "keyed sha b" "Beef_Verify sha b ct allowTxidOnly = (Inr True :: unit fault + _)"
  shows "(\<forall>(k, btx)\<in>set (Transactions b). if beefFormat btx = TxIDOnly then allowTxidOnly else grounded b k)
    \<and> (\<forall>mp\<in>set (BUMPs b). \<forall>n\<in>set (hd (Path mp)). \<forall>h. is_set (Txid n) \<and> Hash n = Some h \<longrightarrow>
         Verify_path sha ct mp (Some h) = (Inr True :: unit fault + _))"
proof -
  obtain r V new rest where r: "ValidateTransactions sha b = (Inr r :: unit fault + _)"
    and V: "V = {k. \<exists>btx. (k, btx) \<in> set (Transactions b) \<and> by_bump b k btx} \<union> raw_id sha ` set new" "V \<subseteq> {h. grounded b h}"
    and rest: "{btx. \<exists>k. (k, btx) \<in> set (Transactions b) \<and> needs_check b (k, btx)} = set new \<union> set rest"
    and only: "set (onlyTxids r) = {k. \<exists>btx. (k, btx) \<in> set (Transactions b) \<and> beefFormat btx = TxIDOnly}"
    and notv: "set (NotValid r) = raw_id sha ` set rest"
      "set (WithMissingInputs r) = {k. \<exists>btx. (k, btx) \<in> set (Transactions b) \<and> lacking b (k, btx)}"
    by (rule ValidateTransactions_parts [OF assms(1)])
  obtain roots where c: "NotValid r = []" "onlyTxids r \<noteq> [] \<Longrightarrow> allowTxidOnly" "WithMissingInputs r = []"
    and roots: "confirm_bumps sha (BUMPs b) [] = (Inr (Some roots) :: unit fault + _)" "roots_confirmed ct roots = Inr True"
    using assms(2) r by (auto simp: Beef_Verify_def verifyValid_def res_simps split: option.split_asm if_split_asm)
  have "if beefFormat btx = TxIDOnly then allowTxidOnly else grounded b k" if k: "(k, btx) \<in> set (Transactions b)" for k btx
  proof (cases "beefFormat btx = TxIDOnly")
    case True
    then have "k \<in> set (onlyTxids r)" using only k by blast
    then show ?thesis using c(2) True by (cases "onlyTxids r") auto
  next
    case raw: False
    have "rest = []" "\<not> lacking b (k, btx)" using notv c(1,3) k by auto
    then consider "by_bump b k btx" | "btx \<in> set new"
      using raw k rest by (auto simp: lacking_def needs_check_def)
    moreover have "raw_id sha btx = k"
      by (rule raw_entryD [of sha b k btx]) (use assms(1) k raw in \<open>auto simp: raw_entry_def keyed_def\<close>)
    ultimately show ?thesis using V raw k by cases (auto intro: grounded.proof_path)
  qed
  moreover have "Verify_path sha ct mp (Some h) = (Inr True :: unit fault + _)"
    if n: "mp \<in> set (BUMPs b)" "n \<in> set (hd (Path mp))" "is_set (Txid n)" "Hash n = Some h" for mp n h
  proof -
    obtain root where "ComputeRoot sha mp (Some h) = (Inr (Some root) :: unit fault + _)" "map_of roots (BlockHeight mp) = Some root"
      using confirm_bumps_Some [OF roots(1)] n unfolding root_found_def by blast
    then show ?thesis using roots(2) by (auto simp: Verify_path_def roots_confirmed_iff dest: map_of_SomeD)
  qed
  ultimately show ?thesis by blast
qed

definition mined_id :: bytes where
  "mined_id = replicate 31 7 @ [23]"

definition demo_spender :: Transaction where
  "demo_spender = Transaction 1 [TransactionInput (Some mined_id) (Some []) 0 0 None None None]
     [\<lparr>Satoshis = 1, LockingScript = Some [0x51], Change = False\<rparr>] 0 None"

definition demo_beef :: "bool \<Rightarrow> Beef" where
  "demo_beef flag = \<lparr>beefVersion = BEEF_V2,
     BUMPs = [\<lparr>BlockHeight = 5, Path = [[\<lparr>Offset = 0, Hash = Some mined_id, Txid = Some flag, Duplicate = None\<rparr>]]\<rparr>],
     Transactions = [(replicate 31 7 @ [15], \<lparr>beefFormat = RawTx, KnownTxID = None, beefTransaction = Some demo_spender, BumpIndex = 0\<rparr>),
       (mined_id, \<lparr>beefFormat = RawTxAndBumpIndex, KnownTxID = None, beefTransaction = Some demo_mined, BumpIndex = 0\<rparr>)],
     NewestTxID = None\<rparr>"

definition demo_roots :: "bytes option \<Rightarrow> u32 \<Rightarrow> unit fault + bool" where
  "demo_roots r height = Inr (height = 5 \<and> r = Some mined_id)"

lemma demo_keyed: "keyed demo_sha (demo_beef flag)"
proof -
  have "txid_of demo_sha demo_spender = (Inr (replicate 31 7 @ [15]) :: unit fault + _)" "txid_of demo_sha demo_mined = (Inr mined_id :: unit fault + _)"
    "map SourceTXID (Inputs demo_spender) = [Some mined_id]" "map SourceTXID (Inputs demo_mined) = [Some (replicate 32 0)]" "mined_id \<noteq> replicate 31 7 @ [15]"
    by code_simp+
  then show ?thesis by (auto simp: keyed_def demo_beef_def entry_ok_def)
qed

theorem ValidateTransactions_grounded_witness:
  "\<exists>r. ValidateTransactions demo_sha (demo_beef True) = (Inr r :: unit fault + _) \<and> mined_id \<in> set (Valid r) \<and> grounded (demo_beef True) mined_id"
proof -
  have "grounded (demo_beef True) mined_id"
    by (rule grounded.proof_path) (auto simp: demo_beef_def by_bump_def)
  then show ?thesis
    using ValidateTransactions_grounded [OF demo_keyed [of True]] by (auto simp: demo_beef_def)
qed

theorem Beef_Verify_sound_witness:
  "Beef_Verify demo_sha (demo_beef True) demo_roots False = Inr True \<and> grounded (demo_beef True) mined_id
    \<and> grounded (demo_beef True) (replicate 31 7 @ [15])"
proof -
  have v: "Beef_Verify demo_sha (demo_beef True) demo_roots False = Inr True" by code_simp
  then show ?thesis using Beef_Verify_sound [OF demo_keyed v] by (simp add: demo_beef_def)
qed

text \<open>A leaf without the transaction flag proves its transaction for the validation, and its root is never computed: with such a leaf \<open>Verify\<close> answers true
  whatever path it is and whatever the chain tracker says.\<close>

lemma unflagged_leaf_not_confirmed: "Beef_Verify demo_sha (demo_beef False) (\<lambda>_ _. Inr False) False = (Inr True :: unit fault + _)"
  by code_simp

end
