(* ===== verification/Beef_Ops.thy ===== *)
theory Beef_Ops
  imports Beef_Valid
begin

text \<open>
  The operations that change a container. Each keeps entries stored under their own ids (\<open>keyed\<close>), which is what validation relies on, and
  trimming keeps every proof that an entry uses while it renumbers the paths.
\<close>

subsection \<open>Entries stay under their ids\<close>

lemma entry_ok_only [simp]: "entry_ok sha k \<lparr>beefFormat = TxIDOnly, KnownTxID = Some k, beefTransaction = t, BumpIndex = i\<rparr>"
  by (simp add: entry_ok_def)

lemma set_update_subset: "set (AList.update k v xs) \<subseteq> insert (k, v) (set xs)"
  by (induction xs) auto

lemma keyed_put_tx:
  assumes "keyed sha b" "entry_ok sha k btx"
  shows "keyed sha (put_tx b k btx)"
  using assms set_update_subset [of k btx "Transactions b"]
  by (fastforce simp: keyed_def put_tx_def distinct_update)

lemma keyed_filter:
  assumes "keyed sha b"
  shows "keyed sha (b\<lparr>Transactions := filter P (Transactions b)\<rparr>)"
  using assms by (auto simp: keyed_def distinct_map_filter)

lemma keyed_Remove: "keyed sha b \<Longrightarrow> keyed sha (RemoveExistingTxid b txid)"
  by (cases txid) (simp_all add: RemoveExistingTxid_def keyed_filter)

lemma keyed_MakeTxidOnly: "keyed sha b \<Longrightarrow> keyed sha (snd (MakeTxidOnly b txid))"
  by (auto simp: MakeTxidOnly_def Let_def keyed_put_tx split: option.split)

lemma keyed_MergeTxidOnly: "keyed sha b \<Longrightarrow> keyed sha (snd (MergeTxidOnly b txid))"
  by (auto simp: MergeTxidOnly_def Let_def keyed_put_tx split: option.split)

lemma entry_ok_same:
  "entry_ok sha k btx \<Longrightarrow> beefFormat btx' = beefFormat btx \<Longrightarrow> KnownTxID btx' = KnownTxID btx \<Longrightarrow>
    beefTransaction btx' = beefTransaction btx \<Longrightarrow> entry_ok sha k btx'"
  by (auto simp: entry_ok_def split: if_splits)

lemma with_MerklePath_sel [simp]:
  "Inputs (with_MerklePath tx mp) = Inputs tx" "MerklePath (with_MerklePath tx mp) = mp"
  by (simp_all add: with_MerklePath_def)

lemma txid_of_with_MerklePath [simp]: "txid_of sha (with_MerklePath tx mp) = txid_of sha tx"
  by (simp add: txid_of_def TxID_def Tx_Bytes_def toBytesHelper_eq tx_data_def with_MerklePath_def)

subsection \<open>Trimming\<close>

definition kept :: "Beef \<Rightarrow> nat list" where
  "kept b = filter (\<lambda>i. int i \<in> set (used_indices b)) [0 ..< length (BUMPs b)]"

definition renumber :: "Beef \<Rightarrow> BeefTx \<Rightarrow> BeefTx" where
  "renumber b tx = (if beefFormat tx = RawTxAndBumpIndex
     then (case map_of (zip (map int (kept b)) (map int [0 ..< length (kept b)])) (BumpIndex tx) of None \<Rightarrow> tx | Some k \<Rightarrow> tx\<lparr>BumpIndex := k\<rparr>)
     else tx)"

definition trimmed :: "Beef \<Rightarrow> Beef" where
  "trimmed b = b\<lparr>BUMPs := map (\<lambda>i. BUMPs b ! i) (kept b), Transactions := map (\<lambda>(k, tx). (k, renumber b tx)) (Transactions b)\<rparr>"

lemma trim_cases:
  "trimUnreferencedBumps b = (if BUMPs b = [] \<or> length (used_indices b) = length (BUMPs b) then b else trimmed b)"
  unfolding trimUnreferencedBumps_def trimmed_def renumber_def kept_def Let_def by simp

lemma renumber_sel [simp]:
  "beefFormat (renumber b btx) = beefFormat btx" "KnownTxID (renumber b btx) = KnownTxID btx"
  "beefTransaction (renumber b btx) = beefTransaction btx"
  by (simp_all add: renumber_def split: option.split)

lemma new_index_at:
  assumes "distinct xs" "j < length xs"
  shows "map_of (zip (map int xs) (map int [0 ..< length xs])) (int (xs ! j)) = Some (int j)"
  using map_of_zip_nth [of "map int xs" "map int [0 ..< length xs]" j] assms by (simp add: distinct_map)

lemma kept_used: "i \<in> set (kept b) \<longleftrightarrow> i < length (BUMPs b) \<and> int i \<in> set (used_indices b)"
  by (auto simp: kept_def)

lemma distinct_kept: "distinct (kept b)"
  by (simp add: kept_def)

lemma length_kept: "length (kept b) \<le> length (BUMPs b)"
  using length_filter_le [of _ "[0 ..< length (BUMPs b)]"] by (simp add: kept_def)

lemma mem_map_filter: "y \<in> set (List.map_filter f xs) \<longleftrightarrow> (\<exists>x\<in>set xs. f x = Some y)"
  by (induction xs) (auto split: option.splits)

definition needed :: "Beef \<Rightarrow> bytes list" where
  "needed b = List.map_filter (\<lambda>(txid, tx). if beefFormat tx = RawTx then Some txid
     else if beefFormat tx = TxIDOnly then KnownTxID tx else None) (Transactions b)"

lemma needed_iff: "h \<in> set (needed b) \<longleftrightarrow> (\<exists>(k, btx)\<in>set (Transactions b).
    if beefFormat btx = RawTx then h = k else beefFormat btx = TxIDOnly \<and> KnownTxID btx = Some h)"
  unfolding needed_def mem_map_filter by (intro bex_cong refl) (auto split: if_splits)

lemma used_iff:
  "i \<in> set (used_indices b) \<longleftrightarrow> (\<exists>(k, btx)\<in>set (Transactions b). beefFormat btx = RawTxAndBumpIndex \<and> BumpIndex btx = i)
    \<or> (\<exists>j<length (BUMPs b). i = int j \<and> has_needed_leaf (needed b) (BUMPs b ! j))"
proof -
  have "i \<in> set (List.map_filter (\<lambda>(_, tx). if beefFormat tx = RawTxAndBumpIndex then Some (BumpIndex tx) else None) (Transactions b))
      \<longleftrightarrow> (\<exists>(k, btx)\<in>set (Transactions b). beefFormat btx = RawTxAndBumpIndex \<and> BumpIndex btx = i)"
    unfolding mem_map_filter by (intro bex_cong refl) (auto split: if_splits)
  moreover have "i \<in> int ` {j. j < length (BUMPs b) \<and> has_needed_leaf (needed b) (BUMPs b ! j)}
      \<longleftrightarrow> i \<in> set (filter (\<lambda>i. has_needed_leaf (needed b) (BUMPs b ! nat i)) (map int [0 ..< length (BUMPs b)]))"
    by auto
  ultimately show ?thesis
    unfolding used_indices_def Let_def needed_def [symmetric] set_remdups set_append Un_iff by blast
qed

lemma used_cases:
  assumes "i \<in> set (used_indices b)"
  obtains (index) k btx where "(k, btx) \<in> set (Transactions b)" "beefFormat btx = RawTxAndBumpIndex" "BumpIndex btx = i"
  | (leaf) j k btx h where "i = int j" "j < length (BUMPs b)" "(k, btx) \<in> set (Transactions b)"
      "if beefFormat btx = RawTx then h = k else beefFormat btx = TxIDOnly \<and> KnownTxID btx = Some h"
      "\<exists>l\<in>set (hd (Path (BUMPs b ! j))). Hash l = Some h"
proof -
  from assms consider "\<exists>(k, btx)\<in>set (Transactions b). beefFormat btx = RawTxAndBumpIndex \<and> BumpIndex btx = i"
    | j where "j < length (BUMPs b)" "i = int j" "has_needed_leaf (needed b) (BUMPs b ! j)"
    unfolding used_iff by blast
  then show ?thesis
  proof cases
    case 1
    then show ?thesis using index by blast
  next
    case 2
    then obtain l h where "l \<in> set (hd (Path (BUMPs b ! j)))" "Hash l = Some h" "h \<in> set (needed b)"
      by (cases "Path (BUMPs b ! j)") (auto simp: has_needed_leaf_def split: option.splits)
    then show ?thesis using leaf 2 unfolding needed_iff by blast
  qed
qed

text \<open>The path of an entry with an index is kept, at the new index; an index that is out of range stays so.\<close>

lemma renumber_index:
  assumes "(k, btx) \<in> set (Transactions b)" "beefFormat btx = RawTxAndBumpIndex"
  shows "if 0 \<le> BumpIndex btx \<and> BumpIndex btx < int (length (BUMPs b))
    then \<exists>j<length (kept b). BumpIndex (renumber b btx) = int j \<and> BUMPs b ! (kept b ! j) = BUMPs b ! nat (BumpIndex btx)
    else BumpIndex (renumber b btx) = BumpIndex btx"
proof (cases "0 \<le> BumpIndex btx \<and> BumpIndex btx < int (length (BUMPs b))")
  case True
  have "BumpIndex btx \<in> set (used_indices b)"
    using assms unfolding used_iff by blast
  then have "nat (BumpIndex btx) \<in> set (kept b)"
    using True by (simp add: kept_used nat_less_iff)
  then obtain j where j: "j < length (kept b)" "kept b ! j = nat (BumpIndex btx)"
    by (auto simp: in_set_conv_nth)
  then have "map_of (zip (map int (kept b)) (map int [0 ..< length (kept b)])) (BumpIndex btx) = Some (int j)"
    using new_index_at [OF distinct_kept j(1)] True by simp
  then show ?thesis
    using True assms(2) j by (auto simp: renumber_def)
next
  case False
  then have "BumpIndex btx \<notin> int ` set (kept b)"
    by (auto simp: kept_used)
  then have none: "map_of (zip (map int (kept b)) (map int [0 ..< length (kept b)])) (BumpIndex btx) = None"
    by simp
  show ?thesis
    unfolding if_not_P [OF False] renumber_def none by simp
qed

lemma txids_in_bump_hash: "k \<in> set (txids_in_bump mp) \<Longrightarrow> Path mp \<noteq> [] \<and> (\<exists>l\<in>set (hd (Path mp)). Hash l = Some k)"
  by (cases "Path mp") (auto simp: txids_in_bump_def map_filter_def split: if_splits)

text \<open>An entry without an index: the path that has it as a leaf is kept.\<close>

lemma needed_kept:
  assumes "keyed sha b" "(k, btx) \<in> set (Transactions b)" "beefFormat btx \<noteq> RawTxAndBumpIndex" "i < length (BUMPs b)"
    "\<exists>l\<in>set (hd (Path (BUMPs b ! i))). Hash l = Some k"
  shows "i \<in> set (kept b)"
proof -
  have "entry_ok sha k btx" "Path (BUMPs b ! i) \<noteq> []"
    using assms(1,2,4) by (auto simp: keyed_def)
  moreover have "k \<in> set (needed b)"
    using assms(2,3) calculation(1) unfolding needed_iff
    by (intro bexI [of _ "(k, btx)"]) (cases "beefFormat btx"; simp add: entry_ok_def)+
  ultimately have "has_needed_leaf (needed b) (BUMPs b ! i)"
    using assms(5) by (cases "Path (BUMPs b ! i)") (auto simp: has_needed_leaf_def split: option.splits)
  then show ?thesis
    using assms(4) by (simp add: kept_used used_iff)
qed

lemma by_bump_trimmed:
  assumes "keyed sha b" "(k, btx) \<in> set (Transactions b)"
  shows "by_bump (trimmed b) k (renumber b btx) \<longleftrightarrow> by_bump b k btx"
proof (cases "beefFormat btx = RawTxAndBumpIndex")
  case True
  then show ?thesis
    using renumber_index [OF assms(2) True] length_kept [of b]
    by (auto simp: by_bump_def trimmed_def split: if_splits)
next
  case False
  have "k \<in> set (txidsInBumps (trimmed b)) \<longleftrightarrow> k \<in> set (txidsInBumps b)"
  proof
    assume "k \<in> set (txidsInBumps (trimmed b))"
    then show "k \<in> set (txidsInBumps b)"
      by (auto simp: txidsInBumps_def trimmed_def kept_used)
  next
    assume "k \<in> set (txidsInBumps b)"
    then obtain mp where "mp \<in> set (BUMPs b)" "k \<in> set (txids_in_bump mp)"
      by (auto simp: txidsInBumps_def)
    then obtain i where "i < length (BUMPs b)" "k \<in> set (txids_in_bump (BUMPs b ! i))"
      by (auto simp: in_set_conv_nth [of mp])
    moreover from this have "i \<in> set (kept b)"
      using needed_kept [OF assms False] txids_in_bump_hash by blast
    ultimately show "k \<in> set (txidsInBumps (trimmed b))"
      by (auto simp: txidsInBumps_def trimmed_def)
  qed
  then show ?thesis using False by (simp add: by_bump_def)
qed

text \<open>Only the index of an entry and the paths matter for what is grounded.\<close>

lemma grounded_mono:
  assumes "\<And>k btx. (k, btx) \<in> set (Transactions b) \<Longrightarrow> \<exists>btx'. (k, btx') \<in> set (Transactions b') \<and> beefFormat btx' = beefFormat btx
      \<and> beefTransaction btx' = beefTransaction btx \<and> (by_bump b k btx \<longrightarrow> by_bump b' k btx')"
    and "grounded b k"
  shows "grounded b' k"
  using assms(2)
proof induction
  case (proof_path k btx)
  then show ?case using assms(1) [of k btx] by (auto intro: grounded.proof_path)
next
  case (spends k btx)
  then obtain btx' where "(k, btx') \<in> set (Transactions b')" "beefFormat btx' = beefFormat btx" "beefTransaction btx' = beefTransaction btx"
    using assms(1) [of k btx] by auto
  then show ?case using spends by (auto intro!: grounded.spends [of k btx'])
qed

lemma set_trimmed: "set (Transactions (trimmed b)) = (\<lambda>(k, btx). (k, renumber b btx)) ` set (Transactions b)"
  by (simp add: trimmed_def)

lemma grounded_trimmed:
  assumes "keyed sha b"
  shows "grounded (trimmed b) k \<longleftrightarrow> grounded b k"
proof
  show "grounded b k" if "grounded (trimmed b) k"
    by (rule grounded_mono [OF _ that]) (use by_bump_trimmed [OF assms] in \<open>auto simp: set_trimmed\<close>)
  show "grounded (trimmed b) k" if "grounded b k"
    by (rule grounded_mono [OF _ that]) (use by_bump_trimmed [OF assms] in \<open>force simp: set_trimmed\<close>)
qed

lemma keyed_trimmed:
  assumes "keyed sha b"
  shows "keyed sha (trimmed b)"
proof -
  have "map fst (Transactions (trimmed b)) = map fst (Transactions b)"
    by (simp add: trimmed_def case_prod_unfold comp_def)
  moreover have "\<forall>mp\<in>set (BUMPs (trimmed b)). mp \<in> set (BUMPs b)"
    by (auto simp: trimmed_def kept_used)
  ultimately show ?thesis
    using assms by (auto simp: keyed_def set_trimmed intro: entry_ok_same)
qed

text \<open>The entry \<open>btx\<close> stored under \<open>k\<close> refers to the path at position \<open>i\<close>.\<close>

definition refers :: "Beef \<Rightarrow> bytes \<Rightarrow> BeefTx \<Rightarrow> nat \<Rightarrow> bool" where
  "refers b k btx i = (if beefFormat btx = RawTxAndBumpIndex then BumpIndex btx = int i
     else \<exists>l\<in>set (hd (Path (BUMPs b ! i))). Hash l = Some k)"

definition in_range :: "Beef \<Rightarrow> bool" where
  "in_range b = (\<forall>(k, btx)\<in>set (Transactions b). beefFormat btx = RawTxAndBumpIndex \<longrightarrow> 0 \<le> BumpIndex btx \<and> BumpIndex btx < int (length (BUMPs b)))"

lemma used_refers:
  assumes "keyed sha b" "int i \<in> set (used_indices b)"
  shows "\<exists>(k, btx)\<in>set (Transactions b). refers b k btx i"
  using assms(2)
proof (cases rule: used_cases)
  case (index k btx)
  then show ?thesis by (auto simp: refers_def)
next
  case (leaf j k btx h)
  moreover have "entry_ok sha k btx" using assms(1) leaf by (auto simp: keyed_def)
  ultimately have "refers b k btx i" by (auto simp: refers_def entry_ok_def split: if_splits)
  then show ?thesis using leaf by blast
qed

lemma refers_trimmed:
  assumes "keyed sha b" "i < length (kept b)"
  shows "\<exists>(k, btx)\<in>set (Transactions (trimmed b)). refers (trimmed b) k btx i"
proof -
  have "kept b ! i \<in> set (kept b)" using assms(2) by simp
  then obtain k btx where e: "(k, btx) \<in> set (Transactions b)" "refers b k btx (kept b ! i)"
    using used_refers [OF assms(1)] unfolding kept_used by blast
  have "refers (trimmed b) k (renumber b btx) i"
  proof (cases "beefFormat btx = RawTxAndBumpIndex")
    case True
    then have "BumpIndex btx = int (kept b ! i)" using e(2) by (simp add: refers_def)
    then show ?thesis using True new_index_at [OF distinct_kept assms(2)] by (simp add: refers_def renumber_def)
  next
    case False
    then show ?thesis using e(2) assms(2) by (simp add: refers_def trimmed_def)
  qed
  then show ?thesis using e(1) by (force simp: set_trimmed)
qed

lemma used_all:
  assumes "in_range b" "length (used_indices b) = length (BUMPs b)" "i < length (BUMPs b)"
  shows "int i \<in> set (used_indices b)"
proof -
  have sub: "set (used_indices b) \<subseteq> int ` {..<length (BUMPs b)}"
  proof
    fix x assume "x \<in> set (used_indices b)"
    then show "x \<in> int ` {..<length (BUMPs b)}"
    proof (cases rule: used_cases)
      case (index k btx)
      then have "0 \<le> x" "x < int (length (BUMPs b))" using assms(1) by (auto simp: in_range_def)
      then show ?thesis by (intro image_eqI [of _ _ "nat x"]) auto
    qed auto
  qed
  have "distinct (used_indices b)" by (simp add: used_indices_def Let_def)
  then have "card (set (used_indices b)) = card (int ` {..<length (BUMPs b)})"
    using assms(2) by (simp add: distinct_card card_image)
  then have "set (used_indices b) = int ` {..<length (BUMPs b)}"
    using sub by (intro card_subset_eq) auto
  then show ?thesis using assms(3) by auto
qed

text \<open>(C13) Trimming the paths of a container renumbers the entries so that nothing changes for them: the same transactions are grounded. If the indices are in range,
  every path that remains is referred to by an entry.\<close>

theorem trimming_keeps_proofs:
  assumes "keyed sha b"
  shows "keyed sha (trimUnreferencedBumps b)
    \<and> (\<forall>k. grounded (trimUnreferencedBumps b) k \<longleftrightarrow> grounded b k)
    \<and> (in_range b \<longrightarrow> (\<forall>i<length (BUMPs (trimUnreferencedBumps b)).
         \<exists>(k, btx)\<in>set (Transactions (trimUnreferencedBumps b)). refers (trimUnreferencedBumps b) k btx i))"
proof (cases "BUMPs b = [] \<or> length (used_indices b) = length (BUMPs b)")
  case True
  then show ?thesis
    using assms used_all [of b] used_refers [OF assms] by (auto simp: trim_cases)
next
  case False
  then show ?thesis
    using keyed_trimmed [OF assms] grounded_trimmed [OF assms] refers_trimmed [OF assms]
    by (simp add: trim_cases) (simp add: trimmed_def)
qed

subsection \<open>Merging\<close>

lemma read_n_sources: "read_n (TxIn_readFrom ext) n r = Inr (ins, k, r') \<Longrightarrow> \<forall>i\<in>set ins. SourceTXID i \<noteq> None"
proof (induction n arbitrary: r ins k)
  case (Suc n)
  have "SourceTXID i \<noteq> None" if "TxIn_readFrom ext r = (Inr (i, k, r1) :: 'a fault + _)" for r i k r1
    using that by (cases ext) (auto simp: TxIn_readFrom_def SetSourceTxOutput_def Let_def res_simps)
  with Suc show ?case by (auto simp: res_simps)
qed simp

lemma read_sources:
  assumes "Tx_ReadFrom r = (Inr (tx, n, r') :: 's fault + _)"
  shows "\<forall>i\<in>set (Inputs tx). SourceTXID i \<noteq> None"
proof -
  have rest: "\<forall>i\<in>set (Inputs tx). SourceTXID i \<noteq> None" if "read_rest v ext ic oc m r = (Inr (tx, n, r') :: 's fault + _)" for v ext ic oc m r
  proof -
    from that obtain ins k r1 where "read_n (TxIn_readFrom ext) (unat ic) r = (Inr (ins, k, r1) :: 's fault + _)" "Inputs tx = ins"
      by (auto simp: read_rest_def res_simps)
    then show ?thesis using read_n_sources by metis
  qed
  obtain v r1 ic r2 where 1: "ReadFull 4 r = (Inr (v, 4, r1) :: 's fault + _)" "VarInt_ReadFrom r1 = (Inr (ic, r2) :: 's fault + _)"
    using assms unfolding Tx_ReadFrom_def by (auto simp: res_simps ReadFull_Inr)
  show ?thesis
    using assms unfolding Tx_ReadFrom_def
    by (auto simp: res_simps rest split: if_splits dest!: rest)
qed

lemma with_MerklePath_id: "MerklePath tx = mp \<Longrightarrow> with_MerklePath tx mp = tx"
  by (cases tx) (simp add: with_MerklePath_def)

lemma with_MerklePath_twice [simp]: "with_MerklePath (with_MerklePath tx mp) mp' = with_MerklePath tx mp'"
  by (simp add: with_MerklePath_def)

lemma tryToValidate_Inr:
  assumes "tryToValidateBumpIndex btx h = (Inr e :: unit fault + _)" "beefTransaction btx = Some tx"
  shows "\<exists>mp. e = btx\<lparr>beefTransaction := Some (with_MerklePath tx mp)\<rparr>"
proof -
  have "e = btx\<lparr>beefTransaction := Some (with_MerklePath tx (MerklePath tx))\<rparr> \<or> e = btx\<lparr>beefTransaction := Some (with_MerklePath tx None)\<rparr>"
    using assms by (cases btx) (auto simp: tryToValidateBumpIndex_def with_MerklePath_id res_simps split: option.split_asm if_split_asm)
  then show ?thesis by blast
qed

lemma MergeRawTx_cases:
  assumes "MergeRawTx sha b raw ix = (Inr (e, b') :: unit fault + _)"
  obtains tx n r k mp where "Tx_ReadFrom raw = (Inr (tx, n, r) :: unit fault + _)" "txid_of sha tx = (Inr k :: unit fault + _)"
    "e = \<lparr>beefFormat = (if ix = None then RawTx else RawTxAndBumpIndex), KnownTxID = None, beefTransaction = Some (with_MerklePath tx mp), BumpIndex = 0\<rparr>"
    "b' = put_tx (RemoveExistingTxid b (Some k)) k e"
proof -
  obtain tx n r where 1: "Tx_ReadFrom raw = (Inr (tx, n, r) :: unit fault + _)"
    using assms unfolding MergeRawTx_def by (auto simp: res_simps)
  obtain k where 2: "txid_of sha tx = (Inr k :: unit fault + _)"
    using assms 1 unfolding MergeRawTx_def by (auto simp: res_simps)
  have "\<exists>mp0. tryToValidateBumpIndex \<lparr>beefFormat = (if ix = None then RawTx else RawTxAndBumpIndex), KnownTxID = None,
      beefTransaction = Some (with_MerklePath tx mp0), BumpIndex = 0\<rparr> k = (Inr e :: unit fault + _)
    \<and> b' = put_tx (RemoveExistingTxid b (Some k)) k e"
  proof (cases ix)
    case None
    then show ?thesis
      using assms 1 2 unfolding MergeRawTx_def Let_def
      by (intro exI [of _ "MerklePath tx"]) (auto simp: res_simps with_MerklePath_id)
  next
    case (Some i)
    then show ?thesis
      using assms 1 2 unfolding MergeRawTx_def Let_def by (auto simp: res_simps split: if_split_asm)
  qed
  then obtain mp0 where e: "tryToValidateBumpIndex \<lparr>beefFormat = (if ix = None then RawTx else RawTxAndBumpIndex), KnownTxID = None,
      beefTransaction = Some (with_MerklePath tx mp0), BumpIndex = 0\<rparr> k = (Inr e :: unit fault + _)"
    and b': "b' = put_tx (RemoveExistingTxid b (Some k)) k e" by blast
  obtain mp where "e = \<lparr>beefFormat = (if ix = None then RawTx else RawTxAndBumpIndex), KnownTxID = None,
      beefTransaction = Some (with_MerklePath tx mp), BumpIndex = 0\<rparr>"
    using tryToValidate_Inr [OF e, of "with_MerklePath tx mp0"] by auto
  then show ?thesis using that 1 2 b' by blast
qed

text \<open>The index that \<open>MergeRawTx\<close> is given is not stored: the entry says that it has one, and has index 0.\<close>

lemma MergeRawTx_loses_index:
  assumes "MergeRawTx sha b raw (Some i) = (Inr (e, b') :: unit fault + _)"
  shows "beefFormat e = RawTxAndBumpIndex \<and> BumpIndex e = 0"
  using assms by (elim MergeRawTx_cases) simp

lemma MergeRawTx_keeps:
  assumes "keyed sha b" "MergeRawTx sha b raw ix = (Inr (e, b') :: unit fault + _)"
  shows "keyed sha b' \<and> (\<exists>k. entry_ok sha k e \<and> findTxid b' (Some k) = Some e \<and> (\<forall>h. h \<noteq> k \<longrightarrow> findTxid b' (Some h) = findTxid b (Some h)))"
  using assms(2)
proof (rule MergeRawTx_cases)
  fix tx n r k mp
  assume tx: "Tx_ReadFrom raw = (Inr (tx, n, r) :: unit fault + _)" "txid_of sha tx = (Inr k :: unit fault + _)"
    and e: "e = \<lparr>beefFormat = (if ix = None then RawTx else RawTxAndBumpIndex), KnownTxID = None, beefTransaction = Some (with_MerklePath tx mp), BumpIndex = 0\<rparr>"
    and b': "b' = put_tx (RemoveExistingTxid b (Some k)) k e"
  have "entry_ok sha k e"
    using tx read_sources [OF tx(1)] by (simp add: entry_ok_def e)
  moreover have "map_of (filter (\<lambda>(x, _). x \<noteq> k) xs) h = map_of xs h" if "h \<noteq> k" for h and xs :: "(bytes \<times> BeefTx) list"
    using that by (induction xs) auto
  moreover from calculation(1) have "keyed sha b'"
    using assms(1) by (simp add: b' keyed_put_tx keyed_Remove)
  ultimately show ?thesis
    by (auto simp: b' findTxid_def put_tx_def RemoveExistingTxid_def update_conv)
qed

lemma txid_only_eq:
  assumes "\<forall>(k, btx)\<in>set xs. entry_ok sha k btx"
  shows "txid_only sha xs = (Inr (map (\<lambda>(k, _). (k, \<lparr>beefFormat = TxIDOnly, KnownTxID = Some k, beefTransaction = None, BumpIndex = 0\<rparr>)) xs) :: unit fault + _)"
  using assms
proof (induction xs)
  case (Cons x xs)
  then show ?case
    by (cases x) (auto simp: entry_ok_def txid_of_def res_simps split: if_split_asm option.split_asm)
qed simp



theorem trimming_keeps_proofs_witness:
  "grounded (trimUnreferencedBumps (demo_beef True)) mined_id"
proof -
  have "grounded (demo_beef True) mined_id"
    by (rule grounded.proof_path) (auto simp: demo_beef_def by_bump_def)
  then show ?thesis
    using trimming_keeps_proofs [OF demo_keyed [of True]] by blast
qed

end
