(* ===== verification/Beef_Wire.thy ===== *)
theory Beef_Wire
  imports Beef Merkle_Bytes
begin

text \<open>
  The wire formats of \<^verbatim>\<open>transaction/beef.go\<close> and \<^verbatim>\<open>transaction.go\<close>: a transaction written with its ancestors and merkle paths (\<open>BEEF\<close>, \<open>AtomicBEEF\<close>), the
  readers of both versions, and what a reader restores.

  Transactions and merkle paths are values here: two transactions that share a path object hold equal paths, and \<open>Combine\<close> changes the collected path
  and not the transaction that it came from. The bytes do not depend on this, since the bytes of a transaction do not contain its path.
\<close>

type_synonym txs = "(bytes \<times> Transaction) list"

definition deref :: "'a option \<Rightarrow> 's fault + 'a" where
  "deref p = (case p of None \<Rightarrow> Inl Panic | Some x \<Rightarrow> Inr x)"

subsection \<open>Collecting the ancestors\<close>

text \<open>The loop that keeps the first occurrence of each id; \<open>found\<close> has the keys of the map of that name.\<close>

primrec dedup :: "bytes list \<Rightarrow> bytes list \<Rightarrow> bytes list" where
  "dedup found [] = []"
| "dedup found (x # xs) = (if x \<in> set found then dedup found xs else x # dedup (x # found) xs)"

lemma source_size: "SourceTransaction i = Some s \<Longrightarrow> size s < size i"
  by (cases i) auto

lemma inputs_size: "size_list size (Inputs t) < size t"
  by (cases t) auto

text \<open>\<open>collect_inputs\<close> is the loop over the inputs; the map \<open>txns\<close> is threaded through it.\<close>

function (sequential)
  collectAncestors :: "(bytes \<Rightarrow> bytes) \<Rightarrow> Transaction \<Rightarrow> bytes option \<Rightarrow> txs \<Rightarrow> bool \<Rightarrow> 's fault + bytes list \<times> txs"
  and collect_inputs :: "(bytes \<Rightarrow> bytes) \<Rightarrow> Transaction \<Rightarrow> TransactionInput list \<Rightarrow> txs \<Rightarrow> bool \<Rightarrow> bytes list \<Rightarrow> 's fault + bytes list \<times> txs" where
  "collectAncestors sha t txid txns allowPartial =
     rbind (case txid of None \<Rightarrow> TxID sha t | Some h \<Rightarrow> Inr (Some h)) (\<lambda>txid.
       if MerklePath t \<noteq> None then rbind (deref txid) (\<lambda>h. Inr ([h], txns))
       else rbind (collect_inputs sha t (Inputs t) txns allowPartial []) (\<lambda>(ancestors, txns).
         rbind (deref txid) (\<lambda>h. Inr (dedup [] (ancestors @ [h]), txns))))"
| "collect_inputs sha t [] txns allowPartial ancestors = Inr (ancestors, txns)"
| "collect_inputs sha t (i # ins) txns allowPartial ancestors = (case SourceTransaction i of
     None \<Rightarrow> if allowPartial then collect_inputs sha t ins txns allowPartial ancestors
       else rbind (TxID sha t) (\<lambda>_. Inl (FailTx ErrBeefMissingPrevious))
   | Some s \<Rightarrow> (case SourceTXID i of None \<Rightarrow> Inl Panic
       | Some h \<Rightarrow> rbind (collectAncestors sha s (Some h) (AList.update h s txns) allowPartial) (\<lambda>(grands, txns).
           collect_inputs sha t ins txns allowPartial (grands @ ancestors))))"
  by pat_completeness auto

termination
  by (relation "measure (\<lambda>x. case x of Inl (sha, t, txid, txns, p) \<Rightarrow> size t | Inr (sha, t, ins, txns, p, acc) \<Rightarrow> size_list size ins)")
    (auto simp: inputs_size dest: source_size)

declare collectAncestors.simps [simp del]

text \<open>The merkle paths of the ancestors, one for each block height, and their positions.\<close>

primrec collect_bumps :: "(bytes \<Rightarrow> bytes) \<Rightarrow> txs \<Rightarrow> bytes list \<Rightarrow> MerklePath list \<Rightarrow> (u32 \<times> nat) list \<Rightarrow> 's fault + MerklePath list \<times> (u32 \<times> nat) list" where
  "collect_bumps sha txns [] bumps bumpMap = Inr (bumps, bumpMap)"
| "collect_bumps sha txns (txid # ids) bumps bumpMap = (case map_of txns txid of None \<Rightarrow> Inl Panic
   | Some tx \<Rightarrow> (case MerklePath tx of None \<Rightarrow> collect_bumps sha txns ids bumps bumpMap
     | Some mp \<Rightarrow> (case map_of bumpMap (BlockHeight mp) of
         None \<Rightarrow> collect_bumps sha txns ids (bumps @ [mp]) ((BlockHeight mp, length bumps) # bumpMap)
       | Some k \<Rightarrow> rbind (Combine sha (bumps ! k) mp) (\<lambda>mp'. collect_bumps sha txns ids (bumps[k := mp']) bumpMap))))"

text \<open>What \<open>BEEF\<close>, \<open>AtomicBEEF\<close> and \<open>NewBeefFromTransaction\<close> have in common. A height that is not in the map has index 0.\<close>

definition gather :: "(bytes \<Rightarrow> bytes) \<Rightarrow> Transaction \<Rightarrow> bytes option \<Rightarrow> bool \<Rightarrow> 's fault + bytes list \<times> txs \<times> MerklePath list \<times> (u32 \<times> nat) list" where
  "gather sha t txid allowPartial =
     rbind (txid_of sha t) (\<lambda>h.
     rbind (collectAncestors sha t txid [(h, t)] allowPartial) (\<lambda>(ancestors, txns).
     rbind (collect_bumps sha txns ancestors [] []) (\<lambda>(bumps, bumpMap). Inr (ancestors, txns, bumps, bumpMap))))"

definition bump_of :: "(u32 \<times> nat) list \<Rightarrow> MerklePath \<Rightarrow> nat" where
  "bump_of bumpMap mp = (case map_of bumpMap (BlockHeight mp) of None \<Rightarrow> 0 | Some k \<Rightarrow> k)"

subsection \<open>Writing\<close>

definition write_v1 :: "(u32 \<times> nat) list \<Rightarrow> Transaction \<Rightarrow> 's fault + bytes" where
  "write_v1 bumpMap tx = rbind (Tx_Bytes tx) (\<lambda>b.
     Inr (b @ (case MerklePath tx of Some mp \<Rightarrow> 1 # VarInt_Bytes (word_of_nat (bump_of bumpMap mp)) | None \<Rightarrow> [0])))"

definition write_v2 :: "(u32 \<times> nat) list \<Rightarrow> Transaction \<Rightarrow> 's fault + bytes" where
  "write_v2 bumpMap tx = rbind (Tx_Bytes tx) (\<lambda>b.
     Inr ((case MerklePath tx of Some mp \<Rightarrow> 1 # VarInt_Bytes (word_of_nat (bump_of bumpMap mp)) | None \<Rightarrow> [0]) @ b))"

definition write_parts :: "(Transaction \<Rightarrow> 's fault + bytes) \<Rightarrow> bytes list \<Rightarrow> txs \<Rightarrow> MerklePath list \<Rightarrow> 's fault + bytes" where
  "write_parts wr ancestors txns bumps =
     rbind (rmap MerklePath_Bytes bumps) (\<lambda>bs.
     rbind (rmap (\<lambda>txid. rbind (deref (map_of txns txid)) wr) ancestors) (\<lambda>ts.
       Inr (VarInt_Bytes (varlen bumps) @ concat bs @ VarInt_Bytes (varlen txns) @ concat ts)))"

definition BEEF :: "(bytes \<Rightarrow> bytes) \<Rightarrow> Transaction \<Rightarrow> 's fault + bytes" where
  "BEEF sha t = rbind (gather sha t None False) (\<lambda>(ancestors, txns, bumps, bumpMap).
     rbind (write_parts (write_v1 bumpMap) ancestors txns bumps) (\<lambda>b. Inr (PutUint32 BEEF_V1 @ b)))"

definition AtomicBEEF :: "(bytes \<Rightarrow> bytes) \<Rightarrow> Transaction \<Rightarrow> bool \<Rightarrow> 's fault + bytes" where
  "AtomicBEEF sha t allowPartial = rbind (txid_of sha t) (\<lambda>h.
     rbind (gather sha t (Some h) allowPartial) (\<lambda>(ancestors, txns, bumps, bumpMap).
     rbind (write_parts (write_v2 bumpMap) ancestors txns bumps) (\<lambda>b.
       Inr (PutUint32 ATOMIC_BEEF @ h @ PutUint32 BEEF_V2 @ b))))"

definition NewBeefFromTransaction :: "(bytes \<Rightarrow> bytes) \<Rightarrow> Transaction \<Rightarrow> 's fault + Beef" where
  "NewBeefFromTransaction sha t = rbind (txid_of sha t) (\<lambda>h.
     rbind (gather sha t (Some h) False) (\<lambda>(ancestors, txns, bumps, bumpMap).
     rbind (rmap (\<lambda>txid. rbind (deref (map_of txns txid)) (\<lambda>tx.
         Inr (txid, case MerklePath tx of
             Some mp \<Rightarrow> \<lparr>beefFormat = RawTxAndBumpIndex, KnownTxID = None, beefTransaction = Some tx, BumpIndex = int (bump_of bumpMap mp)\<rparr>
           | None \<Rightarrow> \<lparr>beefFormat = RawTx, KnownTxID = None, beefTransaction = Some tx, BumpIndex = 0\<rparr>))) ancestors) (\<lambda>entries.
       Inr (NewBeefV2\<lparr>BUMPs := bumps, Transactions := fold (\<lambda>(k, e). AList.update k e) entries []\<rparr>))))"

subsection \<open>Reading\<close>

definition readVersion :: "bytes \<Rightarrow> 's fault + u32 \<times> bytes" where
  "readVersion r = rbind (ReadFull 4 r) (\<lambda>(b, _, r). let version = Uint32 b in
     if version \<noteq> BEEF_V1 \<and> version \<noteq> BEEF_V2 then Inl (FailTx ErrBeefVersion) else Inr (version, r))"

primrec read_bumps :: "nat \<Rightarrow> bytes \<Rightarrow> 's fault + MerklePath list \<times> bytes" where
  "read_bumps 0 r = Inr ([], r)"
| "read_bumps (Suc n) r = rbind (NewMerklePathFromReader r) (\<lambda>(mp, r). rbind (read_bumps n r) (\<lambda>(mps, r). Inr (mp # mps, r)))"

definition readBUMPs :: "bytes \<Rightarrow> 's fault + MerklePath list \<times> bytes" where
  "readBUMPs r = rbind (VarInt_ReadFrom r) (\<lambda>(numberOfBUMPs, _, r).
     if 8 * unat numberOfBUMPs > maxAlloc then Inl Panic else read_bumps (unat numberOfBUMPs) r)"

text \<open>\<open>BUMPs[int(index)]\<close>, and the number of rounds of a loop up to \<open>int(n)\<close>.\<close>

definition bump_at :: "MerklePath list \<Rightarrow> VarInt \<Rightarrow> 's fault + MerklePath" where
  "bump_at bumps index = (let i = i64 (uint index) in if i < 0 \<or> i \<ge> int (length bumps) then Inl Panic else Inr (bumps ! nat i))"

definition rounds :: "VarInt \<Rightarrow> nat" where
  "rounds n = nat (i64 (uint n))"

definition with_source :: "TransactionInput \<Rightarrow> Transaction option \<Rightarrow> TransactionInput" where
  "with_source i s = TransactionInput (SourceTXID i) (UnlockingScript i) (SourceTxOutIndex i) (SequenceNumber i) s (sourceOutput i) (UnlockingScriptTemplate i)"

text \<open>The loop that sets the source transactions of the inputs; \<open>find\<close> looks an id up among the transactions read so far.\<close>

definition link_input :: "(bytes \<Rightarrow> Transaction option option) \<Rightarrow> TransactionInput \<Rightarrow> 's fault + TransactionInput" where
  "link_input lookup i = rbind (deref (SourceTXID i)) (\<lambda>h. Inr (case lookup h of None \<Rightarrow> i | Some s \<Rightarrow> with_source i s))"

definition link_sources :: "(bytes \<Rightarrow> Transaction option option) \<Rightarrow> Transaction \<Rightarrow> 's fault + Transaction" where
  "link_sources lookup tx = rbind (rmap (link_input lookup) (Inputs tx)) (\<lambda>ins. Inr (with_Inputs tx ins))"

primrec read_txs :: "(bytes \<Rightarrow> bytes) \<Rightarrow> MerklePath list \<Rightarrow> nat \<Rightarrow> bytes \<Rightarrow> txs \<Rightarrow> Transaction option \<Rightarrow> 's fault + txs \<times> Transaction option" where
  "read_txs sha bumps 0 r transactions lastTx = Inr (transactions, lastTx)"
| "read_txs sha bumps (Suc n) r transactions lastTx =
     rbind (Tx_ReadFrom r) (\<lambda>(tx, _, r).
     rbind (TxID sha tx) (\<lambda>txid.
     rbind (ReadFull 1 r) (\<lambda>(hasBump, _, r).
     rbind (if hasBump ! 0 \<noteq> 0 then rbind (VarInt_ReadFrom r) (\<lambda>(pathIndex, _, r).
              rbind (bump_at bumps pathIndex) (\<lambda>mp. Inr (with_MerklePath tx (Some mp), r)))
            else Inr (tx, r)) (\<lambda>(tx, r).
     rbind (link_sources (\<lambda>h. map_option Some (map_of transactions h)) tx) (\<lambda>tx.
     rbind (deref txid) (\<lambda>h.
       read_txs sha bumps n r (AList.update h tx transactions) (Some tx)))))))"

definition readAllTransactions :: "(bytes \<Rightarrow> bytes) \<Rightarrow> bytes \<Rightarrow> MerklePath list \<Rightarrow> 's fault + txs \<times> Transaction option" where
  "readAllTransactions sha r bumps = rbind (VarInt_ReadFrom r) (\<lambda>(numberOfTransactions, _, r). read_txs sha bumps (rounds numberOfTransactions) r [] None)"

definition readTransactionsGetLast :: "(bytes \<Rightarrow> bytes) \<Rightarrow> bytes \<Rightarrow> MerklePath list \<Rightarrow> 's fault + Transaction option" where
  "readTransactionsGetLast sha r bumps = rbind (readAllTransactions sha r bumps) (\<lambda>(_, tx). Inr tx)"

text \<open>The case of version 1 in \<open>NewTransactionFromBEEF\<close>, after the version.\<close>

definition from_BEEF_V1 :: "(bytes \<Rightarrow> bytes) \<Rightarrow> bytes \<Rightarrow> 's fault + Transaction option" where
  "from_BEEF_V1 sha r = rbind (readBUMPs r) (\<lambda>(bumps, r). readTransactionsGetLast sha r bumps)"

definition readBeefTxIDOnly :: "bytes \<Rightarrow> BeefTx \<Rightarrow> 's fault + bytes \<times> BeefTx \<times> bytes" where
  "readBeefTxIDOnly r beefTx = rbind (Read_hash r) (\<lambda>(txid, _, r). Inr (txid, beefTx\<lparr>KnownTxID := Some txid\<rparr>, r))"

definition readBeefTxFull :: "(bytes \<Rightarrow> bytes) \<Rightarrow> bytes \<Rightarrow> BeefTx \<Rightarrow> MerklePath list \<Rightarrow> (bytes \<times> BeefTx) list \<Rightarrow> 's fault + bytes option \<times> BeefTx \<times> bytes" where
  "readBeefTxFull sha r beefTx bumps txs =
     (let bump = beefFormat beefTx = RawTxAndBumpIndex
      in rbind (if bump then VarInt_ReadFrom r else Inr (0, 0, r)) (\<lambda>(bumpIndex, _, r).
         let beefTx = (if bump then beefTx\<lparr>BumpIndex := i64 (uint bumpIndex)\<rparr> else beefTx)
         in rbind (Tx_ReadFrom r) (\<lambda>(tx, _, r).
            rbind (if bump then rbind (bump_at bumps bumpIndex) (\<lambda>mp. Inr (with_MerklePath tx (Some mp))) else Inr tx) (\<lambda>tx.
            rbind (link_sources (\<lambda>h. map_option beefTransaction (map_of txs h)) tx) (\<lambda>tx.
            rbind (TxID sha tx) (\<lambda>txid. Inr (txid, beefTx\<lparr>beefTransaction := Some tx\<rparr>, r)))))))"

definition format_of :: "byte \<Rightarrow> DataFormat option" where
  "format_of b = (if b = 0 then Some RawTx else if b = 1 then Some RawTxAndBumpIndex else if b = 2 then Some TxIDOnly else None)"

primrec read_entries :: "(bytes \<Rightarrow> bytes) \<Rightarrow> MerklePath list \<Rightarrow> nat \<Rightarrow> bytes \<Rightarrow> (bytes \<times> BeefTx) list \<Rightarrow> bytes option \<Rightarrow> 's fault + (bytes \<times> BeefTx) list \<times> bytes option" where
  "read_entries sha bumps 0 r txs lastTxID = Inr (txs, lastTxID)"
| "read_entries sha bumps (Suc n) r txs lastTxID =
     rbind (ReadFull 1 r) (\<lambda>(formatByte, _, r). case format_of (formatByte ! 0) of None \<Rightarrow> Inl (FailTx ErrBeefFormat)
       | Some f \<Rightarrow>
         let beefTx = \<lparr>beefFormat = f, KnownTxID = None, beefTransaction = Some (Transaction 0 [] [] 0 None), BumpIndex = 0\<rparr>
         in rbind (if f = TxIDOnly then rbind (readBeefTxIDOnly r beefTx) (\<lambda>(txid, e, r). Inr (Some txid, e, r))
                   else readBeefTxFull sha r beefTx bumps txs) (\<lambda>(txid, e, r).
            rbind (deref txid) (\<lambda>h. read_entries sha bumps n r (AList.update h e txs) txid)))"

definition readBeefTx :: "(bytes \<Rightarrow> bytes) \<Rightarrow> bytes \<Rightarrow> MerklePath list \<Rightarrow> 's fault + (bytes \<times> BeefTx) list \<times> bytes option" where
  "readBeefTx sha r bumps = rbind (VarInt_ReadFrom r) (\<lambda>(numberOfTransactions, _, r). read_entries sha bumps (rounds numberOfTransactions) r [] None)"

text \<open>The entry of a transaction that was read in version 1: the index of the last path that has its id as a leaf, or -1.\<close>

definition last_bump :: "MerklePath list \<Rightarrow> bytes \<Rightarrow> int" where
  "last_bump bumps h = (case filter (\<lambda>i. \<exists>l\<in>set (Path (bumps ! i) ! 0). Hash l = Some h) [0 ..< length bumps] of [] \<Rightarrow> -1 | js \<Rightarrow> int (last js))"

definition v1_entry :: "(bytes \<Rightarrow> bytes) \<Rightarrow> MerklePath list \<Rightarrow> Transaction \<Rightarrow> 's fault + bytes \<times> BeefTx" where
  "v1_entry sha bumps tx = (case MerklePath tx of
     Some _ \<Rightarrow> if \<exists>mp\<in>set bumps. Path mp = [] then Inl Panic
       else rbind (txid_of sha tx) (\<lambda>h. Inr (h, \<lparr>beefFormat = RawTxAndBumpIndex, KnownTxID = None, beefTransaction = Some tx, BumpIndex = last_bump bumps h\<rparr>))
   | None \<Rightarrow> rbind (txid_of sha tx) (\<lambda>h. Inr (h, \<lparr>beefFormat = RawTx, KnownTxID = None, beefTransaction = Some tx, BumpIndex = 0\<rparr>)))"

definition NewBeefFromBytes :: "(bytes \<Rightarrow> bytes) \<Rightarrow> bytes \<Rightarrow> 's fault + Beef" where
  "NewBeefFromBytes sha beef =
     (if length beef < 4 then Inl Panic
      else if Uint32 (take 4 beef) = ATOMIC_BEEF \<and> length beef < 36 then Inl Panic
      else rbind (readVersion (if Uint32 (take 4 beef) = ATOMIC_BEEF then drop 36 beef else beef)) (\<lambda>(version, r).
        rbind (readBUMPs r) (\<lambda>(bumps, r).
          if version = BEEF_V1 then
            rbind (readAllTransactions sha r bumps) (\<lambda>(txs, lastTx).
            rbind (rmap (\<lambda>(_, tx). v1_entry sha bumps tx) txs) (\<lambda>entries.
            rbind (case lastTx of None \<Rightarrow> Inr None | Some tx \<Rightarrow> TxID sha tx) (\<lambda>newest.
              Inr \<lparr>beefVersion = version, BUMPs = bumps, Transactions = fold (\<lambda>(k, e). AList.update k e) entries [], NewestTxID = newest\<rparr>)))
          else rbind (readBeefTx sha r bumps) (\<lambda>(txs, lastTxID).
            Inr \<lparr>beefVersion = version, BUMPs = bumps, Transactions = txs, NewestTxID = lastTxID\<rparr>))))"

definition NewBeefFromAtomicBytes :: "(bytes \<Rightarrow> bytes) \<Rightarrow> bytes \<Rightarrow> 's fault + Beef \<times> bytes" where
  "NewBeefFromAtomicBytes sha beef =
     (if length beef < 36 then Inl (FailTx ErrEOF)
      else if Uint32 (take 4 beef) \<noteq> ATOMIC_BEEF then Inl (FailTx ErrBeefVersion)
      else rbind (NewBeefFromBytes sha (drop 36 beef)) (\<lambda>b. Inr (b, take 32 (drop 4 beef))))"

text \<open>The first error stands for too few bytes, the second for a version that is not expected.\<close>

definition ParseBeef :: "(bytes \<Rightarrow> bytes) \<Rightarrow> bytes \<Rightarrow> 's fault + Beef \<times> Transaction option \<times> bytes option" where
  "ParseBeef sha beefBytes =
     (if length beefBytes < 4 then Inl (FailTx ErrEOF)
      else let version = Uint32 (take 4 beefBytes)
        in if version = ATOMIC_BEEF then
             (if length beefBytes < 36 then Inl (FailTx ErrEOF)
              else let txid = take 32 (drop 4 beefBytes)
                in rbind (NewBeefFromBytes sha (drop 36 beefBytes)) (\<lambda>b. Inr (b, FindTransactionByHash b (Some txid), Some txid)))
           else if version = BEEF_V1 then
             rbind (from_BEEF_V1 sha (drop 4 beefBytes)) (\<lambda>tx. case tx of None \<Rightarrow> Inl (FailTx ErrBeefNil)
               | Some tx \<Rightarrow> rbind (NewBeefFromTransaction sha tx) (\<lambda>b. rbind (TxID sha tx) (\<lambda>txid. Inr (b, Some tx, txid))))
           else if version = BEEF_V2 then
             rbind (NewBeefFromBytes sha beefBytes) (\<lambda>b. Inr (b, FindTransactionByHash b (NewestTxID b), NewestTxID b))
           else Inl (FailTx ErrBeefVersion))"

end
