(* ===== verification/Beef_Roundtrip.thy ===== *)
theory Beef_Roundtrip
  imports Beef_Wire
begin

text \<open>
  What the writers of \<open>Beef_Wire\<close> write, its readers restore. \<open>collectAncestors\<close> lists every transaction that \<open>t\<close> carries once, each after the
  transactions it spends from, which is what the readers need to link the inputs.
\<close>

subsection \<open>The transactions that a transaction carries\<close>

text \<open>Up to and including the ones that have a merkle path.\<close>

inductive carried :: "Transaction \<Rightarrow> Transaction \<Rightarrow> bool" for t where
  self: "carried t t"
| source: "carried t s \<Longrightarrow> MerklePath s = None \<Longrightarrow> i \<in> set (Inputs s) \<Longrightarrow> SourceTransaction i = Some p \<Longrightarrow> carried t p"

lemma input_size: "i \<in> set (Inputs t) \<Longrightarrow> SourceTransaction i = Some p \<Longrightarrow> size p < size t"
  using size_list_estimation [of i "Inputs t" "size p" size] inputs_size [of t] source_size [of i p] by fastforce

lemma carried_size: "carried t s \<Longrightarrow> size s \<le> size t"
  by (induction rule: carried.induct) (auto dest: input_size)

lemma carried_trans: "carried p s \<Longrightarrow> carried t p \<Longrightarrow> carried t s"
  by (induction rule: carried.induct) (auto intro: carried.source)

lemma carried_step:
  "carried t s \<longleftrightarrow> s = t \<or> (MerklePath t = None \<and> (\<exists>i\<in>set (Inputs t). \<exists>p. SourceTransaction i = Some p \<and> carried p s))"
  (is "_ \<longleftrightarrow> ?R s")
proof
  assume "carried t s"
  then show "?R s"
  proof induction
    case (source s i p)
    then show ?case by (metis carried.self carried.source)
  qed simp
next
  assume "?R s"
  then show "carried t s"
    by (auto intro: carried.self carried_trans carried.source [OF carried.self])
qed

abbreviation tid :: "(bytes \<Rightarrow> bytes) \<Rightarrow> Transaction \<Rightarrow> bytes" where
  "tid sha s \<equiv> projr (txid_of sha s :: unit fault + _)"

text \<open>Transactions that can be written and read back, and whose inputs carry the transactions they name.\<close>

definition tx_ok :: "(bytes \<Rightarrow> bytes) \<Rightarrow> Transaction \<Rightarrow> bool" where
  "tx_ok sha s = (sizes_ok s \<and> (Inputs s = [] \<and> Outputs s = [] \<longrightarrow> PutUint32 (LockTime s) \<noteq> [0, 0, 0, 0xEF])
     \<and> txid_of sha s = (Inr (tid sha s) :: unit fault + _)
     \<and> (MerklePath s = None \<longrightarrow> (\<forall>i\<in>set (Inputs s). \<exists>p. SourceTransaction i = Some p \<and> SourceTXID i = Some (tid sha p))))"

definition complete_history :: "(bytes \<Rightarrow> bytes) \<Rightarrow> Transaction \<Rightarrow> bool" where
  "complete_history sha t = ((\<forall>s. carried t s \<longrightarrow> tx_ok sha s) \<and> inj_on (tid sha) {s. carried t s})"

text \<open>A set of such transactions that is closed under sources.\<close>

definition world :: "(bytes \<Rightarrow> bytes) \<Rightarrow> Transaction set \<Rightarrow> bool" where
  "world sha U = ((\<forall>s\<in>U. tx_ok sha s \<and> (\<forall>p. carried s p \<longrightarrow> p \<in> U)) \<and> inj_on (tid sha) U)"

lemma world_carried: "complete_history sha t \<Longrightarrow> world sha {s. carried t s}"
  by (auto simp: complete_history_def world_def intro: carried_trans)

lemma worldD:
  assumes "world sha U" "s \<in> U"
  shows "tx_ok sha s" "carried s p \<Longrightarrow> p \<in> U" "txid_of sha s = (Inr (tid sha s) :: unit fault + _)" "TxID sha s = (Inr (Some (tid sha s)) :: unit fault + _)"
proof -
  show 1: "tx_ok sha s" and "carried s p \<Longrightarrow> p \<in> U"
    using assms by (auto simp: world_def)
  then show 2: "txid_of sha s = (Inr (tid sha s) :: unit fault + _)"
    by (simp add: tx_ok_def)
  then show "TxID sha s = (Inr (Some (tid sha s)) :: unit fault + _)"
    unfolding txid_of_def by (auto simp: res_simps split: option.split_asm)
qed

subsection \<open>Order\<close>

text \<open>Every element comes after the ones it needs.\<close>

primrec ordered :: "('a \<Rightarrow> 'a set) \<Rightarrow> 'a set \<Rightarrow> 'a list \<Rightarrow> bool" where
  "ordered needs D [] = True"
| "ordered needs D (x # xs) = (needs x \<subseteq> D \<and> ordered needs (insert x D) xs)"

lemma ordered_append: "ordered needs D (xs @ ys) \<longleftrightarrow> ordered needs D xs \<and> ordered needs (D \<union> set xs) ys"
  by (induction xs arbitrary: D) auto

lemma ordered_mono: "ordered needs D xs \<Longrightarrow> D \<subseteq> D' \<Longrightarrow> ordered needs D' xs"
proof (induction xs arbitrary: D D')
  case (Cons x xs)
  then show ?case using Cons.IH [of "insert x D" "insert x D'"] by auto
qed simp

lemma ordered_dedup: "ordered needs D xs \<Longrightarrow> set found \<subseteq> D \<Longrightarrow> ordered needs D (dedup found xs)"
proof (induction xs arbitrary: D found)
  case (Cons x xs)
  show ?case
  proof (cases "x \<in> set found")
    case True
    then have "insert x D = D" using Cons.prems by blast
    then show ?thesis using Cons True by simp
  next
    case False
    moreover have "set (x # found) \<subseteq> insert x D" using Cons.prems by auto
    ultimately show ?thesis using Cons.prems Cons.IH [of "insert x D" "x # found"] by simp
  qed
qed simp

lemma set_dedup: "set (dedup found xs) = set xs - set found"
  by (induction xs arbitrary: found) auto

lemma distinct_dedup: "distinct (dedup found xs)"
  by (induction xs arbitrary: found) (auto simp: set_dedup)

lemma dedup_snoc: "x \<notin> set found \<union> set xs \<Longrightarrow> dedup found (xs @ [x]) = dedup found xs @ [x]"
  by (induction xs arbitrary: found) auto

definition parents :: "(bytes \<Rightarrow> bytes) \<Rightarrow> Transaction set \<Rightarrow> bytes \<Rightarrow> bytes set" where
  "parents sha U h = {h'. \<exists>s\<in>U. tid sha s = h \<and> MerklePath s = None \<and> (\<exists>i\<in>set (Inputs s). SourceTXID i = Some h')}"

text \<open>The map \<open>txns\<close> holds transactions of \<open>U\<close> under their ids.\<close>

definition stored :: "(bytes \<Rightarrow> bytes) \<Rightarrow> Transaction set \<Rightarrow> txs \<Rightarrow> bool" where
  "stored sha U txns = (distinct (map fst txns) \<and> (\<forall>(h, s)\<in>set txns. s \<in> U \<and> tid sha s = h))"

lemma stored_update: "stored sha U txns \<Longrightarrow> s \<in> U \<Longrightarrow> tid sha s = h \<Longrightarrow> stored sha U (AList.update h s txns)"
proof -
  have "set (AList.update h s txns) \<subseteq> insert (h, s) (set txns)" by (induction txns) auto
  then show "stored sha U txns \<Longrightarrow> s \<in> U \<Longrightarrow> tid sha s = h \<Longrightarrow> stored sha U (AList.update h s txns)"
    by (auto simp: stored_def distinct_update)
qed

lemma stored_lookup:
  assumes "stored sha U txns" "world sha U" "s \<in> U" "tid sha s \<in> fst ` set txns"
  shows "map_of txns (tid sha s) = Some s"
proof -
  obtain s' where s': "(tid sha s, s') \<in> set txns" using assms(4) by auto
  then have "s' = s" using assms(1,2,3) by (auto simp: stored_def world_def dest: inj_onD)
  then show ?thesis using s' assms(1) by (simp add: stored_def)
qed

lemma fst_update: "fst ` set (AList.update h s xs) = insert h (fst ` set xs)"
  by (induction xs) auto

subsection \<open>Collecting\<close>

lemma carried_input:
  assumes "world sha U" "t \<in> U" "MerklePath t = None" "i \<in> set (Inputs t)"
  obtains p where "SourceTransaction i = Some p" "SourceTXID i = Some (tid sha p)" "p \<in> U"
proof -
  obtain p where p: "SourceTransaction i = Some p" "SourceTXID i = Some (tid sha p)"
    using worldD(1) [OF assms(1,2)] assms(3,4) by (auto simp: tx_ok_def)
  then have "p \<in> U"
    using worldD(2) [OF assms(1,2)] carried.source [OF carried.self assms(3,4)] by blast
  with p show ?thesis by (rule that)
qed

lemma parents_self:
  assumes "world sha U" "t \<in> U"
  shows "parents sha U (tid sha t) = (if MerklePath t = None then {h. \<exists>i\<in>set (Inputs t). SourceTXID i = Some h} else {})"
proof -
  have "s = t" if "s \<in> U" "tid sha s = tid sha t" for s
    using that assms by (auto simp: world_def dest: inj_onD)
  then show ?thesis using assms(2) by (auto simp: parents_def)
qed

abbreviation below :: "(bytes \<Rightarrow> bytes) \<Rightarrow> TransactionInput list \<Rightarrow> bytes set" where
  "below sha ins \<equiv> tid sha ` {s. \<exists>i\<in>set ins. \<exists>p. SourceTransaction i = Some p \<and> carried p s}"

lemma collect_correct:
  "world sha U \<Longrightarrow> t \<in> U \<Longrightarrow> txid = None \<or> txid = Some (tid sha t) \<Longrightarrow> stored sha U txns \<Longrightarrow> tid sha t \<in> fst ` set txns \<Longrightarrow>
    \<exists>anc txns'. collectAncestors sha t txid txns allowPartial = (Inr (anc, txns') :: unit fault + _) \<and> stored sha U txns'
      \<and> set anc = tid sha ` {s. carried t s} \<and> fst ` set txns' = fst ` set txns \<union> set anc
      \<and> distinct anc \<and> ordered (parents sha U) {} anc \<and> anc \<noteq> [] \<and> last anc = tid sha t"
  and "world sha U \<Longrightarrow> t \<in> U \<Longrightarrow> MerklePath t = None \<Longrightarrow> set ins \<subseteq> set (Inputs t) \<Longrightarrow> stored sha U txns \<Longrightarrow> ordered (parents sha U) {} acc \<Longrightarrow>
    \<exists>anc txns'. collect_inputs sha t ins txns allowPartial acc = (Inr (anc, txns') :: unit fault + _) \<and> stored sha U txns'
      \<and> set anc = set acc \<union> below sha ins \<and> fst ` set txns' = fst ` set txns \<union> below sha ins \<and> ordered (parents sha U) {} anc"
proof (induction sha t txid txns allowPartial and sha t ins txns allowPartial acc rule: collectAncestors_collect_inputs.induct [where 'a = unit])
  case (1 sha t txid txns allowPartial)
  note id = worldD(4) [OF 1(2,3)]
  show ?case
  proof (cases "MerklePath t")
    case (Some mp)
    then have "{s. carried t s} = {t}" by (subst carried_step) auto
    moreover have "collectAncestors sha t txid txns allowPartial = (Inr ([tid sha t], txns) :: unit fault + _)"
      using 1(4) Some id by (auto simp: collectAncestors.simps(1) [of sha t] deref_def)
    ultimately show ?thesis
      using 1(5) Some parents_self [OF 1(2,3)] insert_absorb [OF 1(6)] by simp
  next
    case None
    obtain anc txns' where c: "collect_inputs sha t (Inputs t) txns allowPartial [] = (Inr (anc, txns') :: unit fault + _)" "stored sha U txns'"
      "set anc = below sha (Inputs t)" "fst ` set txns' = fst ` set txns \<union> below sha (Inputs t)" "ordered (parents sha U) {} anc"
      using 1(1) [of "Some (tid sha t)"] 1(2-6) None id by auto
    have self: "tid sha t \<notin> set anc"
    proof
      assume "tid sha t \<in> set anc"
      then obtain s i p where s: "tid sha s = tid sha t" "i \<in> set (Inputs t)" "SourceTransaction i = Some p" "carried p s"
        unfolding c(3) by auto
      then have "carried t s" by (meson carried_step None)
      then have "s = t" using s(1) 1(2,3) worldD(2) [OF 1(2,3)] by (auto simp: world_def dest: inj_onD)
      then show False using input_size [OF s(2,3)] carried_size [OF s(4)] by simp
    qed
    have cs: "{s. carried t s} = insert t {s. \<exists>i\<in>set (Inputs t). \<exists>p. SourceTransaction i = Some p \<and> carried p s}"
      using None by (subst carried_step) auto
    have "parents sha U (tid sha t) \<subseteq> set anc"
    proof
      fix h assume "h \<in> parents sha U (tid sha t)"
      then obtain i where i: "i \<in> set (Inputs t)" "SourceTXID i = Some h"
        unfolding parents_self [OF 1(2,3)] using None by auto
      obtain p where "SourceTransaction i = Some p" "h = tid sha p"
        using carried_input [OF 1(2,3) None i(1)] i(2) by auto
      then show "h \<in> set anc"
        unfolding c(3) using i(1) by (blast intro: carried.self)
    qed
    then have "ordered (parents sha U) {} (anc @ [tid sha t])"
      using c(5) by (simp add: ordered_append)
    then have "ordered (parents sha U) {} (dedup [] (anc @ [tid sha t]))"
      by (rule ordered_dedup) simp
    moreover have "collectAncestors sha t txid txns allowPartial = (Inr (dedup [] (anc @ [tid sha t]), txns') :: unit fault + _)"
      using 1(4) None id c(1) by (auto simp: collectAncestors.simps(1) [of sha t] deref_def)
    moreover have "fst ` set txns' = fst ` set txns \<union> set (dedup [] (anc @ [tid sha t]))"
      unfolding set_dedup c(4) using 1(6) c(3) by auto
    moreover have "set (dedup [] (anc @ [tid sha t])) = tid sha ` {s. carried t s}"
      by (simp add: set_dedup cs c(3))
    ultimately show ?thesis
      using c(2) self dedup_snoc [of "tid sha t" "[]" anc] distinct_dedup [of "[]" "anc @ [tid sha t]"]
      by (intro exI [of _ "dedup [] (anc @ [tid sha t])"] exI [of _ txns'] conjI) (assumption | simp)+
  qed
next
  case (2 sha t txns allowPartial ancestors)
  then show ?case by simp
next
  case (3 sha t i ins txns allowPartial ancestors)
  obtain p where p: "SourceTransaction i = Some p" "SourceTXID i = Some (tid sha p)" "p \<in> U"
    using carried_input [OF 3(4,5,6)] 3(7) by auto
  obtain grands txns1 where g: "collectAncestors sha p (Some (tid sha p)) (AList.update (tid sha p) p txns) allowPartial = (Inr (grands, txns1) :: unit fault + _)"
    "stored sha U txns1" "set grands = tid sha ` {s. carried p s}" "fst ` set txns1 = insert (tid sha p) (fst ` set txns) \<union> set grands"
    "ordered (parents sha U) {} grands"
    using 3(2) [OF p(1,2) 3(4) p(3)] stored_update [OF 3(8) p(3)] by (auto simp: fst_update)
  have o: "ordered (parents sha U) {} (grands @ ancestors)"
    using g(5) 3(9) by (auto simp: ordered_append intro: ordered_mono)
  obtain anc txns' where r: "collect_inputs sha t ins txns1 allowPartial (grands @ ancestors) = (Inr (anc, txns') :: unit fault + _)" "stored sha U txns'"
      "set anc = set (grands @ ancestors) \<union> below sha ins" "fst ` set txns' = fst ` set txns1 \<union> below sha ins" "ordered (parents sha U) {} anc"
    using 3(3) [OF p(1,2) g(1) refl 3(4,5,6) _ g(2) o] 3(7) by auto
  have b: "below sha (i # ins) = set grands \<union> below sha ins"
  proof -
    have "{s. \<exists>j\<in>set (i # ins). \<exists>q. SourceTransaction j = Some q \<and> carried q s}
        = {s. carried p s} \<union> {s. \<exists>j\<in>set ins. \<exists>q. SourceTransaction j = Some q \<and> carried q s}"
      by (auto simp: p(1))
    then show ?thesis by (simp only: g(3) image_Un)
  qed
  have "tid sha p \<in> set grands" unfolding g(3) by (blast intro: carried.self)
  then have "fst ` set txns' = fst ` set txns \<union> below sha (i # ins)"
    unfolding r(4) g(4) b by blast
  moreover have "set anc = set ancestors \<union> below sha (i # ins)"
    unfolding r(3) b by auto
  moreover have "collect_inputs sha t (i # ins) txns allowPartial ancestors = (Inr (anc, txns') :: unit fault + _)"
    using p(1,2) g(1) r(1) by simp
  ultimately show ?case
    using r(2,5) by blast
qed

subsection \<open>What a reader restores\<close>

text \<open>The data that travels on the wire, the path that \<open>P\<close> gives for the block of the original path, and, where there is no path, the transactions it
  spends from, restored in the same way.\<close>

inductive restores :: "(MerklePath \<Rightarrow> MerklePath) \<Rightarrow> Transaction \<Rightarrow> Transaction \<Rightarrow> bool" for P where
  "wire_tx False t' = wire_tx False t \<Longrightarrow> MerklePath t' = map_option P (MerklePath t) \<Longrightarrow>
   (MerklePath t = None \<Longrightarrow> list_all2 (\<lambda>i i'. \<exists>s s'. SourceTransaction i = Some s \<and> SourceTransaction i' = Some s' \<and> restores P s s') (Inputs t) (Inputs t'))
   \<Longrightarrow> restores P t t'"

lemma Tx_Bytes_wire: "Tx_Bytes (wire_tx False t) = (Tx_Bytes t :: 's fault + _)"
proof -
  have "enumerate 0 (map (wire_in False) ins) = map (\<lambda>(k, i). (k, wire_in False i)) (enumerate 0 ins)" for ins
    by (simp add: enumerate_eq_zip zip_map2)
  moreover have "input_part ix None False (k, wire_in False i) = (input_part ix None False (k, i) :: 's fault + _)" for ix k i
    by (simp add: input_part_def TxIn_Bytes_def wire_in_def VarInt_Bytes_0 split: option.split)
  moreover have "TxOut_Bytes (wire_out x) = (TxOut_Bytes x :: 's fault + _)" for x
    by (simp add: TxOut_Bytes_def wire_out_def split: option.split)
  ultimately show ?thesis
    by (simp add: Tx_Bytes_def toBytesHelper_eq wire_tx_def tx_data_def rmap_map_comp comp_def case_prod_unfold)
qed

lemma TxID_wire:
  assumes "wire_tx False t' = wire_tx False t"
  shows "TxID sha t' = (TxID sha t :: 's fault + _)"
  using arg_cong [OF assms, of "Tx_Bytes :: _ \<Rightarrow> 's fault + _"] by (simp add: TxID_def Tx_Bytes_wire)

lemma tx_ok_sources:
  assumes "tx_ok sha s"
  shows "\<forall>i\<in>set (Inputs s). SourceTXID i \<noteq> None"
proof -
  obtain b where "Tx_Bytes s = (Inr b :: unit fault + _)"
    using assms by (auto simp: tx_ok_def txid_of_def TxID_def res_simps)
  then have "\<forall>i\<in>set (Inputs (wire_tx False s)). in_ok False i"
    using toBytesHelper_wire [of s _ False] assms unfolding Tx_Bytes_def tx_ok_def by blast
  then show ?thesis by (fastforce simp: wire_tx_def wire_in_def in_ok_def split: option.split_asm)
qed

lemma wire_in_idem [simp]: "wire_in False (with_source (wire_in False i) s) = wire_in False i" "wire_in False (wire_in False i) = wire_in False i"
  by (simp_all add: wire_in_def with_source_def)

lemma wire_out_idem [simp]: "wire_out (wire_out x) = wire_out x"
  by (simp add: wire_out_def)

definition linked :: "(bytes \<Rightarrow> Transaction option option) \<Rightarrow> TransactionInput \<Rightarrow> TransactionInput" where
  "linked lookup i = (case lookup (the (SourceTXID i)) of None \<Rightarrow> i | Some s \<Rightarrow> with_source i s)"

lemma link_restores:
  assumes "tx_ok sha s"
    and "MerklePath s = None \<Longrightarrow> \<forall>i\<in>set (Inputs s). \<forall>p. SourceTransaction i = Some p \<longrightarrow> (\<exists>p'. lookup (tid sha p) = Some (Some p') \<and> restores P p p')"
  shows "\<exists>s'. link_sources lookup (with_MerklePath (wire_tx False s) (map_option P (MerklePath s))) = (Inr s' :: unit fault + _)
    \<and> restores P s s' \<and> TxID sha s' = TxID sha s"
proof -
  let ?ins = "map (wire_in False) (Inputs s)"
  let ?s = "Transaction (Version s) (map (linked lookup) ?ins) (map wire_out (Outputs s)) (LockTime s) (map_option P (MerklePath s))"
  have "rmap (link_input lookup) ?ins = (Inr (map (linked lookup) ?ins) :: unit fault + _)"
    by (rule rmap_total) (use tx_ok_sources [OF assms(1)] in \<open>auto simp: link_input_def linked_def deref_def wire_in_def\<close>)
  then have l: "link_sources lookup (with_MerklePath (wire_tx False s) (map_option P (MerklePath s))) = (Inr ?s :: unit fault + _)"
    by (simp add: link_sources_def with_MerklePath_def wire_tx_def with_Inputs_def)
  have wi: "wire_in False (linked lookup (wire_in False i)) = wire_in False i" for i
    by (simp add: linked_def split: option.split)
  then have w: "wire_tx False ?s = wire_tx False s"
    by (simp add: wire_tx_def comp_def)
  have "restores P s ?s"
  proof (rule restores.intros [OF w])
    assume "MerklePath s = None"
    then show "list_all2 (\<lambda>i i'. \<exists>s s'. SourceTransaction i = Some s \<and> SourceTransaction i' = Some s' \<and> restores P s s') (Inputs s) (Inputs ?s)"
      using assms by (fastforce simp: list_all2_map2 tx_ok_def linked_def wire_in_def with_source_def intro!: list.rel_refl_strong)
  qed simp
  then show ?thesis using l TxID_wire [OF w] by blast
qed

lemma link_sources_wire:
  assumes "link_sources lookup w = (Inr s' :: unit fault + _)"
  shows "wire_tx False s' = wire_tx False w"
proof -
  obtain ins where ins: "rmap (link_input lookup) (Inputs w) = (Inr ins :: unit fault + _)" and s': "s' = with_Inputs w ins"
    using assms by (auto simp: link_sources_def res_simps)
  have "wire_in False y = wire_in False x" if "link_input lookup x = (Inr y :: unit fault + _)" for x y
    using that by (auto simp: link_input_def deref_def wire_in_def with_source_def split: option.split_asm)
  then have "map (wire_in False) ins = map (wire_in False) (Inputs w)"
    using ins by (auto simp: rmap_Inr_iff list_all2_conv_all_nth intro: nth_equalityI)
  then show ?thesis by (simp add: s' wire_tx_def with_Inputs_def)
qed

text \<open>What the two readers have in common: a step reads what \<open>wr\<close> has written, links the inputs to the transactions read before, and stores the result
  under its id.\<close>

locale restoring =
  fixes sha :: "bytes \<Rightarrow> bytes"
    and P :: "MerklePath \<Rightarrow> MerklePath"
    and ok :: "Transaction \<Rightarrow> bool"
    and wr :: "Transaction \<Rightarrow> unit fault + bytes"
    and rd :: "nat \<Rightarrow> bytes \<Rightarrow> 'a \<Rightarrow> unit fault + 'a"
    and lookup :: "'a \<Rightarrow> bytes \<Rightarrow> Transaction option option"
    and put :: "Transaction \<Rightarrow> Transaction \<Rightarrow> 'a \<Rightarrow> 'a"
  assumes rd_done: "rd 0 r st = Inr st"
    and rd_step: "ok s \<Longrightarrow> \<exists>w. wr s = Inr w \<and> (\<forall>n r st. rd (Suc n) (w @ r) st
        = rbind (link_sources (lookup st) (with_MerklePath (wire_tx False s) (map_option P (MerklePath s)))) (\<lambda>s'. rd n r (put s s' st)))"
    and lookup_put: "ok s \<Longrightarrow> lookup (put s s' st) h = (if h = tid sha s then Some (Some s') else lookup st h)"
    and ok_tx: "ok s \<Longrightarrow> tx_ok sha s"
begin

lemma restore_all:
  assumes "world sha U" "\<forall>s\<in>U. ok s"
  shows "ordered (parents sha U) D xs \<Longrightarrow> \<forall>h\<in>set xs. \<exists>s\<in>U. tid sha s = h \<and> map_of txns h = Some s \<Longrightarrow>
    \<forall>s\<in>U. tid sha s \<in> D \<longrightarrow> (\<exists>s'. lookup st (tid sha s) = Some (Some s') \<and> restores P s s') \<Longrightarrow>
    \<exists>ws st'. rmap (\<lambda>h. rbind (deref (map_of txns h)) wr) xs = Inr ws \<and> rd (length xs) (concat ws @ r) st = Inr st'
      \<and> (\<forall>s\<in>U. tid sha s \<in> D \<union> set xs \<longrightarrow> (\<exists>s'. lookup st' (tid sha s) = Some (Some s') \<and> restores P s s'))
      \<and> (xs \<noteq> [] \<longrightarrow> (\<exists>s\<in>U. \<exists>s' st0. tid sha s = last xs \<and> restores P s s' \<and> st' = put s s' st0))"
proof (induction xs arbitrary: D st)
  case Nil
  then show ?case by (simp add: rd_done)
next
  case (Cons h xs)
  obtain s where s: "s \<in> U" "tid sha s = h" "map_of txns h = Some s" using Cons.prems(2) by auto
  obtain w where w: "wr s = Inr w" and step: "\<And>n r st. rd (Suc n) (w @ r) st
        = rbind (link_sources (lookup st) (with_MerklePath (wire_tx False s) (map_option P (MerklePath s)))) (\<lambda>s'. rd n r (put s s' st))"
    using rd_step assms(2) s(1) by blast
  have "\<exists>p'. lookup st (tid sha p) = Some (Some p') \<and> restores P p p'"
    if "MerklePath s = None" "i \<in> set (Inputs s)" "SourceTransaction i = Some p" for i p
  proof -
    have "SourceTXID i = Some (tid sha p)" "p \<in> U"
      using carried_input [OF assms(1) s(1) that(1,2)] that(3) by auto
    moreover have "parents sha U h \<subseteq> D" using Cons.prems(1) by simp
    ultimately show ?thesis
      using Cons.prems(3) that(1,2) s(1,2) unfolding parents_def by blast
  qed
  then obtain s' where s': "link_sources (lookup st) (with_MerklePath (wire_tx False s) (map_option P (MerklePath s))) = (Inr s' :: unit fault + _)"
      "restores P s s'"
    using link_restores [OF ok_tx, of s "lookup st" P] assms(2) s(1) by blast
  have same: "x = s" if "x \<in> U" "tid sha x = h" for x
    using that s(1,2) assms(1) by (auto simp: world_def dest: inj_onD)
  have inv: "\<forall>x\<in>U. tid sha x \<in> insert h D \<longrightarrow> (\<exists>x'. lookup (put s s' st) (tid sha x) = Some (Some x') \<and> restores P x x')"
  proof (intro ballI impI)
    fix x assume x: "x \<in> U" "tid sha x \<in> insert h D"
    have put: "lookup (put s s' st) (tid sha x) = (if tid sha x = h then Some (Some s') else lookup st (tid sha x))"
      using lookup_put assms(2) s(1,2) by blast
    show "\<exists>x'. lookup (put s s' st) (tid sha x) = Some (Some x') \<and> restores P x x'"
    proof (cases "tid sha x = h")
      case True
      then show ?thesis using put same [OF x(1) True] s'(2) by simp
    next
      case False
      then show ?thesis using put x Cons.prems(3) by simp
    qed
  qed
  have "ordered (parents sha U) (insert h D) xs" "\<forall>h\<in>set xs. \<exists>s\<in>U. tid sha s = h \<and> map_of txns h = Some s"
    using Cons.prems(1,2) by simp_all
  from Cons.IH [OF this inv] obtain ws st' where r: "rmap (\<lambda>h. rbind (deref (map_of txns h)) wr) xs = Inr ws" "rd (length xs) (concat ws @ r) (put s s' st) = Inr st'"
      "\<forall>x\<in>U. tid sha x \<in> insert h D \<union> set xs \<longrightarrow> (\<exists>x'. lookup st' (tid sha x) = Some (Some x') \<and> restores P x x')"
      "xs \<noteq> [] \<longrightarrow> (\<exists>x\<in>U. \<exists>x' st0. tid sha x = last xs \<and> restores P x x' \<and> st' = put x x' st0)"
    by blast
  have "\<exists>x\<in>U. \<exists>x' st0. tid sha x = last (h # xs) \<and> restores P x x' \<and> st' = put x x' st0"
  proof (cases "xs = []")
    case True
    then have "st' = put s s' st" using r(2) by (simp add: rd_done)
    then show ?thesis using True s(1,2) s'(2) by auto
  next
    case False
    then show ?thesis using r(4) by simp
  qed
  moreover have "rmap (\<lambda>h. rbind (deref (map_of txns h)) wr) (h # xs) = Inr (w # ws)"
    using r(1) s(3) w by (simp add: deref_def)
  moreover have "rd (length (h # xs)) (concat (w # ws) @ r) st = Inr st'"
    using step [of "length xs" "concat ws @ r" st] s'(1) r(2) by simp
  moreover have "\<forall>x\<in>U. tid sha x \<in> D \<union> set (h # xs) \<longrightarrow> (\<exists>x'. lookup st' (tid sha x) = Some (Some x') \<and> restores P x x')"
    using r(3) by simp
  ultimately show ?case by blast
qed

end

subsection \<open>The two versions\<close>

definition index_ok :: "(bytes \<Rightarrow> bytes) \<Rightarrow> MerklePath list \<Rightarrow> (u32 \<times> nat) list \<Rightarrow> Transaction \<Rightarrow> bool" where
  "index_ok sha bumps bm s = (tx_ok sha s \<and> 8 * length bumps \<le> maxAlloc \<and> (\<forall>mp. MerklePath s = Some mp \<longrightarrow> bump_of bm mp < length bumps))"

lemma small_index:
  assumes "k < 2 ^ 63"
  shows "i64 (uint (word_of_nat k :: u64)) = int k"
proof -
  have "uint (word_of_nat k :: u64) = int k"
    using assms by (simp add: uint_nat unsigned_of_nat take_bit_nat_eq_self)
  then show ?thesis using assms i64_id [of "int k"] by simp
qed

lemma bump_at_ok:
  assumes "k < length bumps" "8 * length bumps \<le> maxAlloc"
  shows "bump_at bumps (word_of_nat k) = Inr (bumps ! k)"
  using assms by (simp add: bump_at_def small_index maxAlloc_def)

lemma written:
  assumes "tx_ok sha s"
  obtains b where "Tx_Bytes s = (Inr b :: unit fault + _)" "\<And>r. Tx_ReadFrom (b @ r) = (Inr (wire_tx False s, int (length b), r) :: unit fault + _)"
    "\<And>mp. TxID sha (with_MerklePath (wire_tx False s) mp) = (Inr (Some (tid sha s)) :: unit fault + _)"
proof -
  obtain b where b: "Tx_Bytes s = (Inr b :: unit fault + _)"
    using assms by (auto simp: tx_ok_def txid_of_def TxID_def res_simps)
  have "wire_tx False (with_MerklePath (wire_tx False s) mp) = wire_tx False s" for mp
    by (simp add: wire_tx_def with_MerklePath_def comp_def)
  then have "TxID sha (with_MerklePath (wire_tx False s) mp) = (TxID sha s :: unit fault + _)" for mp
    by (rule TxID_wire)
  moreover have "TxID sha s = (Inr (Some (tid sha s)) :: unit fault + _)"
    using assms by (auto simp: tx_ok_def txid_of_def res_simps split: option.split_asm)
  ultimately show ?thesis
    using that [OF b] Tx_Bytes_read [OF b] assms by (auto simp: tx_ok_def)
qed

lemma read_one: "ReadFull 1 (b # r) = Inr ([b], 1, r)"
  by simp

lemma v1_step:
  assumes "index_ok sha bumps bm s"
  shows "\<exists>w. write_v1 bm s = (Inr w :: unit fault + _) \<and> (\<forall>n r M l. read_txs sha bumps (Suc n) (w @ r) M l
    = (rbind (link_sources (\<lambda>h. map_option Some (map_of M h)) (with_MerklePath (wire_tx False s) (map_option (\<lambda>mp. bumps ! bump_of bm mp) (MerklePath s))))
        (\<lambda>s'. read_txs sha bumps n r (AList.update (tid sha s) s' M) (Some s')) :: unit fault + _))"
proof -
  have ok: "tx_ok sha s" "8 * length bumps \<le> maxAlloc" using assms by (auto simp: index_ok_def)
  obtain b where b: "Tx_Bytes s = (Inr b :: unit fault + _)" "\<And>r. Tx_ReadFrom (b @ r) = (Inr (wire_tx False s, int (length b), r) :: unit fault + _)"
    "\<And>mp. TxID sha (with_MerklePath (wire_tx False s) mp) = (Inr (Some (tid sha s)) :: unit fault + _)"
    using written [OF ok(1)] by blast
  have w: "with_MerklePath (wire_tx False s) None = wire_tx False s"
    by (simp add: with_MerklePath_def wire_tx_def)
  have id: "TxID sha (wire_tx False s) = (Inr (Some (tid sha s)) :: unit fault + _)"
    using b(3) [of None] by (simp only: w)
  show ?thesis
  proof (cases "MerklePath s")
    case None
    then show ?thesis
      using b id w by (simp add: write_v1_def read_one deref_def)
  next
    case (Some mp)
    then have "bump_of bm mp < length bumps" using assms by (simp add: index_ok_def)
    then show ?thesis
      using b id Some by (simp add: write_v1_def read_one deref_def VarInt_ReadFrom_Bytes bump_at_ok ok(2))
  qed
qed

lemma v2_step:
  assumes "index_ok sha bumps bm s"
  shows "\<exists>w. write_v2 bm s = (Inr w :: unit fault + _) \<and> (\<forall>n r E l. read_entries sha bumps (Suc n) (w @ r) E l
    = (rbind (link_sources (\<lambda>h. map_option beefTransaction (map_of E h)) (with_MerklePath (wire_tx False s) (map_option (\<lambda>mp. bumps ! bump_of bm mp) (MerklePath s))))
        (\<lambda>s'. read_entries sha bumps n r (AList.update (tid sha s) \<lparr>beefFormat = (case MerklePath s of None \<Rightarrow> RawTx | Some _ \<Rightarrow> RawTxAndBumpIndex),
           KnownTxID = None, beefTransaction = Some s', BumpIndex = (case MerklePath s of None \<Rightarrow> 0 | Some mp \<Rightarrow> int (bump_of bm mp))\<rparr> E) (Some (tid sha s))) :: unit fault + _))"
proof -
  have ok: "tx_ok sha s" "8 * length bumps \<le> maxAlloc" using assms by (auto simp: index_ok_def)
  obtain b where b: "Tx_Bytes s = (Inr b :: unit fault + _)" "\<And>r. Tx_ReadFrom (b @ r) = (Inr (wire_tx False s, int (length b), r) :: unit fault + _)"
    "\<And>mp. TxID sha (with_MerklePath (wire_tx False s) mp) = (Inr (Some (tid sha s)) :: unit fault + _)"
    using written [OF ok(1)] by blast
  have w: "with_MerklePath (wire_tx False s) None = wire_tx False s"
    by (simp add: with_MerklePath_def wire_tx_def)
  have linked: "TxID sha s' = (Inr (Some (tid sha s)) :: unit fault + _)"
    if "link_sources f (with_MerklePath (wire_tx False s) mp) = (Inr s' :: unit fault + _)" for f mp s'
    using TxID_wire [OF link_sources_wire [OF that]] b(3) by metis
  show ?thesis
  proof (cases "MerklePath s")
    case None
    then show ?thesis
      using b(1,2) linked [of _ None] w
      by (auto simp: write_v2_def read_one deref_def format_of_def readBeefTxFull_def rbind_assoc Let_def intro!: rbind_cong)
  next
    case (Some mp)
    then have k: "bump_of bm mp < length bumps" using assms by (simp add: index_ok_def)
    then have "bump_of bm mp < 2 ^ 63" using ok(2) by (simp add: maxAlloc_def)
    then show ?thesis
      using b(1,2) Some k linked [of _ "Some (bumps ! bump_of bm mp)"]
      by (auto simp: write_v2_def read_one deref_def format_of_def readBeefTxFull_def rbind_assoc Let_def VarInt_ReadFrom_Bytes small_index bump_at_ok ok(2)
          intro!: rbind_cong)
  qed
qed

interpretation v1: restoring sha "\<lambda>mp. bumps ! bump_of bm mp" "index_ok sha bumps bm" "write_v1 bm" "\<lambda>n r (M, l). read_txs sha bumps n r M l"
    "\<lambda>(M, l) h. map_option Some (map_of M h)" "\<lambda>s s' (M, l). (AList.update (tid sha s) s' M, Some s')" for sha bumps bm
proof (unfold_locales, goal_cases)
  case (2 s)
  then show ?case using v1_step [OF 2] by (simp del: read_txs.simps)
qed (auto simp: update_conv index_ok_def)

interpretation v2: restoring sha "\<lambda>mp. bumps ! bump_of bm mp" "index_ok sha bumps bm" "write_v2 bm" "\<lambda>n r (E, l). read_entries sha bumps n r E l"
    "\<lambda>(E, l) h. map_option beefTransaction (map_of E h)"
    "\<lambda>s s' (E, l). (AList.update (tid sha s) \<lparr>beefFormat = (case MerklePath s of None \<Rightarrow> RawTx | Some _ \<Rightarrow> RawTxAndBumpIndex),
       KnownTxID = None, beefTransaction = Some s', BumpIndex = (case MerklePath s of None \<Rightarrow> 0 | Some mp \<Rightarrow> int (bump_of bm mp))\<rparr> E, Some (tid sha s))" for sha bumps bm
proof (unfold_locales, goal_cases)
  case (2 s)
  then show ?case using v2_step [OF 2] by (simp del: read_entries.simps)
qed (auto simp: update_conv index_ok_def)

subsection \<open>Paths and the whole format\<close>

lemma collect_bumps_index:
  "collect_bumps sha txns xs b0 m0 = (Inr (bumps, bm) :: unit fault + _) \<Longrightarrow> \<forall>h k. map_of m0 h = Some k \<longrightarrow> k < length b0 \<Longrightarrow>
    (\<forall>h k. map_of bm h = Some k \<longrightarrow> k < length bumps) \<and> map_of m0 \<subseteq>\<^sub>m map_of bm
    \<and> (\<forall>h\<in>set xs. \<forall>tx mp. map_of txns h = Some tx \<and> MerklePath tx = Some mp \<longrightarrow> map_of bm (BlockHeight mp) \<noteq> None)"
proof (induction xs arbitrary: b0 m0)
  case (Cons h xs)
  obtain tx where tx: "map_of txns h = Some tx" using Cons.prems(1) by (auto split: option.split_asm)
  show ?case
  proof (cases "MerklePath tx")
    case None
    then have c: "collect_bumps sha txns xs b0 m0 = (Inr (bumps, bm) :: unit fault + _)"
      using Cons.prems(1) tx by simp
    then show ?thesis using Cons.IH [OF c Cons.prems(2)] tx None by auto
  next
    case (Some mp)
    show ?thesis
    proof (cases "map_of m0 (BlockHeight mp)")
      case None
      then have c: "collect_bumps sha txns xs (b0 @ [mp]) ((BlockHeight mp, length b0) # m0) = (Inr (bumps, bm) :: unit fault + _)"
        using Cons.prems(1) tx Some by simp
      have "\<forall>h k. map_of ((BlockHeight mp, length b0) # m0) h = Some k \<longrightarrow> k < length (b0 @ [mp])"
        using Cons.prems(2) by (auto simp: less_Suc_eq)
      note IH = Cons.IH [OF c this]
      then have "map_of m0 \<subseteq>\<^sub>m map_of bm" "map_of bm (BlockHeight mp) = Some (length b0)"
        using None by (auto simp: map_le_def dom_def split: if_split_asm)
      then show ?thesis using IH tx Some by auto
    next
      case (Some k)
      then obtain mp' where c: "collect_bumps sha txns xs (b0[k := mp']) m0 = (Inr (bumps, bm) :: unit fault + _)"
        using Cons.prems(1) tx \<open>MerklePath tx = Some mp\<close> by (auto simp: res_simps)
      have "\<forall>h k'. map_of m0 h = Some k' \<longrightarrow> k' < length (b0[k := mp'])" using Cons.prems(2) by simp
      note IH = Cons.IH [OF c this]
      then have "map_of bm (BlockHeight mp) = Some k"
        using Some by (auto simp: map_le_def dom_def)
      then show ?thesis using IH tx \<open>MerklePath tx = Some mp\<close> by auto
    qed
  qed
qed simp

lemma unat_small: "n < 2 ^ 64 \<Longrightarrow> unat (word_of_nat n :: u64) = n"
  by (simp add: unsigned_of_nat take_bit_nat_eq_self)

lemma readBUMPs_enc:
  assumes "\<forall>mp\<in>set bumps. path_ok mp" "8 * length bumps \<le> maxAlloc"
  shows "rmap MerklePath_Bytes bumps = (Inr (map path_enc bumps) :: unit fault + _)"
    "readBUMPs (VarInt_Bytes (varlen bumps) @ concat (map path_enc bumps) @ r) = (Inr (bumps, r) :: unit fault + _)"
proof -
  show "rmap MerklePath_Bytes bumps = (Inr (map path_enc bumps) :: unit fault + _)"
    by (rule rmap_total) (use assms(1) MerklePath_Bytes_ok in blast)
  have "read_bumps (length bumps) (concat (map path_enc bumps) @ r) = (Inr (bumps, r) :: unit fault + _)"
    using assms(1) by (induction bumps) (simp_all add: FromReader_enc)
  moreover have "unat (varlen bumps) = length bumps"
    using assms(2) by (intro unat_small) (simp add: maxAlloc_def)
  ultimately show "readBUMPs (VarInt_Bytes (varlen bumps) @ concat (map path_enc bumps) @ r) = (Inr (bumps, r) :: unit fault + _)"
    using assms(2) by (simp add: readBUMPs_def VarInt_ReadFrom_Bytes)
qed

lemma rounds_varlen: "length xs < 2 ^ 63 \<Longrightarrow> rounds (varlen xs) = length xs"
  by (simp add: rounds_def small_index)

text \<open>What \<open>gather\<close> has collected when it succeeds.\<close>

lemma gather_parts:
  assumes "complete_history sha t" "gather sha t txid p = (Inr (anc, txns, bumps, bm) :: unit fault + _)" "txid = None \<or> txid = Some (tid sha t)"
    "8 * length bumps \<le> maxAlloc"
  shows "\<forall>s\<in>{s. carried t s}. index_ok sha bumps bm s" "ordered (parents sha {s. carried t s}) {} anc" "anc \<noteq> []" "last anc = tid sha t"
    "\<forall>h\<in>set anc. \<exists>s\<in>{s. carried t s}. tid sha s = h \<and> map_of txns h = Some s"
    "set anc = tid sha ` {s. carried t s}" "length txns = length anc"
proof -
  let ?U = "{s. carried t s}"
  have w: "world sha ?U" by (rule world_carried [OF assms(1)])
  have t: "t \<in> ?U" by (simp add: carried.self)
  obtain anc' txns' where c: "collectAncestors sha t txid [(tid sha t, t)] p = (Inr (anc', txns') :: unit fault + _)" "stored sha ?U txns'"
    "set anc' = tid sha ` {s. carried t s}" "fst ` set txns' = fst ` set [(tid sha t, t)] \<union> set anc'"
    "distinct anc'" "ordered (parents sha ?U) {} anc'" "anc' \<noteq> []" "last anc' = tid sha t"
    using collect_correct(1) [OF w t assms(3), of "[(tid sha t, t)]" p] t by (auto simp: stored_def)
  have g: "anc' = anc" "txns' = txns" "collect_bumps sha txns anc [] [] = (Inr (bumps, bm) :: unit fault + _)"
    using assms(2) worldD(3) [OF w t] c(1) by (auto simp: gather_def res_simps)
  note c = c [unfolded g]
  have keys: "fst ` set txns = set anc" using c(3,4) t by auto
  then show "\<forall>h\<in>set anc. \<exists>s\<in>?U. tid sha s = h \<and> map_of txns h = Some s"
    using c(3) stored_lookup [OF c(2) w] by auto
  then have "\<exists>k. map_of bm (BlockHeight mp) = Some k \<and> k < length bumps" if "s \<in> ?U" "MerklePath s = Some mp" for s mp
    using collect_bumps_index [OF g(3)] that c(3) stored_lookup [OF c(2) w that(1)] keys by fastforce
  then show "\<forall>s\<in>?U. index_ok sha bumps bm s"
    using assms(1,4) by (fastforce simp: index_ok_def bump_of_def complete_history_def)
  have "length txns = card (fst ` set txns)"
    using c(2) by (metis distinct_card length_map set_map stored_def)
  then show "length txns = length anc"
    using keys c(5) by (simp add: distinct_card)
  show "ordered (parents sha ?U) {} anc" "anc \<noteq> []" "last anc = tid sha t" "set anc = tid sha ` ?U"
    by (rule c)+
qed

lemma TxID_length: "TxID sha s = (Inr (Some x) :: unit fault + _) \<Longrightarrow> length x = 32"
  by (auto simp: TxID_def Let_def res_simps split: if_split_asm)

abbreviation block_path :: "MerklePath list \<Rightarrow> (u32 \<times> nat) list \<Rightarrow> MerklePath \<Rightarrow> MerklePath" where
  "block_path bumps bm mp \<equiv> bumps ! bump_of bm mp"

lemma v1_restores:
  assumes "world sha U" "\<forall>s\<in>U. index_ok sha bumps bm s" "ordered (parents sha U) {} xs"
    "\<forall>h\<in>set xs. \<exists>s\<in>U. tid sha s = h \<and> map_of txns h = Some s" "xs \<noteq> []"
  shows "\<exists>ws M s s'. rmap (\<lambda>h. rbind (deref (map_of txns h)) (write_v1 bm)) xs = (Inr ws :: unit fault + _)
    \<and> read_txs sha bumps (length xs) (concat ws) [] None = (Inr (M, Some s') :: unit fault + _)
    \<and> s \<in> U \<and> tid sha s = last xs \<and> restores (block_path bumps bm) s s'"
proof -
  have "\<forall>s\<in>U. tid sha s \<in> {} \<longrightarrow> (\<exists>s'. (case ([], None) of (M, l) \<Rightarrow> \<lambda>h. map_option Some (map_of M h)) (tid sha s) = Some (Some s')
      \<and> restores (block_path bumps bm) s s')" by simp
  from v1.restore_all [OF assms(1,2,3,4) this, of "[]"] assms(5)
  obtain ws st s s' and st0 :: "txs \<times> Transaction option" where r: "rmap (\<lambda>h. rbind (deref (map_of txns h)) (write_v1 bm)) xs = (Inr ws :: unit fault + _)"
    "(case ([], None) of (M, l) \<Rightarrow> read_txs sha bumps (length xs) (concat ws @ []) M l) = (Inr st :: unit fault + _)"
    "s \<in> U" "tid sha s = last xs" "restores (block_path bumps bm) s s'" "st = (case st0 of (M, l) \<Rightarrow> (AList.update (tid sha s) s' M, Some s'))"
    by blast
  obtain M l where "st0 = (M, l)" by (cases st0)
  then have "read_txs sha bumps (length xs) (concat ws) [] None = (Inr (AList.update (tid sha s) s' M, Some s') :: unit fault + _)"
    using r(2,6) by simp
  then show ?thesis using r(1,3,4,5) by blast
qed

lemma v2_restores:
  assumes "world sha U" "\<forall>s\<in>U. index_ok sha bumps bm s" "ordered (parents sha U) {} xs"
    "\<forall>h\<in>set xs. \<exists>s\<in>U. tid sha s = h \<and> map_of txns h = Some s" "xs \<noteq> []"
  shows "\<exists>ws E. rmap (\<lambda>h. rbind (deref (map_of txns h)) (write_v2 bm)) xs = (Inr ws :: unit fault + _)
    \<and> read_entries sha bumps (length xs) (concat ws) [] None = (Inr (E, Some (last xs)) :: unit fault + _)
    \<and> (\<forall>s\<in>U. tid sha s \<in> set xs \<longrightarrow> (\<exists>s'. map_option beefTransaction (map_of E (tid sha s)) = Some (Some s') \<and> restores (block_path bumps bm) s s'))"
proof -
  have "\<forall>s\<in>U. tid sha s \<in> {} \<longrightarrow> (\<exists>s'. (case ([], None) of (E, l) \<Rightarrow> \<lambda>h. map_option beefTransaction (map_of E h)) (tid sha s) = Some (Some s')
      \<and> restores (block_path bumps bm) s s')" by simp
  from v2.restore_all [OF assms(1,2,3,4) this, of "[]"] assms(5)
  obtain ws st s s' and st0 :: "(bytes \<times> BeefTx) list \<times> bytes option" where r: "rmap (\<lambda>h. rbind (deref (map_of txns h)) (write_v2 bm)) xs = (Inr ws :: unit fault + _)"
    "(case ([], None) of (E, l) \<Rightarrow> read_entries sha bumps (length xs) (concat ws @ []) E l) = (Inr st :: unit fault + _)"
    and all: "\<forall>s\<in>U. tid sha s \<in> {} \<union> set xs \<longrightarrow> (\<exists>s'. (case st of (E, l) \<Rightarrow> \<lambda>h. map_option beefTransaction (map_of E h)) (tid sha s) = Some (Some s')
      \<and> restores (block_path bumps bm) s s')"
    and last: "tid sha s = last xs" "st = (case st0 of (E, l) \<Rightarrow> (AList.update (tid sha s) \<lparr>beefFormat = (case MerklePath s of None \<Rightarrow> RawTx | Some _ \<Rightarrow> RawTxAndBumpIndex),
       KnownTxID = None, beefTransaction = Some s', BumpIndex = (case MerklePath s of None \<Rightarrow> 0 | Some mp \<Rightarrow> int (bump_of bm mp))\<rparr> E, Some (tid sha s)))"
    by blast
  obtain E where "st = (E, Some (last xs))"
    using last by (cases st0) simp
  then show ?thesis
    using r all by (intro exI [of _ ws] exI [of _ E]) simp
qed

lemma same_id: "complete_history sha t \<Longrightarrow> carried t s \<Longrightarrow> tid sha s = tid sha t \<Longrightarrow> s = t"
  unfolding complete_history_def by (auto dest: inj_onD intro: carried.self)

lemma BEEF_V1_read:
  assumes "complete_history sha t" "gather sha t None False = (Inr (anc, txns, bumps, bm) :: unit fault + _)"
    "\<forall>mp\<in>set bumps. path_ok mp" "8 * length bumps \<le> maxAlloc" "length anc < 2 ^ 63"
  shows "\<exists>b t'. BEEF sha t = (Inr (PutUint32 BEEF_V1 @ b) :: unit fault + _) \<and> from_BEEF_V1 sha b = (Inr (Some t') :: unit fault + _)
      \<and> restores (block_path bumps bm) t t'"
proof -
  note g = gather_parts [OF assms(1,2) disjI1 [OF refl] assms(4)]
  obtain ws M s t' where r: "rmap (\<lambda>h. rbind (deref (map_of txns h)) (write_v1 bm)) anc = (Inr ws :: unit fault + _)"
    "read_txs sha bumps (length anc) (concat ws) [] None = (Inr (M, Some t') :: unit fault + _)"
    "carried t s" "tid sha s = last anc" "restores (block_path bumps bm) s t'"
    using v1_restores [OF world_carried [OF assms(1)] g(1,2,5,3)] by blast
  have "s = t" using same_id [OF assms(1) r(3)] r(4) g(4) by simp
  have n: "rounds (varlen txns) = length anc" using rounds_varlen [of txns] g(7) assms(5) by simp
  let ?b = "VarInt_Bytes (varlen bumps) @ concat (map path_enc bumps) @ VarInt_Bytes (varlen txns) @ concat ws"
  have "BEEF sha t = (Inr (PutUint32 BEEF_V1 @ ?b) :: unit fault + _)"
    using assms(2) r(1) readBUMPs_enc(1) [OF assms(3,4)] by (simp add: BEEF_def write_parts_def)
  moreover have "from_BEEF_V1 sha ?b = (Inr (Some t') :: unit fault + _)"
    using r(2) by (simp add: from_BEEF_V1_def readBUMPs_enc(2) [OF assms(3,4)] readTransactionsGetLast_def readAllTransactions_def VarInt_ReadFrom_Bytes n)
  ultimately show ?thesis using r(5) \<open>s = t\<close> by blast
qed

lemma AtomicBEEF_read:
  assumes "complete_history sha t" "gather sha t (Some (tid sha t)) p = (Inr (anc, txns, bumps, bm) :: unit fault + _)"
    "\<forall>mp\<in>set bumps. path_ok mp" "8 * length bumps \<le> maxAlloc" "length anc < 2 ^ 63"
  shows "\<exists>b E. AtomicBEEF sha t p = (Inr b :: unit fault + _)
      \<and> NewBeefFromAtomicBytes sha b = (Inr (\<lparr>beefVersion = BEEF_V2, BUMPs = bumps, Transactions = E, NewestTxID = Some (tid sha t)\<rparr>, tid sha t) :: unit fault + _)
      \<and> (\<forall>t'. map_option beefTransaction (map_of E (tid sha t)) = Some (Some t') \<longrightarrow> ParseBeef sha b
           = (Inr (\<lparr>beefVersion = BEEF_V2, BUMPs = bumps, Transactions = E, NewestTxID = Some (tid sha t)\<rparr>, Some t', Some (tid sha t)) :: unit fault + _))
      \<and> (\<forall>s. carried t s \<longrightarrow> (\<exists>s'. map_option beefTransaction (map_of E (tid sha s)) = Some (Some s') \<and> restores (block_path bumps bm) s s'))"
proof -
  note g = gather_parts [OF assms(1,2) disjI2 [OF refl] assms(4)]
  have w: "world sha {s. carried t s}" and t: "t \<in> {s. carried t s}"
    by (rule world_carried [OF assms(1)]) (simp add: carried.self)
  obtain ws E where r: "rmap (\<lambda>h. rbind (deref (map_of txns h)) (write_v2 bm)) anc = (Inr ws :: unit fault + _)"
    "read_entries sha bumps (length anc) (concat ws) [] None = (Inr (E, Some (tid sha t)) :: unit fault + _)"
    "\<forall>s\<in>{s. carried t s}. tid sha s \<in> set anc \<longrightarrow> (\<exists>s'. map_option beefTransaction (map_of E (tid sha s)) = Some (Some s') \<and> restores (block_path bumps bm) s s')"
    using v2_restores [OF w g(1,2,5,3)] unfolding g(4) by blast
  have n: "rounds (varlen txns) = length anc" using rounds_varlen [of txns] g(7) assms(5) by simp
  have len: "length (tid sha t) = 32"
    using TxID_length [OF worldD(4) [OF w t]] .
  let ?b = "VarInt_Bytes (varlen bumps) @ concat (map path_enc bumps) @ VarInt_Bytes (varlen txns) @ concat ws"
  let ?a = "PutUint32 ATOMIC_BEEF @ tid sha t @ PutUint32 BEEF_V2 @ ?b"
  have "AtomicBEEF sha t p = (Inr ?a :: unit fault + _)"
  proof -
    obtain h where h: "txid_of sha t = (Inr h :: unit fault + _)" using worldD(3) [OF w t] by blast
    then show ?thesis
      using assms(2) r(1) readBUMPs_enc(1) [OF assms(3,4)] by (simp add: AtomicBEEF_def write_parts_def)
  qed
  moreover have "NewBeefFromBytes sha (PutUint32 BEEF_V2 @ ?b)
      = (Inr \<lparr>beefVersion = BEEF_V2, BUMPs = bumps, Transactions = E, NewestTxID = Some (tid sha t)\<rparr> :: unit fault + _)"
    using r(2) by (simp add: NewBeefFromBytes_def readVersion_def readBUMPs_enc(2) [OF assms(3,4)] readBeefTx_def VarInt_ReadFrom_Bytes n)
  then have "NewBeefFromAtomicBytes sha ?a = (Inr (\<lparr>beefVersion = BEEF_V2, BUMPs = bumps, Transactions = E, NewestTxID = Some (tid sha t)\<rparr>, tid sha t) :: unit fault + _)"
    "map_option beefTransaction (map_of E (tid sha t)) = Some (Some t') \<longrightarrow> ParseBeef sha ?a
       = (Inr (\<lparr>beefVersion = BEEF_V2, BUMPs = bumps, Transactions = E, NewestTxID = Some (tid sha t)\<rparr>, Some t', Some (tid sha t)) :: unit fault + _)" for t'
    using len by (auto simp: NewBeefFromAtomicBytes_def ParseBeef_def FindTransactionByHash_def findTxid_def Let_def)
  moreover have "\<forall>s. carried t s \<longrightarrow> (\<exists>s'. map_option beefTransaction (map_of E (tid sha s)) = Some (Some s') \<and> restores (block_path bumps bm) s s')"
    using r(3) unfolding g(6) by blast
  ultimately show ?thesis by blast
qed

lemma gather_id:
  assumes "complete_history sha t"
  shows "gather sha t (Some (tid sha t)) p = (gather sha t None p :: unit fault + _)"
  using worldD(4) [OF world_carried [OF assms], of t] by (simp add: gather_def collectAncestors.simps(1) [of sha t] carried.self)

text \<open>(C11) BEEF round trip. For a transaction whose history is complete, \<open>BEEF\<close> writes bytes from which the reader of version 1 restores the transaction with
  all transactions that it carries, each proven one with the path collected for its block; and the container read from what \<open>AtomicBEEF\<close> writes has each of
  these transactions under its id, restored in the same way; \<open>ParseBeef\<close> finds the transaction itself.\<close>

theorem BEEF_roundtrip:
  assumes "complete_history sha t" "gather sha t None False = (Inr (anc, txns, bumps, bm) :: unit fault + _)"
    "\<forall>mp\<in>set bumps. path_ok mp" "8 * length bumps \<le> maxAlloc" "length anc < 2 ^ 63"
  shows "(\<exists>b t'. BEEF sha t = (Inr (PutUint32 BEEF_V1 @ b) :: unit fault + _) \<and> from_BEEF_V1 sha b = (Inr (Some t') :: unit fault + _)
      \<and> restores (block_path bumps bm) t t')
    \<and> (\<exists>b B. AtomicBEEF sha t False = (Inr b :: unit fault + _) \<and> NewBeefFromAtomicBytes sha b = (Inr (B, tid sha t) :: unit fault + _)
      \<and> (\<exists>t'. ParseBeef sha b = (Inr (B, Some t', Some (tid sha t)) :: unit fault + _) \<and> restores (block_path bumps bm) t t')
      \<and> BUMPs B = bumps \<and> NewestTxID B = Some (tid sha t)
      \<and> (\<forall>s. carried t s \<longrightarrow> (\<exists>s'. FindTransactionByHash B (Some (tid sha s)) = Some s' \<and> restores (block_path bumps bm) s s')))"
proof
  show "\<exists>b t'. BEEF sha t = (Inr (PutUint32 BEEF_V1 @ b) :: unit fault + _) \<and> from_BEEF_V1 sha b = (Inr (Some t') :: unit fault + _)
      \<and> restores (block_path bumps bm) t t'"
    by (rule BEEF_V1_read [OF assms])
  have "gather sha t (Some (tid sha t)) False = (Inr (anc, txns, bumps, bm) :: unit fault + _)"
    unfolding gather_id [OF assms(1)] by (rule assms(2))
  from AtomicBEEF_read [OF assms(1) this assms(3-5)]
  obtain b E where b: "AtomicBEEF sha t False = (Inr b :: unit fault + _)"
    "NewBeefFromAtomicBytes sha b = (Inr (\<lparr>beefVersion = BEEF_V2, BUMPs = bumps, Transactions = E, NewestTxID = Some (tid sha t)\<rparr>, tid sha t) :: unit fault + _)"
    "\<And>t'. map_option beefTransaction (map_of E (tid sha t)) = Some (Some t') \<Longrightarrow> ParseBeef sha b
       = (Inr (\<lparr>beefVersion = BEEF_V2, BUMPs = bumps, Transactions = E, NewestTxID = Some (tid sha t)\<rparr>, Some t', Some (tid sha t)) :: unit fault + _)"
    "\<forall>s. carried t s \<longrightarrow> (\<exists>s'. map_option beefTransaction (map_of E (tid sha s)) = Some (Some s') \<and> restores (block_path bumps bm) s s')"
    by blast
  let ?B = "\<lparr>beefVersion = BEEF_V2, BUMPs = bumps, Transactions = E, NewestTxID = Some (tid sha t)\<rparr>"
  have "FindTransactionByHash ?B (Some h) = Some s'" if "map_option beefTransaction (map_of E h) = Some (Some s')" for h s'
    using that by (auto simp: FindTransactionByHash_def findTxid_def split: option.split)
  then have "\<forall>s. carried t s \<longrightarrow> (\<exists>s'. FindTransactionByHash ?B (Some (tid sha s)) = Some s' \<and> restores (block_path bumps bm) s s')"
    using b(4) by blast
  moreover have "\<exists>t'. ParseBeef sha b = (Inr (?B, Some t', Some (tid sha t)) :: unit fault + _) \<and> restores (block_path bumps bm) t t'"
    using b(3,4) carried.self by blast
  ultimately show "\<exists>b B. AtomicBEEF sha t False = (Inr b :: unit fault + _) \<and> NewBeefFromAtomicBytes sha b = (Inr (B, tid sha t) :: unit fault + _)
      \<and> (\<exists>t'. ParseBeef sha b = (Inr (B, Some t', Some (tid sha t)) :: unit fault + _) \<and> restores (block_path bumps bm) t t')
      \<and> BUMPs B = bumps \<and> NewestTxID B = Some (tid sha t)
      \<and> (\<forall>s. carried t s \<longrightarrow> (\<exists>s'. FindTransactionByHash B (Some (tid sha s)) = Some s' \<and> restores (block_path bumps bm) s s'))"
    using b(1,2) by (intro exI [of _ b] exI [of _ ?B]) simp
qed

definition demo_history :: Transaction where
  "demo_history = Transaction 1 [TransactionInput (Some (replicate 31 7 @ [23])) (Some []) 0 0 (Some demo_mined) None None]
     [\<lparr>Satoshis = 1, LockingScript = Some [0x51], Change = False\<rparr>] 0 None"

abbreviation demo_block :: MerklePath where
  "demo_block \<equiv> \<lparr>BlockHeight = 9, Path = [[\<lparr>Offset = 0, Hash = Some (replicate 32 1), Txid = None, Duplicate = None\<rparr>]]\<rparr>"

lemma demo_ids:
  "txid_of demo_sha demo_history = (Inr (replicate 31 7 @ [15]) :: unit fault + _)"
  "txid_of demo_sha demo_mined = (Inr (replicate 31 7 @ [23]) :: unit fault + _)"
  by code_simp+

lemma demo_carried: "carried demo_history s \<longleftrightarrow> s = demo_history \<or> s = demo_mined"
proof -
  have "carried demo_mined s \<longleftrightarrow> s = demo_mined"
    by (subst carried_step) (simp add: demo_mined_def)
  then show ?thesis
    by (subst carried_step) (simp add: demo_history_def)
qed

lemma demo_complete: "complete_history demo_sha demo_history"
proof -
  have "sizes_ok demo_history" "sizes_ok demo_mined"
    by (simp_all add: sizes_ok_def demo_history_def demo_mined_def source_out_def maxAlloc_def)
  moreover have "\<exists>i. Inputs demo_history = [i] \<and> SourceTransaction i = Some demo_mined \<and> SourceTXID i = Some (replicate 31 7 @ [23])"
    "Inputs demo_mined \<noteq> []" "MerklePath demo_mined \<noteq> None"
    by (simp_all add: demo_history_def demo_mined_def)
  ultimately have "tx_ok demo_sha demo_history" "tx_ok demo_sha demo_mined"
    by (auto simp: tx_ok_def demo_ids)
  moreover have "{s. carried demo_history s} = {demo_history, demo_mined}"
    by (auto simp: demo_carried)
  ultimately show ?thesis
    by (auto simp: complete_history_def demo_carried demo_ids)
qed

lemma demo_gather: "gather demo_sha demo_history None False
    = (Inr ([replicate 31 7 @ [23], replicate 31 7 @ [15]], [(replicate 31 7 @ [15], demo_history), (replicate 31 7 @ [23], demo_mined)],
        [demo_block], [(9, 0)]) :: unit fault + _)"
  by code_simp

theorem BEEF_roundtrip_witness:
  "\<exists>b t'. BEEF demo_sha demo_history = (Inr (PutUint32 BEEF_V1 @ b) :: unit fault + _) \<and> from_BEEF_V1 demo_sha b = (Inr (Some t') :: unit fault + _)
    \<and> restores (block_path [demo_block] [(9, 0)]) demo_history t'"
proof -
  have "path_ok demo_block"
    by (simp add: path_ok_def level_ok_def leaf_ok_def maxAlloc_def)
  then show ?thesis
    using BEEF_roundtrip [OF demo_complete demo_gather] by (simp add: maxAlloc_def)
qed

end
