(* ===== verification/Spec2Isabelle.thy ===== *)
theory Spec2Isabelle
  imports Shift_Ops Sig_Encoding Multisig Locktime Panics Conditionals Merkle_Bytes Merkle_Combine P2PKH Address SPV Fees Beef_Valid Beef_Ops Beef_Roundtrip
begin

text \<open>
  \<^bold>\<open>Verification of the core of the BSV Go SDK\<close>

  The repository is a stack of Go packages for the Bitcoin SV network. Its core is the SDK, \<^verbatim>\<open>packages/sdk/go-sdk\<close>: script execution, transactions and
  their digests, merkle proofs, the containers that carry transactions with their proofs, addresses and script templates. The other packages (wallet
  toolbox, overlay services, paymail, middleware, servers) call the SDK and talk to databases and networks. This development models the SDK's core. All
  file names below are under \<^verbatim>\<open>src/packages/sdk/go-sdk\<close>.

  \<^bold>\<open>How the parts interact.\<close> A spend is checked by \<open>Execute\<close>, which builds a \<open>thread\<close> from its options, parses the unlocking and the locking
  script, and steps through the opcodes; the signature opcodes ask the transaction for the digest that was signed. Transactions are read from and
  written to bytes; an input may hold the transaction that it spends from. A merkle path proves that a transaction is in a block, against a root that
  a chain tracker confirms. \<open>spv_Verify\<close> brings the parts together: it walks a transaction and its ancestors, checks the merkle paths and executes the
  scripts of the inputs that no path settles. BEEF containers carry such a transaction with its ancestors and paths.

  \<^bold>\<open>The theories.\<close>
  \<^item> \<open>Prelude\<close>: the machine types of Go as words, integers that wrap, results as sums with \<open>rbind\<close> and \<open>rmap\<close>, byte order conversions, and the
    lemmas that the components share, partly in the collection \<open>res_simps\<close>. \<open>Results\<close>: the condition \<open>wp E Q r\<close> on a result (its value satisfies \<open>Q\<close>, its
    fault \<open>E\<close>), with the rules \<open>wp_rules\<close> that carry the proofs about panics. \<open>Errs\<close>: the error codes (\<^verbatim>\<open>script/interpreter/errs\<close>) and the type of faults:
    an error of the engine, an error of package \<open>transaction\<close>, a panic, and the early success that OP_RETURN uses.
  \<^item> \<open>Script_Number\<close> (\<^verbatim>\<open>number.go\<close>), \<open>Script_Stack\<close> (\<^verbatim>\<open>stack.go\<close>), \<open>Script_Config\<close> (\<^verbatim>\<open>config.go\<close>, \<^verbatim>\<open>scriptflag\<close>), \<open>Opcodes\<close> (\<^verbatim>\<open>script/opcodes.go\<close> and the
    table of \<^verbatim>\<open>operations.go\<close>), \<open>Opcode_Parser\<close> (\<^verbatim>\<open>opcodeparser.go\<close>): the parts of the script interpreter below the thread, with the round trips of numbers and
    scripts, minimal encodings, and the movements of the stack operations.
  \<^item> \<open>Thread\<close> (\<^verbatim>\<open>thread.go\<close>), \<open>Operations\<close> and \<open>Signature_Ops\<close> (\<^verbatim>\<open>operations.go\<close>: every opcode handler), \<open>Engine\<close> (\<^verbatim>\<open>engine.go\<close>, \<^verbatim>\<open>options.go\<close>, the table of handlers,
    \<open>executeOpcode\<close>, \<open>Step\<close>, \<open>execute\<close>, and the construction of a thread): the script engine. The record \<open>thread\<close> has the fields of the Go struct.
  \<^item> \<open>Handler_Laws\<close>, \<open>Engine_Laws\<close>, \<open>Engine_Inv\<close>, \<open>Engine_Safety\<close>, \<open>Engine_Props\<close>: what each handler keeps and when it panics, the same for a step, the reachable
    threads as an inductive relation and their invariants, termination, and the theorems on \<open>Execute\<close>. \<open>Panics\<close> has inputs that panic after genesis.
  \<^item> \<open>Conditionals\<close>: the two stacks that represent open conditionals refine a specification with one frame per conditional. \<open>Data_Ops\<close>, \<open>Shift_Ops\<close>,
    \<open>Sig_Encoding\<close>, \<open>Multisig\<close>, \<open>Locktime\<close>: single opcodes against what they mean: strings and numbers, shifts as arithmetic, strict DER, matching of
    signatures with keys, lock times. \<open>P2PKH\<close>: the run of a payment to a public key hash, from its bytes to the verdict.
  \<^item> \<open>VarInt\<close> (\<^verbatim>\<open>util/varint.go\<close>), \<open>Tx\<close> (\<^verbatim>\<open>transaction/transaction.go\<close>, \<^verbatim>\<open>input.go\<close>, \<^verbatim>\<open>output.go\<close>, \<^verbatim>\<open>txinput.go\<close>, \<^verbatim>\<open>txoutput.go\<close>), \<open>Fees\<close> (\<^verbatim>\<open>fees.go\<close>), \<open>Sighash\<close> and
    \<open>Sighash_Safety\<close> (\<^verbatim>\<open>signaturehash.go\<close>, \<^verbatim>\<open>sighash/flag.go\<close>): transactions, both wire formats, fees and change, the digests, what they commit to and what they leave
    open, and when they panic.
  \<^item> \<open>Merkle_Path\<close> (\<^verbatim>\<open>merklepath.go\<close>, \<^verbatim>\<open>merkletreeparent.go\<close>), \<open>Merkle_Root\<close>, \<open>Merkle_Combine\<close>, \<open>Merkle_Bytes\<close>: merkle paths against the tree of a block as the
    specification defines it, the soundness of a verified path, combination of paths, and the binary form.
  \<^item> \<open>SPV\<close> (\<^verbatim>\<open>spv\<close>): verification of a transaction with its ancestors.
  \<^item> \<open>Beef\<close> (\<^verbatim>\<open>transaction/beef.go\<close>, \<^verbatim>\<open>beefTx.go\<close>): containers of transactions with their merkle paths, their operations, validation and \<open>Verify\<close>; \<open>Beef_Valid\<close>:
    the validation computes the least set of transactions that are proven or spend from such transactions only, and what an accepted container guarantees.
    \<open>Beef_Ops\<close>: the operations keep entries under their ids, and trimming keeps every proof. \<open>Beef_Wire\<close> and \<open>Beef_Roundtrip\<close>: a transaction written
    with its ancestors, the readers of both versions, and what they restore.
  \<^item> \<open>Script_Chunks\<close> and \<open>Chunk_Laws\<close> (\<^verbatim>\<open>script/script_chunk.go\<close>, \<^verbatim>\<open>script.go\<close>), \<open>Base58\<close> (\<^verbatim>\<open>compat/base58\<close>), \<open>Address\<close> (\<^verbatim>\<open>script/address.go\<close>, \<^verbatim>\<open>addressvalidation.go\<close>,
    \<^verbatim>\<open>template/p2pkh\<close>): scripts as chunks, the base 58 code, addresses and the template that pays to them.

  \<^bold>\<open>Interfaces.\<close> Contracts between components are locales, each interpreted on the definitions of the model. \<open>lifo\<close> is the contract of a stack that its
  derived operations rely on (interpreted on the script stack). \<open>reader\<close> and \<open>codec\<close> are the contracts of a reader of a byte stream and of one that inverts
  an encoder, with the laws of reading a sequence (interpreted on variable length integers, outputs, inputs, leaves and levels of merkle
  paths). \<open>restoring\<close> is what the readers of the two BEEF versions share (interpreted on both). \<open>dispatch\<close> and \<open>guarded\<close> are what the engine needs of the table of handlers and of the checks before a handler, and \<open>step_loop\<close> turns a
  step with a decreasing rank into a loop that ends (interpreted on \<open>op_exec\<close>, \<open>executeOpcode\<close> and \<open>Step\<close>).

  \<^bold>\<open>Conventions.\<close> A Go struct is a record or datatype with its field names, a nil-able pointer an option, a slice a list, an integer of fixed size a word or
  an integer that wraps where the code wraps. A function that can fail returns a sum whose left side is the error or \<open>Panic\<close>: an index out of range, a nil
  dereference, a division by zero, an allocation beyond \<open>maxAlloc\<close>. Methods that change their receiver return the changed value. Where Go lets two variables share
  an object that one of them changes, the opening text of the theory says what the model does. A name that clashes with a constant of the library carries a
  prefix or suffix (\<open>Tx_Bytes\<close>, \<open>VarInt_Bytes\<close>).

  \<^bold>\<open>Fuel and bounds.\<close> No definition takes fuel. Loops are recursive functions with termination proofs; the loop of \<open>execute\<close> is a partial function whose
  value is \<open>None\<close> if it does not end (\<open>spv_Verify\<close>, which calls it, has the same kind of result), and \<open>Execute_returns\<close> and \<open>spv_Verify_returns\<close> show
  that this never happens. \<open>maxAlloc\<close> is \<open>2 ^ 48\<close> bytes, the address space of the
  platform. Bounds on the sizes of transactions in the theorems are those of the fields that hold them (64 bit satoshis, 32 bit indices and lengths).

  \<^bold>\<open>Parameters.\<close> Hash functions and the elliptic curve operations of package \<open>ec\<close> are the record \<open>crypto\<close>; theorems that need it assume that SHA-256
  gives 32 bytes, or name the pairs of inputs that would have to collide. The chain tracker and the fee model are services of the caller.

  \<^bold>\<open>Not modelled.\<close> The debugger and state snapshots of the engine, which observe it; conversions from and to hex, JSON, ASM and log strings;
  of the BEEF containers, the operations whose result depends on which objects are shared (\<open>MergeBump\<close> compares pointers, \<open>MergeTransaction\<close>, \<open>MergeBeef\<close> and
  \<open>FindAtomicTransaction\<close> change transactions that other entries hold) and the bytes of a whole container; the
  arithmetic of the elliptic curve and the ciphers (\<^verbatim>\<open>primitives\<close>), which is the standard library's or number theory; key derivation, mnemonics and message
  formats (\<^verbatim>\<open>compat\<close>, \<^verbatim>\<open>message\<close>), which are tables and calls of these; the wallet interface, authentication, registry, identity, key-value store and storage
  clients (\<^verbatim>\<open>wallet\<close>, \<^verbatim>\<open>auth\<close> and others), which are protocols over HTTP; and the packages outside the SDK, which are servers, database code and
  clients of network services.
\<close>

end
